(* ===== verification/Prelude.thy ===== *)
theory Prelude
  imports Main
begin

text \<open>
  Shared vocabulary of the development: the ways in which a call of the program can end
  other than by returning, the named collections of simplification rules that the
  components fill, and a few facts on lists that several components use.
\<close>

section \<open>How a call ends\<close>

text \<open>
  A function of the program either returns or it stops the caller: an exception leaves it
  (and, where nobody catches it, ends the process), it calls \<open>exit\<close>, or it runs into
  behaviour the C++ standard leaves undefined (\<open>back()\<close> of an empty vector, \<open>top()\<close>
  of an empty stack, a read past a buffer).
\<close>

datatype exn = InvalidArgument | OutOfRange | LengthError | FilesystemError | JsonError | SystemError

datatype stop = Uncaught exn | Exit int | Undefined

type_synonym 'a outcome = "stop + 'a"

section \<open>Collections of rules\<close>

named_theorems cpp_simps \<open>executable characterisations of the standard library operations\<close>
named_theorems resp_simps \<open>what a response observer sees after each call on a response\<close>
named_theorems prepare_defs \<open>the response-building helpers of the handlers\<close>

section \<open>Facts on lists\<close>

lemma takeWhile_append_stop:
  "(\<And>x. x \<in> set xs \<Longrightarrow> P x) \<Longrightarrow> \<not> P y \<Longrightarrow> takeWhile P (xs @ y # ys) = xs"
  by (simp add: takeWhile_append2)

lemma sorted_wrt_less_distinct: "sorted_wrt (<) (xs :: 'a::linorder list) \<Longrightarrow> distinct xs"
  by (simp add: strict_sorted_iff)

end
