(* ===== verification/Cpp_Std.thy ===== *)
theory Cpp_Std
  imports Prelude
begin

text \<open>
  The parts of the C++ standard library the program computes with: searches in
  \<open>std::string\<close>, the decimal conversions \<open>std::to_string\<close> and \<open>std::stoi\<close>, and
  the character interface of \<open>std::istream\<close>. A string is a list of bytes; \<open>npos\<close> is
  \<open>None\<close>.
\<close>

section \<open>Searching in strings\<close>

text \<open>\<open>s.find(p)\<close>: the first position at which \<open>p\<close> occurs in \<open>s\<close>.\<close>

fun is_prefix :: "string \<Rightarrow> string \<Rightarrow> bool" where
  "is_prefix [] s = True"
| "is_prefix (p # ps) [] = False"
| "is_prefix (p # ps) (c # s) = (p = c \<and> is_prefix ps s)"

fun find_str :: "string \<Rightarrow> string \<Rightarrow> nat option" where
  "find_str p [] = (if is_prefix p [] then Some 0 else None)"
| "find_str p (c # s) =
     (if is_prefix p (c # s) then Some 0 else map_option Suc (find_str p s))"

text \<open>\<open>s.find_last_of(c)\<close> for a single character \<open>c\<close>.\<close>

fun find_last_of :: "char \<Rightarrow> string \<Rightarrow> nat option" where
  "find_last_of d [] = None"
| "find_last_of d (c # s) =
     (case find_last_of d s of
        Some n \<Rightarrow> Some (Suc n)
      | None \<Rightarrow> if c = d then Some 0 else None)"

text \<open>\<open>while (s.length() >= 1 && s[s.length()-1] == c) s.pop_back();\<close>\<close>

function pop_trailing :: "char \<Rightarrow> string \<Rightarrow> string" where
  "pop_trailing d s = (if s \<noteq> [] \<and> last s = d then pop_trailing d (butlast s) else s)"
  by pat_completeness auto
termination
  by (relation "measure (\<lambda>(d, s). length s)") auto

declare pop_trailing.simps [simp del]

lemma is_prefix_iff [cpp_simps]: "is_prefix p s \<longleftrightarrow> take (length p) s = p"
  by (induction p s rule: is_prefix.induct) auto

lemma is_prefix_append [simp]: "is_prefix p (p @ s)"
  by (simp add: is_prefix_iff)

lemma is_prefixE:
  assumes "is_prefix p s"
  obtains r where "s = p @ r"
  using assms by (metis append_take_drop_id is_prefix_iff)

text \<open>The test the handlers use: the prefix occurs, and occurs at position 0.\<close>

lemma find_str_0_iff [cpp_simps]: "find_str p s = Some 0 \<longleftrightarrow> is_prefix p s"
  by (cases s) auto

lemma find_last_of_None_iff [cpp_simps]: "find_last_of d s = None \<longleftrightarrow> d \<notin> set s"
  by (induction s) (auto split: option.splits)

lemma find_last_of_SomeD:
  "find_last_of d s = Some n \<Longrightarrow> n < length s \<and> s ! n = d \<and> d \<notin> set (drop (Suc n) s)"
proof (induction s arbitrary: n)
  case (Cons c s)
  then show ?case
    by (cases "find_last_of d s") (auto simp: find_last_of_None_iff split: if_splits)
qed simp

lemma find_last_of_append_notin:
  "d \<notin> set r \<Longrightarrow> find_last_of d (s @ d # r) = Some (length s)"
proof (induction s)
  case Nil
  then show ?case by (cases "find_last_of d r") (simp_all, metis find_last_of_None_iff option.distinct(1))
qed simp

lemma find_last_of_Some_less: "find_last_of d s = Some n \<Longrightarrow> n < length s"
  by (simp add: find_last_of_SomeD)

lemma pop_trailing_id: "s = [] \<or> last s \<noteq> d \<Longrightarrow> pop_trailing d s = s"
  by (subst pop_trailing.simps) auto

lemma pop_trailing_last: "pop_trailing d s = [] \<or> last (pop_trailing d s) \<noteq> d"
proof (induction d s rule: pop_trailing.induct)
  case (1 d s)
  then show ?case by (subst (1 2) pop_trailing.simps) auto
qed

lemma pop_trailing_prefix: "\<exists>n. s = pop_trailing d s @ replicate n d"
proof (induction d s rule: pop_trailing.induct)
  case (1 d s)
  show ?case
  proof (cases "s \<noteq> [] \<and> last s = d")
    case True
    with "1.IH" obtain n where n: "butlast s = pop_trailing d (butlast s) @ replicate n d" by blast
    have "s = butlast s @ [d]" using True by (metis append_butlast_last_id)
    also have "\<dots> = pop_trailing d (butlast s) @ replicate (Suc n) d"
      by (subst n) (simp add: replicate_append_same)
    finally show ?thesis using True by (metis pop_trailing.simps)
  next
    case False
    then have "s = pop_trailing d s @ replicate 0 d" by (subst pop_trailing.simps) auto
    then show ?thesis by blast
  qed
qed

section \<open>Decimal conversions\<close>

definition is_digit :: "char \<Rightarrow> bool" where
  "is_digit c \<longleftrightarrow> 48 \<le> (of_char c :: nat) \<and> (of_char c :: nat) \<le> 57"

definition digit_val :: "char \<Rightarrow> nat" where
  "digit_val c = of_char c - 48"

definition digit_char :: "nat \<Rightarrow> char" where
  "digit_char n = char_of (48 + n)"

definition is_space :: "char \<Rightarrow> bool" where
  "is_space c \<longleftrightarrow> (of_char c :: nat) = 32 \<or> 9 \<le> (of_char c :: nat) \<and> (of_char c :: nat) \<le> 13"

fun nat_str :: "nat \<Rightarrow> string" where
  "nat_str n = (if n < 10 then [digit_char n] else nat_str (n div 10) @ [digit_char (n mod 10)])"

declare nat_str.simps [simp del]

definition to_string :: "int \<Rightarrow> string" where
  "to_string i = (if i < 0 then CHR ''-'' # nat_str (nat (- i)) else nat_str (nat i))"

definition digits_value :: "string \<Rightarrow> int" where
  "digits_value ds = foldl (\<lambda>a c. 10 * a + int (digit_val c)) 0 ds"

text \<open>
  \<open>strtol\<close> in base ten: leading white space, an optional sign, then the longest run of
  digits; \<open>None\<close> when there is no digit. What follows the digits is ignored.
\<close>

definition strtol :: "string \<Rightarrow> int option" where
  "strtol s =
     (let t = dropWhile is_space s;
          (neg, u) = (case t of
                        [] \<Rightarrow> (False, [])
                      | c # r \<Rightarrow> if c = CHR ''-'' then (True, r)
                                 else if c = CHR ''+'' then (False, r) else (False, t));
          ds = takeWhile is_digit u
      in if ds = [] then None
         else Some (if neg then - digits_value ds else digits_value ds))"

definition int_min :: int where "int_min = - 2147483648"
definition int_max :: int where "int_max = 2147483647"

text \<open>\<open>std::stoi\<close>: throws when there is no number, or when it does not fit an \<open>int\<close>.\<close>

definition stoi :: "string \<Rightarrow> exn + int" where
  "stoi s = (case strtol s of
               None \<Rightarrow> Inl InvalidArgument
             | Some n \<Rightarrow> if n < int_min \<or> int_max < n then Inl OutOfRange else Inr n)"

lemma digit_char_code [simp]: "n < 10 \<Longrightarrow> (of_char (digit_char n) :: nat) = 48 + n"
  by (simp add: digit_char_def)

lemma is_digit_digit_char [simp]: "n < 10 \<Longrightarrow> is_digit (digit_char n)"
  by (simp add: is_digit_def)

lemma digit_val_digit_char [simp]: "n < 10 \<Longrightarrow> digit_val (digit_char n) = n"
  by (simp add: digit_val_def)

lemma is_digit_not_space: "is_digit c \<Longrightarrow> \<not> is_space c"
  by (auto simp: is_digit_def is_space_def)

lemma is_digit_not_sign: "is_digit c \<Longrightarrow> c \<noteq> CHR ''-'' \<and> c \<noteq> CHR ''+'' \<and> c \<noteq> CHR ''/''"
  by (auto simp: is_digit_def)

lemma nat_str_digits: "list_all is_digit (nat_str n)"
proof (induction n rule: nat_str.induct)
  case (1 n)
  then show ?case by (subst nat_str.simps) simp
qed

lemma nat_str_not_Nil [simp]: "nat_str n \<noteq> []"
  by (subst nat_str.simps) simp

lemma digits_value_snoc: "digits_value (ds @ [c]) = 10 * digits_value ds + int (digit_val c)"
  by (simp add: digits_value_def)

lemma digits_value_nat_str [simp]: "digits_value (nat_str n) = int n"
proof (induction n rule: nat_str.induct)
  case (1 n)
  show ?case
  proof (cases "n < 10")
    case True
    then show ?thesis by (subst nat_str.simps) (simp add: digits_value_def)
  next
    case False
    then show ?thesis using 1
      by (subst nat_str.simps) (simp add: digits_value_snoc zdiv_int zmod_int)
  qed
qed

lemma nat_str_inject [simp]: "nat_str m = nat_str n \<longleftrightarrow> m = n"
  by (metis digits_value_nat_str of_nat_eq_iff)

lemma takeWhile_digits: "list_all is_digit ds \<Longrightarrow> takeWhile is_digit ds = ds"
  by (induction ds) auto

text \<open>Digits alone are read as their value, whatever they are.\<close>

lemma strtol_digits:
  assumes "ds \<noteq> []" and "list_all is_digit ds"
  shows "strtol ds = Some (digits_value ds)"
proof -
  obtain c r where ds: "ds = c # r" using assms(1) by (cases ds) auto
  then have c: "is_digit c" using assms(2) by simp
  have "list_all is_digit r" using assms(2) ds by simp
  then show ?thesis
    using ds c is_digit_not_space [OF c] is_digit_not_sign [OF c]
    by (simp add: strtol_def takeWhile_digits)
qed

lemma strtol_to_string [simp]: "strtol (to_string i) = Some i"
proof (cases "i < 0")
  case True
  then show ?thesis
    by (simp add: to_string_def strtol_def is_space_def Let_def takeWhile_digits nat_str_digits)
next
  case False
  then show ?thesis by (simp add: to_string_def strtol_digits nat_str_digits)
qed

lemma stoi_to_string: "int_min \<le> i \<Longrightarrow> i \<le> int_max \<Longrightarrow> stoi (to_string i) = Inr i"
  by (simp add: stoi_def)

lemma to_string_inject [simp]: "to_string i = to_string j \<longleftrightarrow> i = j"
  by (metis option.inject strtol_to_string)

lemma to_string_not_Nil [simp]: "to_string i \<noteq> []"
  by (simp add: to_string_def)

lemma to_string_no_slash [simp]: "CHR ''/'' \<notin> set (to_string i)"
proof -
  have "CHR ''/'' \<notin> set (nat_str n)" for n
    using nat_str_digits [of n] is_digit_not_sign by (auto simp: list_all_iff)
  then show ?thesis by (simp add: to_string_def)
qed

section \<open>Input streams\<close>

text \<open>
  A \<open>std::istream\<close> over a byte sequence: what is left to read, what has been read (last
  byte first, for \<open>unget\<close>) and whether \<open>good()\<close> holds. A \<open>get\<close> at the end sets
  \<open>eofbit\<close> and \<open>failbit\<close> and returns \<open>EOF\<close>, whose conversion to \<open>char\<close> is the
  byte \<open>0xFF\<close>. After that \<open>failbit\<close> stays, so \<open>good()\<close> stays false.
\<close>

record istream =
  rest :: string
  past :: string
  good :: bool

definition open_stream :: "string \<Rightarrow> istream" where
  "open_stream s = \<lparr>rest = s, past = [], good = True\<rparr>"

definition eof_char :: char where "eof_char = CHR 0xFF"

definition get :: "istream \<Rightarrow> char \<times> istream" where
  "get i = (if \<not> good i then (eof_char, i)
            else case rest i of
                   [] \<Rightarrow> (eof_char, i\<lparr>good := False\<rparr>)
                 | c # cs \<Rightarrow> (c, i\<lparr>rest := cs, past := c # past i\<rparr>))"

definition unget :: "istream \<Rightarrow> istream" where
  "unget i = (if \<not> good i then i
              else case past i of
                     [] \<Rightarrow> i\<lparr>good := False\<rparr>
                   | c # cs \<Rightarrow> i\<lparr>rest := c # rest i, past := cs\<rparr>)"

lemma get_Cons [simp]:
  "get \<lparr>rest = c # cs, past = p, good = True\<rparr> = (c, \<lparr>rest = cs, past = c # p, good = True\<rparr>)"
  by (simp add: get_def)

lemma get_Nil [simp]:
  "get \<lparr>rest = [], past = p, good = True\<rparr> = (eof_char, \<lparr>rest = [], past = p, good = False\<rparr>)"
  by (simp add: get_def)

lemma unget_Cons [simp]:
  "unget \<lparr>rest = cs, past = c # p, good = True\<rparr> = \<lparr>rest = c # cs, past = p, good = True\<rparr>"
  by (simp add: unget_def)

text \<open>A successful \<open>get\<close> takes exactly one byte; no \<open>get\<close> adds any.\<close>

lemma get_shrinks: "get i = (c, i') \<Longrightarrow> good i' \<Longrightarrow> length (rest i') < length (rest i)"
  by (auto simp: get_def split: if_splits list.splits)

lemma get_length_le: "length (rest (snd (get i))) \<le> length (rest i)"
  by (auto simp: get_def split: list.splits)

end
