(* ===== verification/Config_Lexer.thy ===== *)
theory Config_Lexer
  imports Cpp_Std
begin

text \<open>
  The tokenizer of the configuration language, \<open>NginxConfigParser::ParseToken\<close> in
  \<open>src/config_parser.cc\<close>: a character automaton over the input stream. One call reads
  white space and then one token. The lemmas say that a call always ends, how much it
  reads, what the value of a token can be, and exactly what is read for the inputs the
  printer of a configuration produces.
\<close>

section \<open>Tokens and states of the automaton\<close>

datatype token_type =
    TOKEN_TYPE_START | TOKEN_TYPE_NORMAL | TOKEN_TYPE_START_BLOCK | TOKEN_TYPE_END_BLOCK
  | TOKEN_TYPE_COMMENT | TOKEN_TYPE_STATEMENT_END | TOKEN_TYPE_EOF | TOKEN_TYPE_ERROR

datatype parser_state =
    INITIAL_WHITESPACE | SINGLE_QUOTE | DOUBLE_QUOTE | STATE_COMMENT | STATE_NORMAL

fun TokenTypeAsString :: "token_type \<Rightarrow> string" where
  "TokenTypeAsString TOKEN_TYPE_START = ''TOKEN_TYPE_START''"
| "TokenTypeAsString TOKEN_TYPE_NORMAL = ''TOKEN_TYPE_NORMAL''"
| "TokenTypeAsString TOKEN_TYPE_START_BLOCK = ''TOKEN_TYPE_START_BLOCK''"
| "TokenTypeAsString TOKEN_TYPE_END_BLOCK = ''TOKEN_TYPE_END_BLOCK''"
| "TokenTypeAsString TOKEN_TYPE_COMMENT = ''TOKEN_TYPE_COMMENT''"
| "TokenTypeAsString TOKEN_TYPE_STATEMENT_END = ''TOKEN_TYPE_STATEMENT_END''"
| "TokenTypeAsString TOKEN_TYPE_EOF = ''TOKEN_TYPE_EOF''"
| "TokenTypeAsString TOKEN_TYPE_ERROR = ''TOKEN_TYPE_ERROR''"

section \<open>One character\<close>

text \<open>The body of the loop, on the character just read, either returns or continues.\<close>

datatype lex_step =
    Return token_type string istream
  | Continue parser_state string istream

text \<open>
  The delimiter test of the quoted and of the normal state. The source writes the test
  against \<open>'\t'\<close> twice and none against \<open>'\r'\<close>; so a carriage return does not end a
  token.
\<close>

definition ends_token :: "char \<Rightarrow> bool" where
  "ends_token c \<longleftrightarrow> c = CHR '' '' \<or> c = CHR 0x09 \<or> c = CHR 0x0A \<or> c = CHR 0x09 \<or>
                    c = CHR '';'' \<or> c = CHR ''{'' \<or> c = CHR ''}''"

definition lex_initial :: "char \<Rightarrow> string \<Rightarrow> istream \<Rightarrow> lex_step" where
  "lex_initial c val i =
     (if c = CHR ''{'' then Return TOKEN_TYPE_START_BLOCK [c] i
      else if c = CHR ''}'' then Return TOKEN_TYPE_END_BLOCK [c] i
      else if c = CHR ''#'' then Continue STATE_COMMENT [c] i
      else if c = CHR 0x22 then Continue DOUBLE_QUOTE [c] i
      else if c = CHR 0x27 then Continue SINGLE_QUOTE [c] i
      else if c = CHR '';'' then Return TOKEN_TYPE_STATEMENT_END [c] i
      else if c = CHR '' '' \<or> c = CHR 0x09 \<or> c = CHR 0x0A \<or> c = CHR 0x0D
        then Continue INITIAL_WHITESPACE val i
      else Continue STATE_NORMAL (val @ [c]) i)"

text \<open>
  The two quoted states run the same code with their own quote \<open>q\<close>: a backslash takes
  the next character as it is, an unescaped quote must be followed by a delimiter.
\<close>

definition lex_quoted :: "parser_state \<Rightarrow> char \<Rightarrow> char \<Rightarrow> string \<Rightarrow> istream \<Rightarrow> lex_step" where
  "lex_quoted state q c val i =
     (if c = CHR 0x5C then
        (if good i then (case get i of (c2, i2) \<Rightarrow> Continue state (val @ [c2]) i2)
         else Return TOKEN_TYPE_ERROR val i)
      else
        (let val = val @ [c] in
         if c = q then
           (if good i then
              (case get i of (c2, i2) \<Rightarrow>
                 if ends_token c2 then Return TOKEN_TYPE_NORMAL val (unget i2)
                 else Return TOKEN_TYPE_ERROR val i2)
            else Continue state val i)
         else Continue state val i))"

definition lex_comment :: "char \<Rightarrow> string \<Rightarrow> istream \<Rightarrow> lex_step" where
  "lex_comment c val i =
     (if c = CHR 0x0A \<or> c = CHR 0x0D then Return TOKEN_TYPE_COMMENT val i
      else Continue STATE_COMMENT (val @ [c]) i)"

definition lex_normal :: "char \<Rightarrow> string \<Rightarrow> istream \<Rightarrow> lex_step" where
  "lex_normal c val i =
     (if ends_token c then Return TOKEN_TYPE_NORMAL val (unget i)
      else Continue STATE_NORMAL (val @ [c]) i)"

fun lex_char :: "parser_state \<Rightarrow> char \<Rightarrow> string \<Rightarrow> istream \<Rightarrow> lex_step" where
  "lex_char INITIAL_WHITESPACE c val i = lex_initial c val i"
| "lex_char SINGLE_QUOTE c val i = lex_quoted SINGLE_QUOTE (CHR 0x27) c val i"
| "lex_char DOUBLE_QUOTE c val i = lex_quoted DOUBLE_QUOTE (CHR 0x22) c val i"
| "lex_char STATE_COMMENT c val i = lex_comment c val i"
| "lex_char STATE_NORMAL c val i = lex_normal c val i"

section \<open>The loop\<close>

text \<open>What \<open>ParseToken\<close> returns when the input has ended.\<close>

definition lex_end :: "parser_state \<Rightarrow> token_type" where
  "lex_end state = (if state = SINGLE_QUOTE \<or> state = DOUBLE_QUOTE
                    then TOKEN_TYPE_ERROR else TOKEN_TYPE_EOF)"

lemma lex_char_Continue_length:
  "lex_char state c val i = Continue state' val' i' \<Longrightarrow> length (rest i') \<le> length (rest i)"
  using get_length_le [of i]
  by (cases state) (auto simp: lex_initial_def lex_quoted_def lex_comment_def lex_normal_def Let_def
      split: if_splits prod.splits)

function lex_loop :: "parser_state \<Rightarrow> string \<Rightarrow> istream \<Rightarrow> token_type \<times> string \<times> istream" where
  "lex_loop state val i =
     (if \<not> good i then (lex_end state, val, i)
      else let (c, i1) = get i in
           if \<not> good i1 then (lex_end state, val, i1)
           else case lex_char state c val i1 of
                  Return t v i2 \<Rightarrow> (t, v, i2)
                | Continue state' val' i2 \<Rightarrow> lex_loop state' val' i2)"
  by pat_completeness auto
termination
proof (relation "measure (\<lambda>(state, val, i). length (rest i))", goal_cases)
  case (2 state val i x c i1 state' val' i2)
  then have "length (rest i1) < length (rest i)" by (metis get_shrinks)
  then show ?case using 2 lex_char_Continue_length by fastforce
qed simp

declare lex_loop.simps [simp del]

text \<open>\<open>ParseToken\<close>, called with \<open>*value\<close> an empty string.\<close>

definition ParseToken :: "istream \<Rightarrow> token_type \<times> string \<times> istream" where
  "ParseToken i = lex_loop INITIAL_WHITESPACE [] i"

section \<open>Reference tokenizer\<close>

text \<open>
  What \<open>ParseToken\<close> computes, said with whole runs of characters instead of an
  automaton: skip white space; a brace or a semicolon is a token; a comment runs to the
  end of its line; a quoted token runs to its closing quote; any other token is the
  longest run without a delimiter, and counts only when a delimiter follows.
\<close>

definition blank :: "char \<Rightarrow> bool" where
  "blank c \<longleftrightarrow> c = CHR '' '' \<or> c = CHR 0x09 \<or> c = CHR 0x0A \<or> c = CHR 0x0D"

definition line_end :: "char \<Rightarrow> bool" where
  "line_end c \<longleftrightarrow> c = CHR 0x0A \<or> c = CHR 0x0D"

text \<open>The text after an opening quote: the value read and what is left, \<open>None\<close> on an error.\<close>

fun unquote :: "char \<Rightarrow> string \<Rightarrow> (string \<times> string) option" where
  "unquote q [] = None"
| "unquote q [c] = None"
| "unquote q (c # d # s) =
     (if c = CHR 0x5C then map_option (apfst (Cons d)) (unquote q s)
      else if c = q then (if ends_token d then Some ([c], d # s) else None)
      else map_option (apfst (Cons c)) (unquote q (d # s)))"

text \<open>The reference result: token type, value and remaining input.\<close>

definition ref_quoted :: "char \<Rightarrow> string \<Rightarrow> token_type \<times> string \<times> string" where
  "ref_quoted q s = (case unquote q s of
                       None \<Rightarrow> (TOKEN_TYPE_ERROR, [], [])
                     | Some (v, r) \<Rightarrow> (TOKEN_TYPE_NORMAL, q # v, r))"

definition ref_run :: "(char \<Rightarrow> bool) \<Rightarrow> token_type \<Rightarrow> string \<Rightarrow> token_type \<times> string \<times> string" where
  "ref_run stop t s =
     (case dropWhile (\<lambda>c. \<not> stop c) s of
        [] \<Rightarrow> (TOKEN_TYPE_EOF, s, [])
      | d # r \<Rightarrow> (t, takeWhile (\<lambda>c. \<not> stop c) s, d # r))"

definition ref_token :: "string \<Rightarrow> token_type \<times> string \<times> string" where
  "ref_token s =
     (case dropWhile blank s of
        [] \<Rightarrow> (TOKEN_TYPE_EOF, [], [])
      | c # r \<Rightarrow>
          if c = CHR ''{'' then (TOKEN_TYPE_START_BLOCK, [c], r)
          else if c = CHR ''}'' then (TOKEN_TYPE_END_BLOCK, [c], r)
          else if c = CHR '';'' then (TOKEN_TYPE_STATEMENT_END, [c], r)
          else if c = CHR 0x22 \<or> c = CHR 0x27 then ref_quoted c r
          else if c = CHR ''#'' then
            (case ref_run line_end TOKEN_TYPE_COMMENT (c # r) of (t, v, r') \<Rightarrow> (t, v, drop 1 r'))
          else ref_run ends_token TOKEN_TYPE_NORMAL (c # r))"

section \<open>The automaton computes the reference\<close>

abbreviation stream :: "string \<Rightarrow> string \<Rightarrow> istream" where
  "stream p s \<equiv> \<lparr>rest = s, past = p, good = True\<rparr>"

text \<open>
  A result of the automaton agrees with a reference result: the types agree and, unless
  the type is an error, so do the value and the remaining input; the stream stays good
  exactly when a token was found.
\<close>

fun agrees :: "token_type \<times> string \<times> istream \<Rightarrow> token_type \<times> string \<times> string \<Rightarrow> bool" where
  "agrees (t, v, i) (t', v', r) \<longleftrightarrow>
     t = t' \<and> (t = TOKEN_TYPE_ERROR \<or> v = v' \<and> rest i = r \<and> good i = (t \<noteq> TOKEN_TYPE_EOF))"

lemma lex_loop_Nil [simp]:
  "lex_loop state val (stream p []) = (lex_end state, val, \<lparr>rest = [], past = p, good = False\<rparr>)"
  by (simp add: lex_loop.simps)

lemma lex_loop_bad [simp]: "\<not> good i \<Longrightarrow> lex_loop state val i = (lex_end state, val, i)"
  by (simp add: lex_loop.simps)

lemma lex_loop_Cons:
  "lex_loop state val (stream p (c # s)) =
     (case lex_char state c val (stream (c # p) s) of
        Return t v i2 \<Rightarrow> (t, v, i2)
      | Continue state' val' i2 \<Rightarrow> lex_loop state' val' i2)"
  by (subst lex_loop.simps) simp

lemma lex_loop_normal:
  "agrees (lex_loop STATE_NORMAL val (stream p s))
     (case ref_run ends_token TOKEN_TYPE_NORMAL s of (t, v, r) \<Rightarrow> (t, val @ v, r))"
proof (induction s arbitrary: val p)
  case (Cons c s)
  show ?case
  proof (cases "ends_token c")
    case False
    with Cons.IH [of "val @ [c]" "c # p"] show ?thesis
      by (cases "dropWhile (\<lambda>c. \<not> ends_token c) s")
         (simp_all add: lex_loop_Cons [where c = c] lex_normal_def ref_run_def del: dropWhile_eq_Nil_conv)
  qed (simp add: lex_loop_Cons lex_normal_def ref_run_def)
qed (simp add: ref_run_def lex_end_def)

lemma lex_loop_comment:
  "agrees (lex_loop STATE_COMMENT val (stream p s))
     (case ref_run line_end TOKEN_TYPE_COMMENT s of (t, v, r) \<Rightarrow> (t, val @ v, drop 1 r))"
proof (induction s arbitrary: val p)
  case (Cons c s)
  show ?case
  proof (cases "line_end c")
    case False
    then have step: "lex_loop STATE_COMMENT val (stream p (c # s)) =
        lex_loop STATE_COMMENT (val @ [c]) (stream (c # p) s)"
      by (simp add: lex_loop_Cons [where c = c] lex_comment_def line_end_def)
    show ?thesis using False Cons.IH [of "val @ [c]" "c # p"]
      by (cases "dropWhile (\<lambda>c. \<not> line_end c) s") (simp_all add: step ref_run_def del: dropWhile_eq_Nil_conv)
  next
    case True
    then have "lex_loop STATE_COMMENT val (stream p (c # s)) =
        (TOKEN_TYPE_COMMENT, val, stream (c # p) s)"
      by (simp add: lex_loop_Cons lex_comment_def line_end_def)
    then show ?thesis using True by (simp add: ref_run_def)
  qed
qed (simp add: ref_run_def lex_end_def)

lemma lex_quoted_loop:
  assumes state: "(state = SINGLE_QUOTE \<and> q = CHR 0x27) \<or> (state = DOUBLE_QUOTE \<and> q = CHR 0x22)"
  shows "agrees (lex_loop state val (stream p s))
     (case unquote q s of None \<Rightarrow> (TOKEN_TYPE_ERROR, [], [])
        | Some (v, r) \<Rightarrow> (TOKEN_TYPE_NORMAL, val @ v, r))"
  using state
proof (induction q s arbitrary: val p rule: unquote.induct)
  case (1 q)
  then show ?case by (auto simp: lex_end_def)
next
  case (2 q c)
  then show ?case
    by (auto simp: lex_loop_Cons lex_quoted_def lex_end_def ends_token_def eof_char_def Let_def)
next
  case (3 q c d s)
  have char: "lex_char state c val i = lex_quoted state q c val i" for c val i
    using "3.prems" by auto
  have step: "lex_loop state val (stream p (c # d # s)) =
      (case lex_quoted state q c val (stream (c # p) (d # s)) of
         Return t v i2 \<Rightarrow> (t, v, i2)
       | Continue state' val' i2 \<Rightarrow> lex_loop state' val' i2)"
    by (subst lex_loop_Cons) (simp only: char)
  show ?case
  proof (cases "c = CHR 0x5C")
    case True
    show ?thesis
      using "3.IH"(1) [OF True "3.prems", of "val @ [d]" "d # c # p"] unfolding step
      by (cases "unquote q s") (auto simp: lex_quoted_def True)
  next
    case False
    show ?thesis
    proof (cases "c = q")
      case True
      show ?thesis using False True unfolding step
        by (cases "ends_token d") (simp_all add: lex_quoted_def)
    next
      case neq: False
      show ?thesis
        using False neq "3.IH"(2) [OF False neq "3.prems", of "val @ [c]" "c # p"] unfolding step
        by (cases "unquote q (d # s)") (auto simp: lex_quoted_def)
    qed
  qed
qed

lemma lex_loop_quote:
  assumes "c = CHR 0x22 \<and> st = DOUBLE_QUOTE \<or> c = CHR 0x27 \<and> st = SINGLE_QUOTE"
  shows "agrees (lex_loop INITIAL_WHITESPACE [] (stream p (c # s))) (ref_token (c # s))"
proof -
  have "lex_loop INITIAL_WHITESPACE [] (stream p (c # s)) = lex_loop st [c] (stream (c # p) s)"
    using assms by (auto simp: lex_loop_Cons [of INITIAL_WHITESPACE "[]" c s p] lex_initial_def)
  then show ?thesis using lex_quoted_loop [of st c "[c]" s "c # p"] assms
    by (auto simp: ref_token_def ref_quoted_def blank_def split: option.splits prod.splits)
qed

lemma lex_loop_initial: "agrees (lex_loop INITIAL_WHITESPACE [] (stream p s)) (ref_token s)"
proof (induction s arbitrary: p)
  case Nil
  show ?case by (simp add: ref_token_def lex_end_def)
next
  case (Cons c s)
  note step = lex_loop_Cons [of INITIAL_WHITESPACE "[]" c s p]
  consider (sym) "c \<in> {CHR ''{'', CHR ''}'', CHR '';''}"
    | (comment) "c = CHR ''#''" | (quote) "c = CHR 0x22 \<or> c = CHR 0x27"
    | (blank) "blank c"
    | (other) "c \<notin> {CHR ''{'', CHR ''}'', CHR '';'', CHR ''#'', CHR 0x22, CHR 0x27}" "\<not> blank c"
    by blast
  then show ?case
  proof cases
    case sym
    then show ?thesis by (auto simp: step lex_initial_def ref_token_def blank_def)
  next
    case comment
    then have "lex_loop INITIAL_WHITESPACE [] (stream p (c # s)) = lex_loop STATE_COMMENT [c] (stream (c # p) s)"
      unfolding step by (simp add: lex_initial_def)
    then show ?thesis using lex_loop_comment [of "[c]" s "c # p"] comment
      by (cases "dropWhile (\<lambda>c. \<not> line_end c) s")
         (simp_all add: ref_token_def ref_run_def blank_def line_end_def del: dropWhile_eq_Nil_conv)
  next
    case quote
    then show ?thesis using lex_loop_quote by blast
  next
    case blank
    then have "lex_loop INITIAL_WHITESPACE [] (stream p (c # s)) = lex_loop INITIAL_WHITESPACE [] (stream (c # p) s)"
      unfolding step by (auto simp: lex_initial_def blank_def)
    moreover have "ref_token (c # s) = ref_token s" using blank by (simp add: ref_token_def)
    ultimately show ?thesis using Cons.IH by simp
  next
    case other
    then have init: "lex_loop INITIAL_WHITESPACE [] (stream p (c # s)) = lex_loop STATE_NORMAL [c] (stream (c # p) s)"
      unfolding step by (simp add: lex_initial_def blank_def)
    have "\<not> ends_token c" using other by (auto simp: ends_token_def blank_def)
    then show ?thesis using lex_loop_normal [of "[c]" s "c # p"] other unfolding init
      by (cases "dropWhile (\<lambda>c. \<not> ends_token c) s")
         (simp_all add: ref_token_def ref_run_def del: dropWhile_eq_Nil_conv)
  qed
qed

lemma ParseToken_agrees: "agrees (ParseToken (stream p s)) (ref_token s)"
  by (simp add: ParseToken_def lex_loop_initial)

lemma ParseToken_bad: "\<not> good i \<Longrightarrow> ParseToken i = (TOKEN_TYPE_EOF, [], i)"
  by (simp add: ParseToken_def lex_end_def)

section \<open>What a call reads and returns\<close>

lemma length_dropWhile_less: "dropWhile P s = x # r \<Longrightarrow> length r < length s"
  using length_dropWhile_le [of P s] by simp

lemma unquote_length: "unquote q s = Some (v, r) \<Longrightarrow> length r < length s"
proof (induction q s arbitrary: v rule: unquote.induct)
  case (3 q c d s)
  show ?case
  proof (cases "c = CHR 0x5C")
    case True
    with "3.prems" obtain v' where "unquote q s = Some (v', r)" by auto
    then show ?thesis using "3.IH"(1) [OF True] by fastforce
  next
    case False
    then show ?thesis
    proof (cases "c = q")
      case neq: False
      with False "3.prems" obtain v' where "unquote q (d # s) = Some (v', r)" by auto
      then show ?thesis using "3.IH"(2) [OF False neq] by fastforce
    qed (use False "3.prems" in \<open>auto split: if_splits\<close>)
  qed
qed simp_all

lemma ref_run_length:
  assumes "ref_run st t (c # w) = (t', v, r)" and "\<not> st c"
  shows "length r \<le> length w"
proof -
  have "r = [] \<or> r = dropWhile (\<lambda>c. \<not> st c) w"
    using assms by (auto simp: ref_run_def split: list.splits)
  then show ?thesis using length_dropWhile_le by auto
qed

text \<open>The reference reads something unless it stops the parser.\<close>

lemma ref_token_shrinks:
  assumes "ref_token s = (t, v, r)" and "t \<noteq> TOKEN_TYPE_EOF" and "t \<noteq> TOKEN_TYPE_ERROR"
  shows "length r < length s"
proof -
  obtain c w where cw: "dropWhile blank s = c # w"
    using assms by (auto simp: ref_token_def split: list.splits)
  have le: "length w < length s" using cw by (rule length_dropWhile_less)
  have nb: "\<not> blank c" using cw by (metis hd_dropWhile list.discI list.sel(1))
  note ref = assms(1) [unfolded ref_token_def cw list.case]
  consider (brace) "c \<in> {CHR ''{'', CHR ''}'', CHR '';''}"
    | (quote) "c = CHR 0x22 \<or> c = CHR 0x27"
    | (comment) "c = CHR ''#''"
    | (word) "c \<notin> {CHR ''{'', CHR ''}'', CHR '';'', CHR ''#'', CHR 0x22, CHR 0x27}"
    by blast
  then have "length r \<le> length w"
  proof cases
    case brace
    then show ?thesis using ref by auto
  next
    case quote
    then show ?thesis using ref assms(3)
      by (auto simp: ref_quoted_def dest!: unquote_length split: option.splits)
  next
    case comment
    then obtain x where "ref_run line_end TOKEN_TYPE_COMMENT (c # w) = (t, v, x)" "r = drop 1 x"
      using ref by (auto split: prod.splits)
    then show ?thesis using ref_run_length comment by (fastforce simp: line_end_def)
  next
    case word
    then have "ref_run ends_token TOKEN_TYPE_NORMAL (c # w) = (t, v, r)" using ref by simp
    moreover have "\<not> ends_token c" using nb word by (auto simp: ends_token_def blank_def)
    ultimately show ?thesis by (rule ref_run_length)
  qed
  then show ?thesis using le by simp
qed

text \<open>\<open>ParseToken\<close> reads at least one character unless it makes the parser stop.\<close>

lemma ParseToken_stream:
  assumes "good i" and "ParseToken i = (t, v, i')"
  obtains v' r where "ref_token (rest i) = (t, v', r)"
    and "t \<noteq> TOKEN_TYPE_ERROR \<Longrightarrow> v' = v \<and> rest i' = r \<and> good i' = (t \<noteq> TOKEN_TYPE_EOF)"
proof -
  obtain s p where i: "i = stream p s" using assms(1) by (cases i) auto
  obtain t' v' r where ref: "ref_token s = (t', v', r)" by (metis prod_cases3)
  have "agrees (ParseToken i) (ref_token s)" unfolding i by (rule ParseToken_agrees)
  then have "agrees (t, v, i') (t', v', r)" unfolding assms(2) ref .
  then show thesis using that ref i by fastforce
qed

lemma ParseToken_shrinks:
  assumes "ParseToken i = (t, v, i')" and "t \<noteq> TOKEN_TYPE_EOF" and "t \<noteq> TOKEN_TYPE_ERROR"
  shows "length (rest i') < length (rest i)"
proof (cases "good i")
  case True
  then show ?thesis using assms by (metis ParseToken_stream ref_token_shrinks)
qed (use assms ParseToken_bad in auto)

text \<open>The type \<open>TOKEN_TYPE_START\<close> is never returned, and a normal token is never empty.\<close>

lemma ref_token_not_START: "ref_token s = (t, v, r) \<Longrightarrow> t \<noteq> TOKEN_TYPE_START"
  by (auto simp: ref_token_def ref_quoted_def ref_run_def
      split: list.splits if_splits option.splits prod.splits)

lemma ref_token_NORMAL_value:
  assumes "ref_token s = (TOKEN_TYPE_NORMAL, v, r)"
  shows "v \<noteq> []"
proof -
  obtain c w where cw: "dropWhile blank s = c # w" "\<not> blank c"
    using assms by (auto simp: ref_token_def split: list.splits)
       (metis hd_dropWhile list.discI list.sel(1))
  then have "c \<notin> {CHR ''{'', CHR ''}'', CHR '';'', CHR ''#'', CHR 0x22, CHR 0x27} \<Longrightarrow> \<not> ends_token c"
    by (auto simp: ends_token_def blank_def)
  then show ?thesis using assms cw
    by (auto simp: ref_token_def ref_quoted_def ref_run_def
        split: list.splits if_splits option.splits prod.splits)
qed

lemma ParseToken_not_START:
  assumes "ParseToken i = (t, v, i')" shows "t \<noteq> TOKEN_TYPE_START"
proof (cases "good i")
  case True
  show ?thesis by (rule ParseToken_stream [OF True assms]) (rule ref_token_not_START)
qed (use assms ParseToken_bad [of i] in simp)

lemma ParseToken_NORMAL_value:
  assumes "ParseToken i = (TOKEN_TYPE_NORMAL, v, i')" shows "v \<noteq> []"
proof (cases "good i")
  case True
  show ?thesis
    by (rule ParseToken_stream [OF True assms]) (use ref_token_NORMAL_value in blast)
qed (use assms ParseToken_bad [of i] in simp)

section \<open>Reading back printed tokens\<close>

text \<open>
  A token that can be written as it is: a bare word, or a quoted string without its quote
  or a backslash inside.
\<close>

definition bare_token :: "string \<Rightarrow> bool" where
  "bare_token t \<longleftrightarrow> t \<noteq> [] \<and> list_all (\<lambda>c. \<not> ends_token c) t \<and>
     hd t \<notin> {CHR ''#'', CHR 0x22, CHR 0x27, CHR 0x0D}"

definition quoted_token :: "string \<Rightarrow> bool" where
  "quoted_token t \<longleftrightarrow>
     (\<exists>q \<in> {CHR 0x22, CHR 0x27}. 2 \<le> length t \<and> hd t = q \<and> last t = q \<and>
        list_all (\<lambda>c. c \<noteq> q \<and> c \<noteq> CHR 0x5C) (butlast (tl t)))"

definition token_ok :: "string \<Rightarrow> bool" where
  "token_ok t \<longleftrightarrow> bare_token t \<or> quoted_token t"

lemma unquote_plain:
  "list_all (\<lambda>c. c \<noteq> q \<and> c \<noteq> CHR 0x5C) b \<Longrightarrow> ends_token d \<Longrightarrow> q \<noteq> CHR 0x5C \<Longrightarrow>
     unquote q (b @ q # d # r) = Some (b @ [q], d # r)"
proof (induction b)
  case (Cons c b)
  then show ?case by (cases b) auto
qed simp

lemma ref_token_bare:
  assumes "bare_token t" and "ends_token d"
  shows "ref_token (t @ d # r) = (TOKEN_TYPE_NORMAL, t, d # r)"
proof -
  obtain c w where t: "t = c # w" using assms(1) by (cases t) (auto simp: bare_token_def)
  then have c: "\<not> ends_token c" "c \<notin> {CHR ''#'', CHR 0x22, CHR 0x27, CHR 0x0D}"
    and w: "\<And>x. x \<in> set w \<Longrightarrow> \<not> ends_token x"
    using assms(1) by (auto simp: bare_token_def list_all_iff)
  then have nb: "\<not> blank c" and ns: "c \<notin> {CHR ''{'', CHR ''}'', CHR '';''}"
    by (auto simp: blank_def ends_token_def)
  have tw: "takeWhile (\<lambda>x. \<not> ends_token x) (w @ d # r) = w"
    and dw: "dropWhile (\<lambda>x. \<not> ends_token x) (w @ d # r) = d # r"
    using w assms(2) by (simp_all add: takeWhile_append_stop dropWhile_append3)
  show ?thesis using c nb ns by (simp add: t ref_token_def ref_run_def tw dw)
qed

lemma ref_token_quoted:
  assumes "quoted_token t" and "ends_token d"
  shows "ref_token (t @ d # r) = (TOKEN_TYPE_NORMAL, t, d # r)"
proof -
  obtain q where q: "q \<in> {CHR 0x22, CHR 0x27}" and len: "2 \<le> length t" and ht: "hd t = q" "last t = q"
    and b: "list_all (\<lambda>c. c \<noteq> q \<and> c \<noteq> CHR 0x5C) (butlast (tl t))"
    using assms(1) by (auto simp: quoted_token_def)
  obtain w where t: "t = q # w" "w \<noteq> []" using len ht(1) by (cases t) (auto simp: Suc_le_eq)
  then have "w = butlast w @ [q]" using ht(2) by (metis append_butlast_last_id last_ConsR)
  then obtain u where u: "t = q # u @ [q]" "list_all (\<lambda>c. c \<noteq> q \<and> c \<noteq> CHR 0x5C) u"
    using t b by (metis butlast_snoc list.sel(3))
  have "unquote q (u @ q # d # r) = Some (u @ [q], d # r)"
    using u(2) assms(2) q by (intro unquote_plain) auto
  then show ?thesis using q by (auto simp: u(1) ref_token_def ref_quoted_def blank_def)
qed

lemma ref_token_ok: "token_ok t \<Longrightarrow> ends_token d \<Longrightarrow> ref_token (t @ d # r) = (TOKEN_TYPE_NORMAL, t, d # r)"
  by (auto simp: token_ok_def ref_token_bare ref_token_quoted)

lemma ref_token_blank: "list_all blank w \<Longrightarrow> ref_token (w @ s) = ref_token s"
  by (simp add: ref_token_def list_all_iff)

lemma token_ok_not_Nil: "token_ok t \<Longrightarrow> t \<noteq> []"
  by (auto simp: token_ok_def bare_token_def quoted_token_def)

text \<open>
  Any string can be written between quotes: a backslash before each quote and each
  backslash of it.
\<close>

definition escape :: "char \<Rightarrow> string \<Rightarrow> string" where
  "escape q s = concat (map (\<lambda>c. if c = q \<or> c = CHR 0x5C then [CHR 0x5C, c] else [c]) s)"

lemma unquote_escape:
  "q \<noteq> CHR 0x5C \<Longrightarrow> ends_token d \<Longrightarrow>
     unquote q (escape q s @ q # d # r) = Some (s @ [q], d # r)"
proof (induction s)
  case (Cons c s)
  have "unquote q (c # escape q s @ q # d # r) = map_option (apfst (Cons c)) (unquote q (escape q s @ q # d # r))"
    if "c \<noteq> q" "c \<noteq> CHR 0x5C"
    using that by (cases "escape q s @ q # d # r") auto
  then show ?case using Cons by (auto simp: escape_def)
qed (simp add: escape_def)

lemma ref_token_escape:
  "q \<in> {CHR 0x22, CHR 0x27} \<Longrightarrow> ends_token d \<Longrightarrow>
     ref_token (q # escape q s @ q # d # r) = (TOKEN_TYPE_NORMAL, q # s @ [q], d # r)"
proof -
  assume q: "q \<in> {CHR 0x22, CHR 0x27}" and d: "ends_token d"
  then have "q \<noteq> CHR 0x5C" by auto
  from unquote_escape [OF this d] q show ?thesis
    by (auto simp: ref_token_def ref_quoted_def blank_def)
qed

section \<open>Properties\<close>

text \<open>C11: on every input the character automaton of \<open>ParseToken\<close> returns the type, the
  value and the remaining input of the reference tokenizer, and the stream stays good
  exactly when it returned a token.\<close>

theorem tokenizer_reference: "agrees (ParseToken \<lparr>rest = s, past = p, good = True\<rparr>) (ref_token s)"
  by (rule ParseToken_agrees)

text \<open>A call of \<open>ParseToken\<close> that finds a token reads at least one character, never
  returns the type \<open>TOKEN_TYPE_START\<close>, and a normal token it returns is not empty.\<close>

theorem ParseToken_progress:
  assumes "ParseToken i = (t, v, i')"
  shows "t \<noteq> TOKEN_TYPE_START \<and> (t = TOKEN_TYPE_NORMAL \<longrightarrow> v \<noteq> []) \<and>
    (t \<noteq> TOKEN_TYPE_EOF \<and> t \<noteq> TOKEN_TYPE_ERROR \<longrightarrow> length (rest i') < length (rest i))"
  using ParseToken_not_START [OF assms] ParseToken_NORMAL_value [of i v i'] ParseToken_shrinks [OF assms] assms
  by auto

lemma ParseToken_progress_witness:
  "ParseToken (open_stream ''a;'') =
     (TOKEN_TYPE_NORMAL, ''a'', \<lparr>rest = '';'', past = ''a'', good = True\<rparr>) \<and>
   length ('';'' :: string) < length (''a;'' :: string)"
proof -
  have run: "ParseToken (open_stream ''a;'') =
      (TOKEN_TYPE_NORMAL, ''a'', \<lparr>rest = '';'', past = ''a'', good = True\<rparr>)"
    by code_simp
  show ?thesis using ParseToken_progress [OF run] run by (simp add: open_stream_def)
qed

text \<open>C40: every string can be written as a quoted token: with a backslash before each quote
  and each backslash it is read back as it was, whatever blanks come first.\<close>

theorem quoted_roundtrip:
  assumes "q = CHR 0x22 \<or> q = CHR 0x27" and "ends_token d" and "list_all blank w"
  shows "agrees (ParseToken (open_stream (w @ q # escape q s @ q # d # r)))
           (TOKEN_TYPE_NORMAL, q # s @ [q], d # r)"
  using ParseToken_agrees [of "w @ q # escape q s @ q # d # r" "[]"] ref_token_escape [of q d s r] assms
  by (simp add: ref_token_blank open_stream_def)

lemma quoted_roundtrip_witness:
  "agrees (ParseToken (open_stream ('' '' @ CHR 0x22 # escape (CHR 0x22) [CHR ''a'', CHR 0x22] @ CHR 0x22 # '';'')))
     (TOKEN_TYPE_NORMAL, [CHR 0x22, CHR ''a'', CHR 0x22, CHR 0x22], '';'')"
  using quoted_roundtrip [of "CHR 0x22" "CHR '';''" "'' ''" "[CHR ''a'', CHR 0x22]" "[]"]
  by (simp add: ends_token_def blank_def)

text \<open>A carriage return does not end a word although it is white space between words: at
  the end of a line of a CR LF file it becomes part of the token.\<close>

theorem carriage_return_in_word:
  assumes "bare_token t"
  shows "agrees (ParseToken (open_stream (t @ CHR 0x0D # CHR 0x0A # r)))
           (TOKEN_TYPE_NORMAL, t @ [CHR 0x0D], CHR 0x0A # r)"
proof -
  have "bare_token (t @ [CHR 0x0D])" using assms by (auto simp: bare_token_def ends_token_def)
  then show ?thesis
    using ref_token_bare [of "t @ [CHR 0x0D]" "CHR 0x0A" r]
      ParseToken_agrees [of "t @ CHR 0x0D # CHR 0x0A # r" "[]"]
    by (simp add: ends_token_def open_stream_def)
qed

lemma carriage_return_in_word_witness:
  "agrees (ParseToken (open_stream [CHR ''a'', CHR 0x0D, CHR 0x0A]))
     (TOKEN_TYPE_NORMAL, [CHR ''a'', CHR 0x0D], [CHR 0x0A])"
  using carriage_return_in_word [of "''a''" "[]"] by (simp add: bare_token_def ends_token_def)

end
