(* ===== verification/Std_Map.thy ===== *)
theory Std_Map
  imports Prelude "HOL-Library.List_Lexorder" "HOL-Library.Char_ord"
begin

text \<open>
  \<open>std::map<std::string, V>\<close>. The program keeps its address bindings, its routes, the
  ids of the CRUD entities and the fields of a posted form in such maps. The model is the
  sequence of entries in the order the C++ iterators visit them, that is by increasing key
  (byte-wise, as \<open>std::char_traits<char>\<close> compares). The interface the components rely
  on is the locale \<open>std_map\<close>; its laws are discharged here for the sequence model.
\<close>

section \<open>The interface\<close>

locale std_map =
  fixes lookup :: "'m \<Rightarrow> string \<Rightarrow> 'v option"
    and assign :: "string \<Rightarrow> 'v \<Rightarrow> 'm \<Rightarrow> 'm"
    and emplace :: "string \<Rightarrow> 'v \<Rightarrow> 'm \<Rightarrow> 'm"
    and empty :: "'m"
    and entries :: "'m \<Rightarrow> (string \<times> 'v) list"
    and invar :: "'m \<Rightarrow> bool"
  assumes lookup_empty: "lookup empty k = None"
    and lookup_assign: "invar m \<Longrightarrow> lookup (assign k v m) k' = (if k' = k then Some v else lookup m k')"
    and lookup_emplace: "invar m \<Longrightarrow>
          lookup (emplace k v m) k' = (if k' = k \<and> lookup m k = None then Some v else lookup m k')"
    and lookup_entries: "invar m \<Longrightarrow> lookup m k = Some v \<longleftrightarrow> (k, v) \<in> set (entries m)"
    and distinct_entries: "invar m \<Longrightarrow> distinct (map fst (entries m))"
    and invar_empty: "invar empty"
    and invar_assign: "invar m \<Longrightarrow> invar (assign k v m)"
    and invar_emplace: "invar m \<Longrightarrow> invar (emplace k v m)"
begin

lemma assign_all:
  assumes "invar m" and "\<And>k' v'. lookup m k' = Some v' \<Longrightarrow> P k' v'" and "P k v"
    and "lookup (assign k v m) k' = Some v'"
  shows "P k' v'"
  using assms by (auto simp: lookup_assign split: if_splits)

text \<open>Assigning a sequence of bindings leaves the last value given for each key.\<close>

lemma fold_assign:
  "invar m \<Longrightarrow> invar (fold (\<lambda>(k, v). assign k v) kvs m) \<and>
     lookup (fold (\<lambda>(k, v). assign k v) kvs m) k' =
       (case map_of (rev kvs) k' of Some v \<Rightarrow> Some v | None \<Rightarrow> lookup m k')"
proof (induction kvs arbitrary: m)
  case (Cons kv kvs)
  obtain k v where kv: "kv = (k, v)" by force
  have "invar (assign k v m)" using Cons.prems by (rule invar_assign)
  from Cons.IH [OF this] show ?case
    using Cons.prems by (auto simp: kv lookup_assign map_add_def split: option.splits)
qed simp

text \<open>Inserting a sequence of bindings leaves the first value given for each key.\<close>

lemma fold_emplace:
  "invar m \<Longrightarrow> invar (fold (\<lambda>(k, v). emplace k v) kvs m) \<and>
     lookup (fold (\<lambda>(k, v). emplace k v) kvs m) k' =
       (case lookup m k' of Some v \<Rightarrow> Some v | None \<Rightarrow> map_of kvs k')"
proof (induction kvs arbitrary: m)
  case (Cons kv kvs)
  obtain k v where kv: "kv = (k, v)" by force
  have "invar (emplace k v m)" using Cons.prems by (rule invar_emplace)
  from Cons.IH [OF this] show ?case
    using Cons.prems by (auto simp: kv lookup_emplace split: option.splits)
qed (simp split: option.splits)

end

section \<open>The model: entries by increasing key\<close>

type_synonym 'v smap = "(string \<times> 'v) list"

abbreviation map_find :: "'v smap \<Rightarrow> string \<Rightarrow> 'v option" where
  "map_find \<equiv> map_of"

text \<open>\<open>m[k] = v\<close>, and \<open>m.find(k)->second = v\<close> for a key that is there.\<close>

fun map_assign :: "string \<Rightarrow> 'v \<Rightarrow> 'v smap \<Rightarrow> 'v smap" where
  "map_assign k v [] = [(k, v)]"
| "map_assign k v (e # m) =
     (if k < fst e then (k, v) # e # m
      else if fst e = k then (k, v) # m
      else e # map_assign k v m)"

text \<open>\<open>m.insert({k, v})\<close>: does nothing when the key is there.\<close>

definition map_insert :: "string \<Rightarrow> 'v \<Rightarrow> 'v smap \<Rightarrow> 'v smap" where
  "map_insert k v m = (if map_find m k = None then map_assign k v m else m)"

definition map_ok :: "'v smap \<Rightarrow> bool" where
  "map_ok m \<longleftrightarrow> sorted_wrt (<) (map fst m)"

lemma map_find_assign: "map_find (map_assign k v m) k' = (if k' = k then Some v else map_find m k')"
  by (induction m) auto

lemma keys_map_assign: "fst ` set (map_assign k v m) = insert k (fst ` set m)"
  by (induction m) auto

lemma map_ok_Cons: "map_ok (e # m) \<longleftrightarrow> (\<forall>k \<in> fst ` set m. fst e < k) \<and> map_ok m"
  by (auto simp: map_ok_def)

lemma map_ok_empty [simp]: "map_ok []"
  by (simp add: map_ok_def)

lemma map_ok_assign: "map_ok m \<Longrightarrow> map_ok (map_assign k v m)"
proof (induction m)
  case (Cons e m)
  then show ?case
    by (auto simp: map_ok_Cons keys_map_assign simp del: image_insert intro: less_trans)
qed (simp add: map_ok_def)

lemma map_ok_distinct: "map_ok m \<Longrightarrow> distinct (map fst m)"
  by (simp add: map_ok_def sorted_wrt_less_distinct)

interpretation sm: std_map map_find map_assign map_insert "[]" id map_ok
proof unfold_locales
  fix m :: "'v smap" and k k' v
  assume ok: "map_ok m"
  show "map_find (map_assign k v m) k' = (if k' = k then Some v else map_find m k')"
    by (rule map_find_assign)
  show "map_find (map_insert k v m) k' =
      (if k' = k \<and> map_find m k = None then Some v else map_find m k')"
    by (simp add: map_insert_def map_find_assign)
  show "map_find m k = Some v \<longleftrightarrow> (k, v) \<in> set (id m)"
    using map_ok_distinct [OF ok] by simp
  show "distinct (map fst (id m))" using map_ok_distinct [OF ok] by simp
  show "map_ok (map_assign k v m)" using ok by (rule map_ok_assign)
  show "map_ok (map_insert k v m)" using ok by (simp add: map_insert_def map_ok_assign)
qed simp_all

end
