(* ===== verification/Config_Parser.thy ===== *)
theory Config_Parser
  imports Config_Lexer Std_Map
begin

text \<open>
  The configuration parser, \<open>src/config_parser.cc\<close>, with the data it fills: the parsed
  configuration (\<open>NginxConfig\<close>, \<open>NginxConfigStatement\<close>), the port, and the map from
  locations to handler arguments (\<open>config_arg\<close> of \<open>include/config_arg.h\<close>).
\<close>

section \<open>Data\<close>

record config_arg =
  handler_type :: string
  location :: string
  root :: string
  api_key :: string

definition default_arg :: config_arg where
  "default_arg = \<lparr>handler_type = [], location = [], root = [], api_key = []\<rparr>"

definition valid_handler_types :: "string list" where
  "valid_handler_types =
     [''StaticHandler'', ''EchoHandler'', ''NotFoundHandler'', ''CrudHandler'', ''BlockHandler'',
      ''HealthHandler'', ''TextGenHandler'']"

datatype nginx_statement = Statement (tokens: "string list") (child_block: "nginx_config option")
  and nginx_config = Config (statements: "nginx_statement list")

type_synonym addrmap = "config_arg smap"

section \<open>Port numbers\<close>

definition safeportSTOI :: "string \<Rightarrow> int" where
  "safeportSTOI stringnumber =
     (let result = (case stoi stringnumber of Inl _ \<Rightarrow> -1 | Inr n \<Rightarrow> n)
      in if result < 0 \<or> result > 65535 then -1 else result)"

lemma safeportSTOI_range: "safeportSTOI s = -1 \<or> 0 \<le> safeportSTOI s \<and> safeportSTOI s \<le> 65535"
  by (auto simp: safeportSTOI_def Let_def)

lemma safeportSTOI_to_string: "0 \<le> n \<Longrightarrow> n \<le> 65535 \<Longrightarrow> safeportSTOI (to_string n) = n"
  by (simp add: safeportSTOI_def stoi_to_string int_min_def int_max_def)

section \<open>Printing a configuration\<close>

definition indent :: "nat \<Rightarrow> string" where
  "indent depth = concat (replicate depth ''  '')"

fun join_tokens :: "string list \<Rightarrow> string" where
  "join_tokens [] = []"
| "join_tokens [t] = t"
| "join_tokens (t # u # ts) = t @ '' '' @ join_tokens (u # ts)"

fun statement_to_string :: "nat \<Rightarrow> nginx_statement \<Rightarrow> string"
  and statements_to_string :: "nat \<Rightarrow> nginx_statement list \<Rightarrow> string" where
  "statement_to_string depth (Statement ts child) =
     indent depth @ join_tokens ts @
     (case child of
        Some (Config ss) \<Rightarrow> '' {'' @ [CHR 0x0A] @ statements_to_string (depth + 1) ss @ indent depth @ ''}''
      | None \<Rightarrow> '';'') @ [CHR 0x0A]"
| "statements_to_string depth [] = []"
| "statements_to_string depth (s # ss) = statement_to_string depth s @ statements_to_string depth ss"

definition config_to_string :: "nat \<Rightarrow> nginx_config \<Rightarrow> string" where
  "config_to_string depth c = statements_to_string depth (statements c)"

section \<open>The address map\<close>

text \<open>
  The location and the handler type a block belongs to: the last two tokens of the
  statement that owns the block, when the token before them is \<open>location\<close>.
\<close>

definition location_of :: "string list \<Rightarrow> string \<times> string" where
  "location_of parent_token =
     (if 3 \<le> length parent_token \<and> rev parent_token ! 2 = ''location''
      then (rev parent_token ! 1, rev parent_token ! 0) else ([], []))"

text \<open>\<open>root\<close> and \<open>data_path\<close> set the root of a location, \<open>api-key\<close> its key.\<close>

definition bind_root :: "string \<Rightarrow> string \<Rightarrow> string \<Rightarrow> addrmap \<Rightarrow> addrmap" where
  "bind_root loc config_type token m =
     (case map_find m loc of
        Some a \<Rightarrow> map_assign loc (a\<lparr>handler_type := config_type, location := loc, root := token\<rparr>) m
      | None \<Rightarrow> map_insert loc
          (default_arg\<lparr>handler_type := config_type, location := loc, root := token\<rparr>) m)"

definition bind_api_key :: "string \<Rightarrow> string \<Rightarrow> string \<Rightarrow> addrmap \<Rightarrow> addrmap" where
  "bind_api_key loc config_type token m =
     (case map_find m loc of
        Some a \<Rightarrow> map_assign loc (a\<lparr>handler_type := config_type, location := loc, api_key := token\<rparr>) m
      | None \<Rightarrow> map_insert loc
          (default_arg\<lparr>handler_type := config_type, location := loc, api_key := token\<rparr>) m)"

text \<open>A block with nothing in it, owned by \<open>previous_token\<close>.\<close>

definition bind_empty_block :: "string list \<Rightarrow> addrmap \<Rightarrow> addrmap" where
  "bind_empty_block previous_token m =
     (if 3 \<le> length previous_token \<and> rev previous_token ! 2 = ''location'' then
        (let loc = rev previous_token ! 1;
             args = default_arg\<lparr>handler_type := rev previous_token ! 0, location := loc, root := []\<rparr>
         in (case map_find m loc of
               Some _ \<Rightarrow> map_assign loc args m
             | None \<Rightarrow> map_insert loc args m))
      else m)"

text \<open>
  What the token \<open>token\<close> does to the port and the map when the token before it in its
  statement is \<open>lastoken\<close>; \<open>None\<close> for a port that is not valid.
\<close>

definition apply_directive ::
    "string list \<Rightarrow> string \<Rightarrow> string \<Rightarrow> int \<times> addrmap \<Rightarrow> (int \<times> addrmap) option" where
  "apply_directive parent_token lastoken token e =
     (case e of (port, m) \<Rightarrow>
        if lastoken = ''listen'' then
          (let currport = safeportSTOI token in if currport \<noteq> -1 then Some (currport, m) else None)
        else if lastoken = ''root'' \<or> lastoken = ''data_path'' then
          (case location_of parent_token of (loc, config_type) \<Rightarrow>
             Some (port, if loc \<noteq> [] \<and> config_type \<noteq> [] then bind_root loc config_type token m else m))
        else if lastoken = ''api-key'' then
          (case location_of parent_token of (loc, config_type) \<Rightarrow>
             Some (port, if loc \<noteq> [] \<and> config_type \<noteq> [] then bind_api_key loc config_type token m else m))
        else Some (port, m))"

section \<open>The state of \<open>Parse\<close>\<close>

text \<open>
  \<open>config_stack\<close> is the stack of pointers, top first. Each pointer but the lowest points
  to the child block of the last statement of the configuration below it; the model keeps,
  for each pointer, the configuration it points to, and fills the child in below when the
  pointer is popped. \<open>config_out\<close> is the caller's configuration once its pointer has been
  popped (a closing brace too many).
\<close>

record parse_state =
  config_stack :: "nginx_config list"
  config_out :: nginx_config
  last_token_type :: token_type
  remaining_bracket :: int
  parsed_port :: int
  parsed_map :: addrmap

definition set_last_child :: "nginx_config \<Rightarrow> nginx_config \<Rightarrow> nginx_config" where
  "set_last_child child c =
     Config (butlast (statements c) @ [Statement (tokens (last (statements c))) (Some child)])"

definition add_last_token :: "string \<Rightarrow> nginx_config \<Rightarrow> nginx_config" where
  "add_last_token token c =
     (let s = last (statements c)
      in Config (butlast (statements c) @ [Statement (tokens s @ [token]) (child_block s)]))"

definition new_statement :: "nginx_config \<Rightarrow> nginx_config" where
  "new_statement c = Config (statements c @ [Statement [] None])"

text \<open>The configuration the caller sees: every pointed-to block in its place.\<close>

fun unwind :: "nginx_config list \<Rightarrow> nginx_config \<Rightarrow> nginx_config" where
  "unwind [] out = out"
| "unwind [c] out = c"
| "unwind (c # p # fs) out = unwind (set_last_child c p # fs) out"

definition the_config :: "parse_state \<Rightarrow> nginx_config" where
  "the_config st = unwind (config_stack st) (config_out st)"

text \<open>\<open>config_stack.pop()\<close> on a stack that is not empty.\<close>

definition pop_config :: "parse_state \<Rightarrow> parse_state" where
  "pop_config st =
     (case config_stack st of
        [] \<Rightarrow> st
      | [c] \<Rightarrow> st\<lparr>config_stack := [], config_out := c\<rparr>
      | c # p # fs \<Rightarrow> st\<lparr>config_stack := set_last_child c p # fs\<rparr>)"

section \<open>One token\<close>

text \<open>
  The body of the loop on one token. It goes round again, leaves the loop for
  \<open>return false\<close> (\<open>Break\<close>), returns true (\<open>Accept\<close>), or runs into undefined behaviour
  (\<open>Fault\<close>): \<open>top()\<close> or \<open>pop()\<close> of an empty stack, \<open>back()\<close> of an empty vector.
\<close>

datatype parse_step = Loop parse_state | Break parse_state | Accept parse_state | Fault parse_state

text \<open>
  A normal token. The parent's tokens are those of the last statement of the
  configuration below the top of the stack, none when the top is the only one.
\<close>

definition parent_tokens :: "nginx_config list \<Rightarrow> string list" where
  "parent_tokens below = (case below of [] \<Rightarrow> [] | p # _ \<Rightarrow> tokens (last (statements p)))"

definition on_normal :: "string \<Rightarrow> parse_state \<Rightarrow> parse_step" where
  "on_normal token st =
     (if last_token_type st \<in> {TOKEN_TYPE_START, TOKEN_TYPE_STATEMENT_END, TOKEN_TYPE_START_BLOCK,
                               TOKEN_TYPE_END_BLOCK, TOKEN_TYPE_NORMAL} then
        (case config_stack st of
           [] \<Rightarrow> Fault st
         | cur # below \<Rightarrow>
             (let cur = (if last_token_type st \<noteq> TOKEN_TYPE_NORMAL then new_statement cur else cur);
                  st1 = st\<lparr>config_stack := cur # below\<rparr> in
              if statements cur = [] then Fault st
              else
                (let toks = tokens (last (statements cur));
                     pushed = st1\<lparr>config_stack := add_last_token token cur # below\<rparr> in
                 if toks \<noteq> [] \<and> last_token_type st = TOKEN_TYPE_NORMAL then
                   (case below of
                      p # _ \<Rightarrow> if statements p = [] then Fault st1 else
                        (case apply_directive (parent_tokens below) (last toks) token
                                (parsed_port st, parsed_map st) of
                           None \<Rightarrow> Break st1
                         | Some (port, m) \<Rightarrow> Loop (pushed\<lparr>parsed_port := port, parsed_map := m\<rparr>))
                    | [] \<Rightarrow>
                        (case apply_directive [] (last toks) token (parsed_port st, parsed_map st) of
                           None \<Rightarrow> Break st1
                         | Some (port, m) \<Rightarrow> Loop (pushed\<lparr>parsed_port := port, parsed_map := m\<rparr>)))
                 else Loop pushed)))
      else Break st)"

definition on_start_block :: "parse_state \<Rightarrow> parse_step" where
  "on_start_block st =
     (let st1 = st\<lparr>remaining_bracket := remaining_bracket st + 1\<rparr> in
      case config_stack st of
        [] \<Rightarrow> Fault st1
      | cur # below \<Rightarrow>
          if statements cur = [] then Fault st1
          else Loop (st1\<lparr>config_stack := Config [] # set_last_child (Config []) cur # below\<rparr>))"

definition on_end_block :: "parse_state \<Rightarrow> parse_step" where
  "on_end_block st =
     (let st1 = st\<lparr>remaining_bracket := remaining_bracket st - 1\<rparr> in
      if last_token_type st \<noteq> TOKEN_TYPE_STATEMENT_END \<and>
         last_token_type st \<noteq> TOKEN_TYPE_START_BLOCK \<and>
         last_token_type st \<noteq> TOKEN_TYPE_END_BLOCK then Break st1
      else if config_stack st = [] then Fault st1
      else
        (let st2 = pop_config st1 in
         if last_token_type st = TOKEN_TYPE_START_BLOCK then
           (case config_stack st2 of
              [] \<Rightarrow> Fault st2
            | cur # _ \<Rightarrow>
                if statements cur = [] then Fault st2
                else Loop (st2\<lparr>parsed_map :=
                        bind_empty_block (tokens (last (statements cur))) (parsed_map st2)\<rparr>))
         else Loop st2))"

definition on_eof :: "parse_state \<Rightarrow> parse_step" where
  "on_eof st =
     (if last_token_type st \<noteq> TOKEN_TYPE_STATEMENT_END \<and> last_token_type st \<noteq> TOKEN_TYPE_END_BLOCK
      then Break st
      else if remaining_bracket st \<noteq> 0 then Break st
      else Accept st)"

text \<open>\<open>last_token_type = token_type;\<close> at the end of the body; a comment skips it.\<close>

definition set_last_type :: "token_type \<Rightarrow> parse_step \<Rightarrow> parse_step" where
  "set_last_type t r = (case r of Loop st \<Rightarrow> Loop (st\<lparr>last_token_type := t\<rparr>) | _ \<Rightarrow> r)"

fun parse_token_step :: "token_type \<Rightarrow> string \<Rightarrow> parse_state \<Rightarrow> parse_step" where
  "parse_token_step TOKEN_TYPE_ERROR token st = Break st"
| "parse_token_step TOKEN_TYPE_COMMENT token st = Loop st"
| "parse_token_step TOKEN_TYPE_START token st = Break st"
| "parse_token_step TOKEN_TYPE_NORMAL token st =
     set_last_type TOKEN_TYPE_NORMAL (on_normal token st)"
| "parse_token_step TOKEN_TYPE_STATEMENT_END token st =
     (if last_token_type st \<noteq> TOKEN_TYPE_NORMAL then Break st
      else set_last_type TOKEN_TYPE_STATEMENT_END (Loop st))"
| "parse_token_step TOKEN_TYPE_START_BLOCK token st =
     set_last_type TOKEN_TYPE_START_BLOCK (on_start_block st)"
| "parse_token_step TOKEN_TYPE_END_BLOCK token st =
     set_last_type TOKEN_TYPE_END_BLOCK (on_end_block st)"
| "parse_token_step TOKEN_TYPE_EOF token st = on_eof st"

section \<open>The loop\<close>

lemma parse_token_step_stops:
  "parse_token_step t token st = Loop st' \<Longrightarrow> t \<noteq> TOKEN_TYPE_EOF \<and> t \<noteq> TOKEN_TYPE_ERROR"
  by (cases t) (auto simp: on_eof_def split: if_splits)

function parse_loop :: "istream \<Rightarrow> parse_state \<Rightarrow> bool outcome \<times> parse_state" where
  "parse_loop i st =
     (let (token_type, token, i') = ParseToken i in
      case parse_token_step token_type token st of
        Loop st' \<Rightarrow> parse_loop i' st'
      | Break st' \<Rightarrow> (Inr False, st')
      | Accept st' \<Rightarrow> (Inr True, st')
      | Fault st' \<Rightarrow> (Inl Undefined, st'))"
  by pat_completeness auto
termination
proof (relation "measure (\<lambda>(i, st). length (rest i))", goal_cases)
  case (2 i st x t y token i' st')
  then have "ParseToken i = (t, token, i')" by simp
  moreover have "t \<noteq> TOKEN_TYPE_EOF" "t \<noteq> TOKEN_TYPE_ERROR"
    using parse_token_step_stops [OF 2(4)] by simp_all
  ultimately show ?case by (simp add: ParseToken_shrinks)
qed simp

declare parse_loop.simps [simp del]

lemma parse_loop_step:
  "ParseToken i = (t, v, i') \<Longrightarrow>
     parse_loop i st =
       (case parse_token_step t v st of
          Loop st' \<Rightarrow> parse_loop i' st'
        | Break st' \<Rightarrow> (Inr False, st')
        | Accept st' \<Rightarrow> (Inr True, st')
        | Fault st' \<Rightarrow> (Inl Undefined, st'))"
  by (subst parse_loop.simps) simp

text \<open>
  \<open>Parse\<close> on a stream. The result is what the call returns, the caller's configuration,
  the port and the map.
\<close>

definition parse_init :: "nginx_config \<Rightarrow> addrmap \<Rightarrow> parse_state" where
  "parse_init config m =
     \<lparr>config_stack = [config], config_out = config, last_token_type = TOKEN_TYPE_START,
      remaining_bracket = 0, parsed_port = -1, parsed_map = m\<rparr>"

definition Parse :: "istream \<Rightarrow> nginx_config \<Rightarrow> addrmap \<Rightarrow> bool outcome \<times> nginx_config \<times> int \<times> addrmap" where
  "Parse config_file config m =
     (case parse_loop config_file (parse_init config m) of
        (r, st) \<Rightarrow> (r, the_config st, parsed_port st, parsed_map st))"

text \<open>\<open>Parse\<close> on a file name: \<open>contents\<close> is \<open>None\<close> when the file does not open.\<close>

definition Parse_file ::
    "string option \<Rightarrow> nginx_config \<Rightarrow> int \<Rightarrow> addrmap \<Rightarrow> bool outcome \<times> nginx_config \<times> int \<times> addrmap" where
  "Parse_file contents config port m =
     (case contents of
        None \<Rightarrow> (Inr False, config, port, m)
      | Some s \<Rightarrow> Parse (open_stream s) config m)"

end
