(* ===== verification/Config_Semantics.thy ===== *)
theory Config_Semantics
  imports Config_Parser
begin

text \<open>
  What a configuration means, read off its tree: the port and the address map that
  \<open>Parse\<close> builds while it reads. The main results are the refinement of the token loop by
  this recursion over the tree, and the round trip through the printer.
\<close>

section \<open>The meaning of a tree\<close>

fun sem_tokens :: "string list \<Rightarrow> string \<Rightarrow> string list \<Rightarrow> int \<times> addrmap \<Rightarrow> (int \<times> addrmap) option" where
  "sem_tokens parent prev [] e = Some e"
| "sem_tokens parent prev (t # ts) e =
     (case apply_directive parent prev t e of
        None \<Rightarrow> None
      | Some e' \<Rightarrow> sem_tokens parent t ts e')"

fun sem_statement :: "string list \<Rightarrow> nginx_statement \<Rightarrow> int \<times> addrmap \<Rightarrow> (int \<times> addrmap) option"
  and sem_statements :: "string list \<Rightarrow> nginx_statement list \<Rightarrow> int \<times> addrmap \<Rightarrow> (int \<times> addrmap) option"
where
  "sem_statement parent (Statement ts child) e =
     (case sem_tokens parent (hd ts) (tl ts) e of
        None \<Rightarrow> None
      | Some e1 \<Rightarrow>
          (case child of
             None \<Rightarrow> Some e1
           | Some (Config ss) \<Rightarrow>
               if ss = [] then Some (fst e1, bind_empty_block ts (snd e1))
               else sem_statements ts ss e1))"
| "sem_statements parent [] e = Some e"
| "sem_statements parent (s # ss) e =
     (case sem_statement parent s e of
        None \<Rightarrow> None
      | Some e1 \<Rightarrow> sem_statements parent ss e1)"

definition sem_config :: "nginx_config \<Rightarrow> int \<times> addrmap \<Rightarrow> (int \<times> addrmap) option" where
  "sem_config c e = sem_statements [] (statements c) e"

text \<open>
  Trees all of whose tokens satisfy \<open>P\<close> and that have no statement without a token. The
  parser builds them with \<open>P\<close> "not empty"; with \<open>P\<close> "writable" the printed form reads back.
\<close>

fun wf_statement :: "(string \<Rightarrow> bool) \<Rightarrow> nginx_statement \<Rightarrow> bool"
  and wf_statements :: "(string \<Rightarrow> bool) \<Rightarrow> nginx_statement list \<Rightarrow> bool" where
  "wf_statement P (Statement ts child) \<longleftrightarrow>
     ts \<noteq> [] \<and> list_all P ts \<and>
     (case child of None \<Rightarrow> True | Some (Config ss) \<Rightarrow> wf_statements P ss)"
| "wf_statements P [] \<longleftrightarrow> True"
| "wf_statements P (s # ss) \<longleftrightarrow> wf_statement P s \<and> wf_statements P ss"

lemma wf_statements_iff: "wf_statements P ss \<longleftrightarrow> list_all (wf_statement P) ss"
  by (induction ss) auto

lemma wf_statement_tokens: "wf_statement P s \<Longrightarrow> tokens s \<noteq> [] \<and> list_all P (tokens s)"
  by (cases s) simp

definition wf_config :: "nginx_config \<Rightarrow> bool" where
  "wf_config c \<longleftrightarrow> statements c \<noteq> [] \<and> wf_statements token_ok (statements c)"

section \<open>The tokens of a tree\<close>

type_synonym lexeme = "token_type \<times> string"

fun statement_lexemes :: "nginx_statement \<Rightarrow> lexeme list"
  and statements_lexemes :: "nginx_statement list \<Rightarrow> lexeme list" where
  "statement_lexemes (Statement ts child) =
     map (Pair TOKEN_TYPE_NORMAL) ts @
     (case child of
        None \<Rightarrow> [(TOKEN_TYPE_STATEMENT_END, '';'')]
      | Some (Config ss) \<Rightarrow>
          (TOKEN_TYPE_START_BLOCK, ''{'') # statements_lexemes ss @ [(TOKEN_TYPE_END_BLOCK, ''}'')])"
| "statements_lexemes [] = []"
| "statements_lexemes (s # ss) = statement_lexemes s @ statements_lexemes ss"

fun run_lexemes :: "lexeme list \<Rightarrow> parse_state \<Rightarrow> parse_step" where
  "run_lexemes [] st = Loop st"
| "run_lexemes ((t, v) # ls) st =
     (case parse_token_step t v st of Loop st' \<Rightarrow> run_lexemes ls st' | r \<Rightarrow> r)"

lemma run_lexemes_append:
  "run_lexemes (ls @ ms) st = (case run_lexemes ls st of Loop st' \<Rightarrow> run_lexemes ms st' | r \<Rightarrow> r)"
  by (induction ls st rule: run_lexemes.induct) (auto split: parse_step.splits)

section \<open>Running the tokens of a tree\<close>

text \<open>
  The state between two statements of the block \<open>Config ss\<close> that is being read, with
  \<open>below\<close> the enclosing blocks.
\<close>

definition at_block :: "parse_state \<Rightarrow> nginx_statement list \<Rightarrow> nginx_config list \<Rightarrow> bool" where
  "at_block st ss below \<longleftrightarrow>
     config_stack st = Config ss # below \<and>
     (\<forall>p \<in> set below. statements p \<noteq> []) \<and>
     last_token_type st \<in> {TOKEN_TYPE_START, TOKEN_TYPE_STATEMENT_END, TOKEN_TYPE_START_BLOCK,
                           TOKEN_TYPE_END_BLOCK}"

text \<open>The state after the tokens \<open>ts\<close> of the statement being read.\<close>

definition in_statement ::
    "parse_state \<Rightarrow> nginx_statement list \<Rightarrow> string list \<Rightarrow> nginx_config list \<Rightarrow> bool" where
  "in_statement st ss ts below \<longleftrightarrow>
     config_stack st = Config (ss @ [Statement ts None]) # below \<and>
     (\<forall>p \<in> set below. statements p \<noteq> []) \<and>
     last_token_type st = TOKEN_TYPE_NORMAL \<and> ts \<noteq> []"

definition env_of :: "parse_state \<Rightarrow> int \<times> addrmap" where
  "env_of st = (parsed_port st, parsed_map st)"

text \<open>
  \<open>runs_to ls st e d P\<close>: the lexemes \<open>ls\<close> take the parser from \<open>st\<close> to a state with \<open>P\<close>,
  the port and map \<open>e\<close> and \<open>d\<close> more open brackets; for \<open>e = None\<close> they make it return false.
\<close>

definition runs_to ::
    "lexeme list \<Rightarrow> parse_state \<Rightarrow> (int \<times> addrmap) option \<Rightarrow> int \<Rightarrow> (parse_state \<Rightarrow> bool) \<Rightarrow> bool" where
  "runs_to ls st e d P \<longleftrightarrow>
     (case e of
        None \<Rightarrow> \<exists>st'. run_lexemes ls st = Break st'
      | Some e' \<Rightarrow> \<exists>st'. run_lexemes ls st = Loop st' \<and> P st' \<and> env_of st' = e' \<and>
          remaining_bracket st' = remaining_bracket st + d \<and> config_out st' = config_out st)"

lemma runs_to_None: "runs_to ls st None d P \<Longrightarrow> runs_to (ls @ ms) st None d' Q"
  by (auto simp: runs_to_def run_lexemes_append)

lemma runs_to_append:
  assumes "runs_to ls st (Some e1) d1 P"
    and "\<And>st'. P st' \<Longrightarrow> env_of st' = e1 \<Longrightarrow> runs_to ms st' e2 d2 Q"
    and "d = d1 + d2"
  shows "runs_to (ls @ ms) st e2 d Q"
proof -
  obtain st1 where st1: "run_lexemes ls st = Loop st1" "P st1" "env_of st1 = e1"
      "remaining_bracket st1 = remaining_bracket st + d1" "config_out st1 = config_out st"
    using assms(1) by (auto simp: runs_to_def)
  have "runs_to ms st1 e2 d2 Q" using st1 assms(2) by blast
  then show ?thesis using st1 assms(3)
    by (auto simp: runs_to_def run_lexemes_append split: option.splits)
qed

lemma runs_to_bind:
  assumes "runs_to ls st e1 d1 P"
    and "\<And>st' e. e1 = Some e \<Longrightarrow> P st' \<Longrightarrow> env_of st' = e \<Longrightarrow> runs_to ms st' (f e) d2 Q"
    and "d = d1 + d2"
  shows "runs_to (ls @ ms) st (case e1 of None \<Rightarrow> None | Some e \<Rightarrow> f e) d Q"
  using assms runs_to_None [of ls st d1 P ms d Q] runs_to_append [of ls st _ d1 P ms _ d2 Q d]
  by (cases e1) auto

lemma runs_to_weaken:
  "runs_to ls st e d P \<Longrightarrow> (\<And>st'. P st' \<Longrightarrow> Q st') \<Longrightarrow> runs_to ls st e d Q"
  by (auto simp: runs_to_def split: option.splits)

lemma runs_to_Nil: "P st \<Longrightarrow> runs_to [] st (Some (env_of st)) 0 P"
  by (simp add: runs_to_def)

lemma first_token:
  assumes "at_block st ss below"
  shows "runs_to [(TOKEN_TYPE_NORMAL, t)] st (Some (env_of st)) 0 (\<lambda>st'. in_statement st' ss [t] below)"
  using assms
  by (auto simp: runs_to_def at_block_def in_statement_def on_normal_def new_statement_def
      add_last_token_def set_last_type_def env_of_def Let_def)

lemma next_token:
  assumes "in_statement st ss ts below"
  shows "runs_to [(TOKEN_TYPE_NORMAL, t)] st (apply_directive (parent_tokens below) (last ts) t (env_of st))
           0 (\<lambda>st'. in_statement st' ss (ts @ [t]) below)"
  using assms
  by (auto simp: runs_to_def in_statement_def on_normal_def add_last_token_def set_last_type_def
      env_of_def parent_tokens_def split: option.splits list.splits)

lemma run_tokens:
  assumes "in_statement st ss ts below"
  shows "runs_to (map (Pair TOKEN_TYPE_NORMAL) us) st
           (sem_tokens (parent_tokens below) (last ts) us (env_of st))
           0 (\<lambda>st'. in_statement st' ss (ts @ us) below)"
  using assms
proof (induction us arbitrary: st ts)
  case Nil
  then show ?case by (simp add: runs_to_Nil)
next
  case (Cons u us)
  have "runs_to ([(TOKEN_TYPE_NORMAL, u)] @ map (Pair TOKEN_TYPE_NORMAL) us) st
      (sem_tokens (parent_tokens below) (last ts) (u # us) (env_of st)) 0
      (\<lambda>st'. in_statement st' ss (ts @ u # us) below)"
    unfolding sem_tokens.simps
    by (rule runs_to_bind [OF next_token [OF Cons.prems]]) (use Cons.IH in fastforce)+
  then show ?case by simp
qed

lemma end_statement:
  assumes "in_statement st ss ts below"
  shows "runs_to [(TOKEN_TYPE_STATEMENT_END, v)] st (Some (env_of st)) 0
           (\<lambda>st'. at_block st' (ss @ [Statement ts None]) below \<and>
                  last_token_type st' = TOKEN_TYPE_STATEMENT_END)"
  using assms by (auto simp: runs_to_def in_statement_def at_block_def set_last_type_def env_of_def)

lemma open_block:
  assumes "in_statement st ss ts below"
  shows "runs_to [(TOKEN_TYPE_START_BLOCK, v)] st (Some (env_of st)) 1
           (\<lambda>st'. at_block st' [] (Config (ss @ [Statement ts (Some (Config []))]) # below) \<and>
                  last_token_type st' = TOKEN_TYPE_START_BLOCK)"
  using assms
  by (auto simp: runs_to_def in_statement_def at_block_def set_last_type_def env_of_def
      on_start_block_def set_last_child_def)

text \<open>Closing a block: an empty one (nothing since the brace) binds its location.\<close>

lemma close_block:
  assumes "at_block st cs (Config (ss @ [Statement ts c]) # below)"
    and "last_token_type st = TOKEN_TYPE_START_BLOCK \<longleftrightarrow> cs = []"
    and "last_token_type st \<noteq> TOKEN_TYPE_START"
  shows "runs_to [(TOKEN_TYPE_END_BLOCK, v)] st
           (Some (fst (env_of st), if cs = [] then bind_empty_block ts (snd (env_of st)) else snd (env_of st)))
           (-1)
           (\<lambda>st'. at_block st' (ss @ [Statement ts (Some (Config cs))]) below \<and>
                  last_token_type st' = TOKEN_TYPE_END_BLOCK)"
  using assms
  by (auto simp: runs_to_def at_block_def set_last_type_def env_of_def
      on_end_block_def set_last_child_def pop_config_def Let_def)

section \<open>The token loop computes the meaning\<close>

definition block_done ::
    "nginx_statement list \<Rightarrow> nginx_statement list \<Rightarrow> nginx_config list \<Rightarrow> token_type \<Rightarrow> parse_state \<Rightarrow> bool" where
  "block_done ss cs below last_type st' \<longleftrightarrow>
     at_block st' (ss @ cs) below \<and>
     (if cs = [] then last_token_type st' = last_type
      else last_token_type st' \<in> {TOKEN_TYPE_STATEMENT_END, TOKEN_TYPE_END_BLOCK})"

lemma run_names:
  assumes "at_block st ss below" and "ts \<noteq> []"
  shows "runs_to (map (Pair TOKEN_TYPE_NORMAL) ts) st
           (sem_tokens (parent_tokens below) (hd ts) (tl ts) (env_of st)) 0
           (\<lambda>st'. in_statement st' ss ts below)"
proof -
  obtain t us where ts: "ts = t # us" using assms(2) by (cases ts) auto
  have "runs_to ([(TOKEN_TYPE_NORMAL, t)] @ map (Pair TOKEN_TYPE_NORMAL) us) st
      (sem_tokens (parent_tokens below) t us (env_of st)) 0 (\<lambda>st'. in_statement st' ss (t # us) below)"
    by (rule runs_to_append [OF first_token [OF assms(1)]]) (use run_tokens in fastforce)+
  then show ?thesis by (simp add: ts)
qed

text \<open>A block, however its brace was reached: its statements, then the closing brace.\<close>

lemma run_body:
  assumes opened: "runs_to [(TOKEN_TYPE_START_BLOCK, v)] st (Some (env_of st)) 1
        (\<lambda>st'. at_block st' [] (Config (ss @ [Statement ts (Some (Config []))]) # below) \<and>
               last_token_type st' = TOKEN_TYPE_START_BLOCK)"
    and inner: "\<And>st'. at_block st' [] (Config (ss @ [Statement ts (Some (Config []))]) # below) \<Longrightarrow>
        runs_to (statements_lexemes cs) st' (sem_statements ts cs (env_of st')) 0
          (block_done [] cs (Config (ss @ [Statement ts (Some (Config []))]) # below) (last_token_type st'))"
  shows "runs_to ([(TOKEN_TYPE_START_BLOCK, v)] @ statements_lexemes cs @ [(TOKEN_TYPE_END_BLOCK, w)]) st
           (if cs = [] then Some (fst (env_of st), bind_empty_block ts (snd (env_of st)))
            else sem_statements ts cs (env_of st)) 0
           (\<lambda>st'. at_block st' (ss @ [Statement ts (Some (Config cs))]) below \<and>
                  last_token_type st' = TOKEN_TYPE_END_BLOCK)"
proof -
  let ?frame = "Config (ss @ [Statement ts (Some (Config []))])"
  have body: "runs_to ([(TOKEN_TYPE_START_BLOCK, v)] @ statements_lexemes cs) st
      (sem_statements ts cs (env_of st)) 1 (block_done [] cs (?frame # below) TOKEN_TYPE_START_BLOCK)"
    by (rule runs_to_append [OF opened]) (use inner in fastforce)+
  show ?thesis
  proof (cases "sem_statements ts cs (env_of st)")
    case None
    then have "cs \<noteq> []" by auto
    with None runs_to_None [OF body [unfolded None]] show ?thesis by simp
  next
    case (Some e)
    then have e: "cs = [] \<Longrightarrow> e = env_of st" by auto
    have "runs_to (([(TOKEN_TYPE_START_BLOCK, v)] @ statements_lexemes cs) @ [(TOKEN_TYPE_END_BLOCK, w)]) st
        (Some (fst e, if cs = [] then bind_empty_block ts (snd e) else snd e)) 0
        (\<lambda>st'. at_block st' (ss @ [Statement ts (Some (Config cs))]) below \<and>
               last_token_type st' = TOKEN_TYPE_END_BLOCK)"
    proof (rule runs_to_append [OF body [unfolded Some]])
      fix st' assume st': "block_done [] cs (?frame # below) TOKEN_TYPE_START_BLOCK st'" "env_of st' = e"
      then show "runs_to [(TOKEN_TYPE_END_BLOCK, w)] st'
          (Some (fst e, if cs = [] then bind_empty_block ts (snd e) else snd e)) (-1)
          (\<lambda>st'. at_block st' (ss @ [Statement ts (Some (Config cs))]) below \<and>
               last_token_type st' = TOKEN_TYPE_END_BLOCK)"
        using close_block [of st' cs ss ts "Some (Config [])" below w]
        by (auto simp: block_done_def split: if_splits)
    qed simp
    then show ?thesis using e Some by (cases "cs = []") auto
  qed
qed

lemmas run_block = run_body [OF open_block]

lemma run_statement:
  assumes st: "at_block st ss below" and ts: "ts \<noteq> []"
    and inner: "\<And>cs st'. child = Some (Config cs) \<Longrightarrow>
      at_block st' [] (Config (ss @ [Statement ts (Some (Config []))]) # below) \<Longrightarrow>
      runs_to (statements_lexemes cs) st' (sem_statements ts cs (env_of st')) 0
        (block_done [] cs (Config (ss @ [Statement ts (Some (Config []))]) # below) (last_token_type st'))"
  shows "runs_to (statement_lexemes (Statement ts child)) st
           (sem_statement (parent_tokens below) (Statement ts child) (env_of st)) 0
           (block_done ss [Statement ts child] below t)"
  unfolding statement_lexemes.simps sem_statement.simps
proof (rule runs_to_bind [OF run_names [OF st ts]])
  fix st1 e1
  assume st1: "in_statement st1 ss ts below" and e1: "env_of st1 = e1"
  show "runs_to (case child of None \<Rightarrow> [(TOKEN_TYPE_STATEMENT_END, '';'')]
      | Some (Config ss) \<Rightarrow>
          (TOKEN_TYPE_START_BLOCK, ''{'') # statements_lexemes ss @ [(TOKEN_TYPE_END_BLOCK, ''}'')]) st1
      (case child of None \<Rightarrow> Some e1
       | Some (Config ss) \<Rightarrow>
          if ss = [] then Some (fst e1, bind_empty_block ts (snd e1)) else sem_statements ts ss e1) 0
      (block_done ss [Statement ts child] below t)"
  proof (cases child)
    case None
    then show ?thesis using runs_to_weaken [OF end_statement [OF st1]] e1 by (simp add: block_done_def)
  next
    case (Some c)
    obtain cs where c: "c = Config cs" by (cases c)
    have "runs_to ([(TOKEN_TYPE_START_BLOCK, ''{'')] @ statements_lexemes cs @ [(TOKEN_TYPE_END_BLOCK, ''}'')]) st1
        (if cs = [] then Some (fst (env_of st1), bind_empty_block ts (snd (env_of st1)))
         else sem_statements ts cs (env_of st1)) 0 (block_done ss [Statement ts child] below t)"
      by (rule runs_to_weaken [OF run_block [OF st1 inner]]) (simp_all add: block_done_def Some c)
    then show ?thesis using Some c e1 by (cases "cs = []") simp_all
  qed
qed simp

lemma run_tree:
  shows "at_block st ss below \<Longrightarrow> wf_statement P s \<Longrightarrow>
           runs_to (statement_lexemes s) st (sem_statement (parent_tokens below) s (env_of st)) 0
             (block_done ss [s] below t)"
    and "at_block st ss below \<Longrightarrow> wf_statements P cs \<Longrightarrow>
           runs_to (statements_lexemes cs) st (sem_statements (parent_tokens below) cs (env_of st)) 0
             (block_done ss cs below (last_token_type st))"
proof (induction s and cs arbitrary: st ss below t and st ss below
    rule: statement_lexemes_statements_lexemes.induct)
  case (1 ts child)
  show ?case
  proof (rule run_statement [OF "1.prems"(1)])
    fix cs st' assume cs: "child = Some (Config cs)"
      and st': "at_block st' [] (Config (ss @ [Statement ts (Some (Config []))]) # below)"
    then show "runs_to (statements_lexemes cs) st' (sem_statements ts cs (env_of st')) 0
        (block_done [] cs (Config (ss @ [Statement ts (Some (Config []))]) # below) (last_token_type st'))"
      using "1.IH" [OF cs refl st'] "1.prems"(2) by (simp add: parent_tokens_def)
  qed (use "1.prems"(2) in simp)
next
  case 2
  then show ?case by (simp add: runs_to_Nil block_done_def)
next
  case (3 s cs)
  have one: "runs_to (statement_lexemes s) st (sem_statement (parent_tokens below) s (env_of st)) 0
      (block_done ss [s] below TOKEN_TYPE_END_BLOCK)" using 3(1) [OF "3.prems"(1)] "3.prems"(2) by simp
  show ?case unfolding statements_lexemes.simps sem_statements.simps
  proof (rule runs_to_bind [OF one])
    fix st' e assume st': "block_done ss [s] below TOKEN_TYPE_END_BLOCK st'" "env_of st' = e"
    then have at: "at_block st' (ss @ [s]) below" by (simp add: block_done_def)
    have "runs_to (statements_lexemes cs) st' (sem_statements (parent_tokens below) cs e) 0
        (block_done (ss @ [s]) cs below (last_token_type st'))"
      using 3(2) [OF at] "3.prems"(2) st'(2) by simp
    then show "runs_to (statements_lexemes cs) st' (sem_statements (parent_tokens below) cs e) 0
        (block_done ss (s # cs) below (last_token_type st))"
      using st' by (auto simp: block_done_def elim!: runs_to_weaken split: if_splits)
  qed simp
qed

section \<open>Reading the printed form\<close>

text \<open>\<open>reads s ls r\<close>: the tokenizer reads the lexemes \<open>ls\<close> from \<open>s\<close> and \<open>r\<close> is left.\<close>

inductive reads :: "string \<Rightarrow> lexeme list \<Rightarrow> string \<Rightarrow> bool" where
  reads_Nil: "reads s [] s"
| reads_Cons: "ref_token s = (t, v, s') \<Longrightarrow> t \<noteq> TOKEN_TYPE_EOF \<Longrightarrow> t \<noteq> TOKEN_TYPE_ERROR \<Longrightarrow>
    reads s' ls r \<Longrightarrow> reads s ((t, v) # ls) r"

inductive_cases reads_ConsE: "reads s ((t, v) # ls) r"
inductive_simps reads_Nil_iff [simp]: "reads s [] r"

lemma reads_append: "reads s ls r \<Longrightarrow> reads r ms q \<Longrightarrow> reads s (ls @ ms) q"
  by (induction rule: reads.induct) (auto intro: reads.intros)

lemma reads_blank: "list_all blank w \<Longrightarrow> reads s (l # ls) r \<Longrightarrow> reads (w @ s) (l # ls) r"
  by (cases l) (auto elim!: reads_ConsE intro!: reads_Cons simp: ref_token_blank)

lemma reads_token:
  "token_ok t \<Longrightarrow> ends_token d \<Longrightarrow> reads (d # r) ls q \<Longrightarrow>
     reads (t @ d # r) ((TOKEN_TYPE_NORMAL, t) # ls) q"
  by (rule reads_Cons [OF ref_token_ok]) simp_all

lemma reads_symbol:
  assumes "(c, t) \<in> {(CHR '';'', TOKEN_TYPE_STATEMENT_END), (CHR ''{'', TOKEN_TYPE_START_BLOCK),
                     (CHR ''}'', TOKEN_TYPE_END_BLOCK)}"
    and "reads r ls q"
  shows "reads (c # r) ((t, [c]) # ls) q"
  by (rule reads_Cons [where s' = r]) (use assms in \<open>auto simp: ref_token_def blank_def\<close>)

text \<open>The loop on the characters is the loop on the lexemes they are read as.\<close>

lemma parse_loop_reads:
  assumes "reads s ls r"
  shows "\<exists>p'. parse_loop (stream p s) st =
    (case run_lexemes ls st of
       Loop st' \<Rightarrow> parse_loop (stream p' r) st'
     | Break st' \<Rightarrow> (Inr False, st')
     | Accept st' \<Rightarrow> (Inr True, st')
     | Fault st' \<Rightarrow> (Inl Undefined, st'))"
  using assms
proof (induction arbitrary: p st rule: reads.induct)
  case (reads_Nil s)
  show ?case by (rule exI [of _ p]) simp
next
  case (reads_Cons s t v s' ls r)
  have "agrees (ParseToken (stream p s)) (t, v, s')"
    using ParseToken_agrees [of s p] reads_Cons.hyps(1) by simp
  then obtain i' where tok: "ParseToken (stream p s) = (t, v, i')" and i': "rest i' = s'" "good i'"
    using reads_Cons.hyps(2,3) by (cases "ParseToken (stream p s)") auto
  obtain p1 where p1: "i' = stream p1 s'" using i' by (cases i') auto
  show ?case
  proof (cases "parse_token_step t v st")
    case (Loop st1)
    obtain p' where p': "parse_loop (stream p1 s') st1 =
        (case run_lexemes ls st1 of
           Loop st' \<Rightarrow> parse_loop (stream p' r) st' | Break st' \<Rightarrow> (Inr False, st')
         | Accept st' \<Rightarrow> (Inr True, st') | Fault st' \<Rightarrow> (Inl Undefined, st'))"
      using reads_Cons.IH by blast
    show ?thesis
      by (rule exI [of _ p']) (simp add: parse_loop_step [OF tok] Loop p1 p')
  qed (simp_all add: parse_loop_step [OF tok])
qed

lemma blank_indent [simp]: "list_all blank (indent d)"
  by (induction d) (simp_all add: indent_def blank_def)

lemma reads_tokens:
  assumes "ts \<noteq> []" and "list_all token_ok ts" and "ends_token d" and "reads (d # r) ls q"
  shows "reads (join_tokens ts @ d # r) (map (Pair TOKEN_TYPE_NORMAL) ts @ ls) q"
  using assms
proof (induction ts rule: join_tokens.induct)
  case (2 t)
  then show ?case by (simp add: reads_token)
next
  case (3 t u ts)
  let ?more = "join_tokens (u # ts) @ d # r"
  have "reads ?more ((TOKEN_TYPE_NORMAL, u) # map (Pair TOKEN_TYPE_NORMAL) ts @ ls) q"
    using 3 by simp
  then have "reads ('' '' @ ?more) ((TOKEN_TYPE_NORMAL, u) # map (Pair TOKEN_TYPE_NORMAL) ts @ ls) q"
    by (rule reads_blank [rotated]) (simp add: blank_def)
  then show ?case using reads_token [of t "CHR '' ''" ?more] 3(3) by (simp add: ends_token_def)
qed simp

lemma reads_statement_start:
  assumes "ts \<noteq> []" and "list_all token_ok ts" and "list_all blank w" and "ends_token c"
    and "reads (c # r) ls q"
  shows "reads (w @ indent d @ join_tokens ts @ c # r) (map (Pair TOKEN_TYPE_NORMAL) ts @ ls) q"
proof -
  obtain t us where ts: "ts = t # us" using assms(1) by (cases ts) auto
  have "reads ((w @ indent d) @ join_tokens ts @ c # r) (map (Pair TOKEN_TYPE_NORMAL) ts @ ls) q"
    using reads_tokens [OF assms(1,2,4,5)] assms(3) by (simp add: ts reads_blank del: append_assoc)
  then show ?thesis by simp
qed

lemma reads_block:
  assumes "reads ([CHR 0x0A] @ body @ indent d @ ''}'' @ [CHR 0x0A] @ r) ls
             (w1 @ indent d @ ''}'' @ [CHR 0x0A] @ r)" and "list_all blank w1"
  shows "reads ('' {'' @ [CHR 0x0A] @ body @ indent d @ ''}'' @ [CHR 0x0A] @ r)
           ((TOKEN_TYPE_START_BLOCK, ''{'') # ls @ [(TOKEN_TYPE_END_BLOCK, ''}'')]) (CHR 0x0A # r)"
proof -
  let ?semi = "CHR ''}'' # CHR 0x0A # r"
  have "reads ?semi [(TOKEN_TYPE_END_BLOCK, ''}'')] (CHR 0x0A # r)" by (rule reads_symbol) simp_all
  then have "reads ((w1 @ indent d) @ ?semi) [(TOKEN_TYPE_END_BLOCK, ''}'')] (CHR 0x0A # r)"
    by (rule reads_blank [rotated]) (simp add: assms(2))
  then have "reads ([CHR 0x0A] @ body @ indent d @ ?semi) (ls @ [(TOKEN_TYPE_END_BLOCK, ''}'')]) (CHR 0x0A # r)"
    using reads_append [OF assms(1)] by simp
  then have "reads (CHR ''{'' # CHR 0x0A # body @ indent d @ ?semi)
      ((TOKEN_TYPE_START_BLOCK, ''{'') # ls @ [(TOKEN_TYPE_END_BLOCK, ''}'')]) (CHR 0x0A # r)"
    by (intro reads_symbol) simp_all
  then show ?thesis using reads_blank [of "'' ''"] by (fastforce simp: blank_def)
qed

text \<open>Printing a tree and reading it gives the lexemes of the tree, whatever comes before
  (white space) and after.\<close>

lemma reads_tree:
  shows "wf_statement token_ok s \<Longrightarrow> list_all blank w \<Longrightarrow>
           \<exists>w'. list_all blank w' \<and> reads (w @ statement_to_string d s @ r) (statement_lexemes s) (w' @ r)"
    and "wf_statements token_ok ss \<Longrightarrow> list_all blank w \<Longrightarrow>
           \<exists>w'. list_all blank w' \<and> reads (w @ statements_to_string d ss @ r) (statements_lexemes ss) (w' @ r)"
proof (induction d s and d ss arbitrary: w r and w r
    rule: statement_to_string_statements_to_string.induct)
  case (1 d ts child)
  note start = reads_statement_start [of ts w _ _ _ _ d]
  show ?case
  proof (cases child)
    case None
    have "reads (CHR '';'' # CHR 0x0A # r) [(TOKEN_TYPE_STATEMENT_END, '';'')] (CHR 0x0A # r)"
      by (rule reads_symbol) simp_all
    then have "reads (w @ statement_to_string d (Statement ts child) @ r)
        (statement_lexemes (Statement ts child)) ([CHR 0x0A] @ r)"
      using 1(2,3) None start by (simp add: ends_token_def)
    then show ?thesis by (intro exI [of _ "[CHR 0x0A]"]) (simp add: blank_def)
  next
    case (Some c)
    obtain ss where c: "c = Config ss" by (cases c)
    let ?semi = "indent d @ ''}'' @ [CHR 0x0A] @ r"
    have nl: "list_all blank [CHR 0x0A]" by (simp add: blank_def)
    obtain w1 where w1: "list_all blank w1"
        "reads ([CHR 0x0A] @ statements_to_string (d + 1) ss @ ?semi) (statements_lexemes ss) (w1 @ ?semi)"
      using 1(1) [OF Some c, of "[CHR 0x0A]" ?semi] 1(2) Some c nl by fastforce
    from reads_block [OF w1(2,1)]
    have "reads (w @ statement_to_string d (Statement ts child) @ r)
        (statement_lexemes (Statement ts child)) ([CHR 0x0A] @ r)"
      using 1(2,3) Some c start by (simp add: ends_token_def)
    then show ?thesis by (intro exI [of _ "[CHR 0x0A]"]) (simp add: blank_def)
  qed
next
  case (2 d)
  then show ?case by (auto intro: reads_Nil)
next
  case (3 d s ss)
  obtain w1 where w1: "list_all blank w1"
      "reads (w @ statement_to_string d s @ statements_to_string d ss @ r) (statement_lexemes s)
         (w1 @ statements_to_string d ss @ r)"
    using 3 by fastforce
  obtain w2 where "list_all blank w2"
      "reads (w1 @ statements_to_string d ss @ r) (statements_lexemes ss) (w2 @ r)"
    using 3 w1(1) by fastforce
  with w1(2) reads_append show ?case by fastforce
qed

section \<open>Parsing a printed configuration\<close>

lemma at_block_init: "at_block (parse_init (Config []) m) [] []"
  by (simp add: at_block_def parse_init_def)

lemma ref_token_blank_only: "list_all blank w \<Longrightarrow> ref_token w = (TOKEN_TYPE_EOF, [], [])"
  using ref_token_blank [of w "[]"] by (simp add: ref_token_def)

lemma parse_loop_blank_end:
  assumes "list_all blank w" and "last_token_type st \<in> {TOKEN_TYPE_STATEMENT_END, TOKEN_TYPE_END_BLOCK}"
  shows "parse_loop (stream p w) st =
    ((if remaining_bracket st = 0 then Inr True else Inr False), st)"
proof -
  have "agrees (ParseToken (stream p w)) (TOKEN_TYPE_EOF, [], [])"
    using ParseToken_agrees [of w p] ref_token_blank_only [OF assms(1)] by simp
  then obtain i' where "ParseToken (stream p w) = (TOKEN_TYPE_EOF, [], i')"
    by (cases "ParseToken (stream p w)") auto
  then show ?thesis using assms(2) by (auto simp: parse_loop_step on_eof_def)
qed

text \<open>
  The parser on a printed configuration followed by anything: the configuration makes it
  return false because of a port, or it has read the tree and is about to read the rest.
\<close>

lemma parse_loop_printed:
  assumes "wf_config c"
  shows "case sem_config c (-1, m) of
      None \<Rightarrow> fst (parse_loop (open_stream (config_to_string d c @ s)) (parse_init (Config []) m)) = Inr False
    | Some e \<Rightarrow> \<exists>p w st. list_all blank w \<and>
        parse_loop (open_stream (config_to_string d c @ s)) (parse_init (Config []) m) =
          parse_loop (stream p (w @ s)) st \<and>
        config_stack st = [c] \<and> env_of st = e \<and> remaining_bracket st = 0 \<and>
        last_token_type st \<in> {TOKEN_TYPE_STATEMENT_END, TOKEN_TYPE_END_BLOCK}"
proof -
  let ?init = "parse_init (Config []) m"
  obtain ss where c: "c = Config ss" by (cases c)
  then have ss: "ss \<noteq> []" "wf_statements token_ok ss" using assms by (simp_all add: wf_config_def)
  obtain w where w: "list_all blank w" "reads (config_to_string d c @ s) (statements_lexemes ss) (w @ s)"
    using reads_tree(2) [OF ss(2), of "[]" d s] by (auto simp: c config_to_string_def)
  obtain p where loop: "parse_loop (open_stream (config_to_string d c @ s)) ?init =
      (case run_lexemes (statements_lexemes ss) ?init of
         Loop st' \<Rightarrow> parse_loop (stream p (w @ s)) st' | Break st' \<Rightarrow> (Inr False, st')
       | Accept st' \<Rightarrow> (Inr True, st') | Fault st' \<Rightarrow> (Inl Undefined, st'))"
    using parse_loop_reads [OF w(2)] unfolding open_stream_def by blast
  have env: "env_of ?init = (-1, m)" by (simp add: env_of_def parse_init_def)
  have run: "runs_to (statements_lexemes ss) ?init (sem_config c (-1, m)) 0
      (block_done [] ss [] (last_token_type ?init))"
    using run_tree(2) [OF at_block_init [of m] ss(2)] by (simp add: sem_config_def c env parent_tokens_def)
  show ?thesis
  proof (cases "sem_config c (-1, m)")
    case None
    then show ?thesis using run loop by (auto simp: runs_to_def)
  next
    case (Some e)
    then obtain st where "run_lexemes (statements_lexemes ss) ?init = Loop st"
        "block_done [] ss [] (last_token_type ?init) st" "env_of st = e" "remaining_bracket st = 0"
      using run by (auto simp: runs_to_def parse_init_def)
    then show ?thesis using loop w(1) Some ss(1)
      by (fastforce simp: block_done_def at_block_def c)
  qed
qed

lemma Parse_config_to_string:
  assumes "wf_config c"
  shows "case sem_config c (-1, m) of
      None \<Rightarrow> fst (Parse (open_stream (config_to_string d c)) (Config []) m) = Inr False
    | Some e \<Rightarrow> Parse (open_stream (config_to_string d c)) (Config []) m = (Inr True, c, e)"
proof (cases "sem_config c (-1, m)")
  case None
  then show ?thesis using parse_loop_printed [OF assms, where m = m and d = d and s = "[]"]
    by (auto simp: Parse_def split: prod.splits)
next
  case (Some e)
  then obtain p w st where st: "list_all blank w"
      "parse_loop (open_stream (config_to_string d c)) (parse_init (Config []) m) = parse_loop (stream p w) st"
      "config_stack st = [c]" "env_of st = e" "remaining_bracket st = 0"
      "last_token_type st \<in> {TOKEN_TYPE_STATEMENT_END, TOKEN_TYPE_END_BLOCK}"
    using parse_loop_printed [OF assms, where m = m and d = d and s = "[]"] by auto
  then have "parse_loop (open_stream (config_to_string d c)) (parse_init (Config []) m) = (Inr True, st)"
    using parse_loop_blank_end by simp
  then show ?thesis using Some st(3,4) by (auto simp: Parse_def the_config_def env_of_def)
qed

section \<open>The configuration of a server\<close>

text \<open>
  The form the documentation gives a configuration: the port, and a location block per
  route with the type of its handler and its root.
\<close>

fun route_statement :: "string \<times> string \<times> string \<Rightarrow> nginx_statement" where
  "route_statement (loc, t, rt) =
     Statement [''location'', loc, t] (Some (Config [Statement [''root'', rt] None]))"

definition server_config :: "int \<Rightarrow> (string \<times> string \<times> string) list \<Rightarrow> nginx_config" where
  "server_config port routes =
     Config (Statement [''listen'', to_string port] None # map route_statement routes)"

definition is_directive :: "string \<Rightarrow> bool" where
  "is_directive t \<longleftrightarrow> t \<in> {''listen'', ''root'', ''data_path'', ''api-key''}"

definition route_ok :: "string \<times> string \<times> string \<Rightarrow> bool" where
  "route_ok rr \<longleftrightarrow>
     (case rr of (loc, t, rt) \<Rightarrow> token_ok loc \<and> token_ok t \<and> token_ok rt \<and> \<not> is_directive loc)"

fun bind_route :: "string \<times> string \<times> string \<Rightarrow> addrmap \<Rightarrow> addrmap" where
  "bind_route (loc, t, rt) m = bind_root loc t rt m"

lemma sem_route:
  assumes "route_ok (loc, t, rt)"
  shows "sem_statement [] (route_statement (loc, t, rt)) (port, m) = Some (port, bind_root loc t rt m)"
proof -
  have "loc \<noteq> []" "t \<noteq> []" using assms token_ok_not_Nil by (auto simp: route_ok_def)
  moreover have "apply_directive [] ''location'' loc (port, m) = Some (port, m)"
    by (simp add: apply_directive_def)
  moreover have "apply_directive [] loc t (port, m) = Some (port, m)"
    using assms by (simp add: apply_directive_def route_ok_def is_directive_def)
  ultimately show ?thesis by (simp add: apply_directive_def location_of_def eval_nat_numeral)
qed

lemma sem_routes:
  "list_all route_ok routes \<Longrightarrow>
     sem_statements [] (map route_statement routes) (port, m) = Some (port, fold bind_route routes m)"
proof (induction routes arbitrary: m)
  case (Cons rr routes)
  then show ?case
    by (cases rr) (simp add: sem_route del: route_statement.simps sem_statement.simps)
qed simp

lemma sem_server_config:
  assumes "0 \<le> port" and "port \<le> 65535" and "list_all route_ok routes"
  shows "sem_config (server_config port routes) (-1, m) = Some (port, fold bind_route routes m)"
  using assms by (simp add: sem_config_def server_config_def apply_directive_def
      safeportSTOI_to_string Let_def sem_routes)

lemma bare_token_to_string: "0 \<le> n \<Longrightarrow> bare_token (to_string n)"
proof -
  assume "0 \<le> n"
  then have "list_all is_digit (to_string n)" by (simp add: to_string_def nat_str_digits)
  moreover have "\<not> ends_token c \<and> c \<notin> {CHR ''#'', CHR 0x22, CHR 0x27, CHR 0x0D}" if "is_digit c" for c
    using that by (auto simp: is_digit_def ends_token_def)
  ultimately show ?thesis by (auto simp: bare_token_def list_all_iff)
qed

lemma wf_server_config:
  assumes "0 \<le> port" and "list_all route_ok routes"
  shows "wf_config (server_config port routes)"
proof -
  have words: "token_ok ''location''" "token_ok ''root''" "token_ok ''listen''"
    by (simp_all add: token_ok_def bare_token_def ends_token_def)
  have "wf_statement token_ok (route_statement rr)" if "route_ok rr" for rr
    using that words by (cases rr) (simp add: route_ok_def)
  then have "list_all (wf_statement token_ok) (map route_statement routes)"
    using assms(2) by (induction routes) auto
  moreover have "token_ok (to_string port)"
    using bare_token_to_string [OF assms(1)] by (simp add: token_ok_def)
  ultimately show ?thesis using words by (simp add: wf_config_def server_config_def wf_statements_iff)
qed

text \<open>With one block per location, the map binds each location to its own arguments.\<close>

lemma find_bind_root_other: "l \<noteq> loc \<Longrightarrow> map_find (bind_root loc t rt m) l = map_find m l"
  by (simp add: bind_root_def map_insert_def map_find_assign split: option.split)

lemma find_bind_route_notin:
  "loc \<notin> fst ` set routes \<Longrightarrow> map_find (fold bind_route routes m) loc = map_find m loc"
proof (induction routes arbitrary: m)
  case (Cons rr routes)
  then show ?case by (cases rr) (simp add: find_bind_root_other)
qed simp

lemma find_bind_route:
  assumes "distinct (map fst routes)" and "(loc, t, rt) \<in> set routes" and "map_find m loc = None"
  shows "map_find (fold bind_route routes m) loc =
    Some \<lparr>handler_type = t, location = loc, root = rt, api_key = []\<rparr>"
  using assms
proof (induction routes arbitrary: m)
  case (Cons rr routes)
  show ?case
  proof (cases "rr = (loc, t, rt)")
    case True
    then have "loc \<notin> fst ` set routes" using Cons.prems(1) by simp
    then show ?thesis using True Cons.prems(3)
      by (simp add: find_bind_route_notin)
         (simp add: bind_root_def map_insert_def map_find_assign default_arg_def)
  next
    case False
    then have r: "(loc, t, rt) \<in> set routes" using Cons.prems(2) by simp
    then have "loc \<in> fst ` set routes" by (metis fst_conv image_eqI)
    then have "fst rr \<noteq> loc" using Cons.prems(1) by auto
    then show ?thesis using Cons.IH [of "bind_route rr m"] Cons.prems(1,3) r
      by (cases rr) (simp add: find_bind_root_other)
  qed
qed simp

section \<open>Properties\<close>

text \<open>C6: printing and parsing. A tree that is not empty and all of whose words can be written (see
  \<open>token_ok\<close>) is printed by \<open>ToString\<close>, at any depth, to a text that \<open>Parse\<close> reads back: it
  returns true, the same tree and the port and address map its meaning gives; a tree with no
  meaning (a port that is not valid) makes \<open>Parse\<close> return false. (Not every tree that \<open>Parse\<close>
  makes has such words, see \<open>inner_quote_not_read_back\<close> in \<open>Config_Grammar\<close>.)\<close>

theorem print_parse_roundtrip:
  assumes "wf_config c"
  shows "case sem_config c (-1, m) of
      None \<Rightarrow> fst (Parse (open_stream (config_to_string d c)) (Config []) m) = Inr False
    | Some e \<Rightarrow> Parse (open_stream (config_to_string d c)) (Config []) m = (Inr True, c, e)"
  using assms by (rule Parse_config_to_string)

lemma print_parse_roundtrip_witness:
  "Parse (open_stream (config_to_string 0 (Config [Statement [''a'', ''b''] (Some (Config [Statement [''c''] None]))])))
     (Config []) [] =
   (Inr True, Config [Statement [''a'', ''b''] (Some (Config [Statement [''c''] None]))], -1, [])"
proof -
  let ?c = "Config [Statement [''a'', ''b''] (Some (Config [Statement [''c''] None]))]"
  have "wf_config ?c" by (simp add: wf_config_def token_ok_def bare_token_def ends_token_def)
  moreover have "sem_config ?c (-1, []) = Some (-1, [])"
    by (simp add: sem_config_def apply_directive_def)
  ultimately show ?thesis using print_parse_roundtrip [of ?c, where m = "[]" and d = 0] by simp
qed

text \<open>The documented configuration. The text of a port from 0 to 65535 and a location
  block for each of a list of routes with distinct locations is accepted, with that port and
  a map that binds each location to its handler type and root, and no other location.\<close>

theorem server_config_parsed:
  assumes "0 \<le> port" and "port \<le> 65535" and "list_all route_ok routes" and "distinct (map fst routes)"
  shows "\<exists>m. Parse (open_stream (config_to_string 0 (server_config port routes))) (Config []) [] =
      (Inr True, server_config port routes, port, m) \<and>
    (\<forall>loc t rt. (loc, t, rt) \<in> set routes \<longrightarrow>
       map_find m loc = Some \<lparr>handler_type = t, location = loc, root = rt, api_key = []\<rparr>) \<and>
    (\<forall>loc. loc \<notin> fst ` set routes \<longrightarrow> map_find m loc = None)"
  using Parse_config_to_string [OF wf_server_config [OF assms(1,3)], where m = "[]" and d = 0]
  by (auto simp: sem_server_config [OF assms(1,2,3)] find_bind_route [OF assms(4)] find_bind_route_notin)

lemma server_config_parsed_witness:
  "\<exists>m. Parse (open_stream (config_to_string 0 (server_config 80 [(''/'', ''StaticHandler'', ''.'')]))) (Config []) [] =
      (Inr True, server_config 80 [(''/'', ''StaticHandler'', ''.'')], 80, m) \<and>
    map_find m ''/'' = Some \<lparr>handler_type = ''StaticHandler'', location = ''/'', root = ''.'', api_key = []\<rparr>"
  using server_config_parsed [of 80 "[(''/'', ''StaticHandler'', ''.'')]"]
  by (auto simp: route_ok_def is_directive_def token_ok_def bare_token_def ends_token_def)

end
