(* ===== verification/Config_Safety.thy ===== *)
theory Config_Safety
  imports Config_Semantics
begin

text \<open>
  Invariants of the token loop, for every input: what the port, the address map and the
  tree can be when \<open>Parse\<close> returns, whatever it returns, and which inputs run into
  undefined behaviour.
\<close>

section \<open>The address map is keyed by location\<close>

definition arg_ok :: "string \<Rightarrow> config_arg \<Rightarrow> bool" where
  "arg_ok loc a \<longleftrightarrow> location a = loc \<and> loc \<noteq> [] \<and> handler_type a \<noteq> []"

definition addrmap_ok :: "addrmap \<Rightarrow> bool" where
  "addrmap_ok m \<longleftrightarrow> map_ok m \<and> (\<forall>(loc, a) \<in> set m. arg_ok loc a)"

lemma addrmap_ok_find: "addrmap_ok m \<Longrightarrow> map_find m loc = Some a \<Longrightarrow> arg_ok loc a"
  by (auto simp: addrmap_ok_def dest: map_of_SomeD)

lemma addrmap_ok_assign:
  assumes "addrmap_ok m" and "arg_ok loc a"
  shows "addrmap_ok (map_assign loc a m)"
proof -
  have ok: "map_ok m" "map_ok (map_assign loc a m)"
    using assms(1) by (simp_all add: addrmap_ok_def map_ok_assign)
  have "arg_ok k b" if "(k, b) \<in> set (map_assign loc a m)" for k b
  proof (rule sm.assign_all [of m arg_ok loc a k b])
    show "map_find (map_assign loc a m) k = Some b"
      using that sm.lookup_entries [OF ok(2)] by simp
  qed (use assms ok addrmap_ok_find in auto)
  then show ?thesis using ok(2) by (auto simp: addrmap_ok_def)
qed

lemma addrmap_ok_insert: "addrmap_ok m \<Longrightarrow> arg_ok loc a \<Longrightarrow> addrmap_ok (map_insert loc a m)"
  by (simp add: map_insert_def addrmap_ok_assign)

lemmas addrmap_ok_intros = addrmap_ok_assign addrmap_ok_insert

lemma bind_ok:
  assumes "addrmap_ok m" and "loc \<noteq> []" and "ty \<noteq> []"
  shows "addrmap_ok (bind_root loc ty t m)" and "addrmap_ok (bind_api_key loc ty t m)"
  using assms
  by (auto simp: bind_root_def bind_api_key_def arg_ok_def intro!: addrmap_ok_intros split: option.splits)

lemma rev_nth_in: "n < length xs \<Longrightarrow> rev xs ! n \<in> set xs"
  by (metis length_rev nth_mem set_rev)

lemma bind_empty_block_ok:
  assumes "addrmap_ok m" and "list_all (\<lambda>t. t \<noteq> []) ts"
  shows "addrmap_ok (bind_empty_block ts m)"
proof (cases "3 \<le> length ts")
  case True
  then have len: "0 < length ts" "1 < length ts" by linarith+
  have "rev ts ! 0 \<in> set ts" "rev ts ! 1 \<in> set ts"
    using rev_nth_in [OF len(1)] rev_nth_in [OF len(2)] by simp_all
  then have "rev ts ! 0 \<noteq> []" "rev ts ! 1 \<noteq> []" using assms(2) unfolding list_all_iff by blast+
  then show ?thesis using assms(1)
    by (auto simp: bind_empty_block_def Let_def arg_ok_def intro!: addrmap_ok_intros split: option.splits)
qed (simp add: bind_empty_block_def assms(1))

text \<open>A step on one token keeps the port in range and the map keyed by location.\<close>

definition env_ok :: "int \<times> addrmap \<Rightarrow> bool" where
  "env_ok e \<longleftrightarrow> -1 \<le> fst e \<and> fst e \<le> 65535 \<and> addrmap_ok (snd e)"

lemma apply_directive_ok: "apply_directive ps l t e = Some e' \<Longrightarrow> env_ok e \<Longrightarrow> env_ok e'"
  using safeportSTOI_range [of t]
  by (auto simp: apply_directive_def env_ok_def Let_def bind_ok
      split: prod.splits if_splits)

section \<open>The invariant of the loop\<close>

abbreviation block_ok :: "nginx_config \<Rightarrow> bool" where
  "block_ok c \<equiv> wf_statements (\<lambda>t. t \<noteq> []) (statements c)"

text \<open>
  Every block on the stack is well formed and every enclosing one has a statement; the
  bracket count is the number of open blocks; a normal token has left a statement to
  extend, an opening brace a block inside another. The last pop of all is the only way to
  an empty stack.
\<close>

definition parse_inv :: "parse_state \<Rightarrow> bool" where
  "parse_inv st \<longleftrightarrow>
     env_ok (env_of st) \<and>
     list_all block_ok (config_stack st) \<and> block_ok (config_out st) \<and>
     (\<forall>p \<in> set (tl (config_stack st)). statements p \<noteq> []) \<and>
     remaining_bracket st = int (length (config_stack st)) - 1 \<and>
     (config_stack st = [] \<longrightarrow> last_token_type st = TOKEN_TYPE_END_BLOCK) \<and>
     (last_token_type st = TOKEN_TYPE_NORMAL \<longrightarrow> statements (hd (config_stack st)) \<noteq> []) \<and>
     (last_token_type st = TOKEN_TYPE_STATEMENT_END \<longrightarrow> statements (hd (config_stack st)) \<noteq> []) \<and>
     (last_token_type st = TOKEN_TYPE_START_BLOCK \<longrightarrow> 2 \<le> length (config_stack st)) \<and>
     (last_token_type st = TOKEN_TYPE_END_BLOCK \<longrightarrow>
        config_stack st \<noteq> [] \<longrightarrow> statements (hd (config_stack st)) \<noteq> [])"

lemma parse_inv_init: "addrmap_ok m \<Longrightarrow> parse_inv (parse_init (Config []) m)"
  by (simp add: parse_inv_def parse_init_def env_ok_def env_of_def)

lemma block_ok_butlast: "block_ok c \<Longrightarrow> wf_statements (\<lambda>t. t \<noteq> []) (butlast (statements c))"
  by (auto simp: wf_statements_iff list_all_iff dest: in_set_butlastD)

lemma block_ok_last:
  "block_ok c \<Longrightarrow> statements c \<noteq> [] \<Longrightarrow>
     wf_statement (\<lambda>t. t \<noteq> []) (last (statements c)) \<and> tokens (last (statements c)) \<noteq> [] \<and>
     list_all (\<lambda>t. t \<noteq> []) (tokens (last (statements c)))"
  using wf_statement_tokens [of "\<lambda>t. t \<noteq> []" "last (statements c)"]
  by (simp add: wf_statements_iff list_all_iff)

lemma block_ok_set_last_child:
  "block_ok c \<Longrightarrow> statements c \<noteq> [] \<Longrightarrow> block_ok d \<Longrightarrow> block_ok (set_last_child d c)"
  using block_ok_butlast block_ok_last
  by (cases d) (auto simp: set_last_child_def wf_statements_iff)

lemma block_ok_add_last_token:
  assumes "block_ok c" and "t \<noteq> []"
  shows "statements c \<noteq> [] \<Longrightarrow> block_ok (add_last_token t c)"
    and "block_ok (add_last_token t (new_statement c))"
  using assms block_ok_butlast block_ok_last [OF assms(1)]
  by (cases "last (statements c)", auto simp: add_last_token_def new_statement_def wf_statements_iff Let_def)

lemma set_last_child_not_Nil [simp]: "statements (set_last_child d c) \<noteq> []"
  by (simp add: set_last_child_def)

lemma add_last_token_not_Nil [simp]: "statements (add_last_token t c) \<noteq> []"
  by (simp add: add_last_token_def Let_def)


section \<open>Every step keeps it\<close>

definition step_inv :: "parse_step \<Rightarrow> bool" where
  "step_inv r \<longleftrightarrow>
     (case r of
        Loop st \<Rightarrow> parse_inv st
      | Break st \<Rightarrow> env_ok (env_of st)
      | Accept st \<Rightarrow> parse_inv st \<and> remaining_bracket st = 0
      | Fault st \<Rightarrow> env_ok (env_of st))"

lemma on_normal_inv:
  assumes inv: "parse_inv st" and t: "t \<noteq> []"
  shows "step_inv (set_last_type TOKEN_TYPE_NORMAL (on_normal t st))"
proof (cases "config_stack st")
  case Nil
  then show ?thesis using inv
    by (auto simp: on_normal_def step_inv_def set_last_type_def parse_inv_def)
next
  case (Cons c below)
  have c: "block_ok c" and below: "list_all block_ok below" "\<forall>p \<in> set below. statements p \<noteq> []"
    and env: "env_ok (env_of st)" using inv Cons by (auto simp: parse_inv_def)
  have dir: "env_ok (port, m)"
    if "apply_directive ps l t (parsed_port st, parsed_map st) = Some (port, m)" for ps l port m
    using apply_directive_ok [OF that] env by (simp add: env_of_def)
  show ?thesis
  proof (cases "last_token_type st = TOKEN_TYPE_NORMAL")
    case True
    then have ne: "statements c \<noteq> []" using inv Cons by (simp add: parse_inv_def)
    show ?thesis using True inv Cons ne c below dir block_ok_add_last_token(1) [OF c t ne] block_ok_last [OF c ne]
      by (auto simp: on_normal_def step_inv_def set_last_type_def parse_inv_def env_of_def Let_def
          split: option.splits list.splits)
  next
    case False
    then show ?thesis using inv Cons c below block_ok_add_last_token(2) [OF c t]
      by (auto simp: on_normal_def step_inv_def set_last_type_def parse_inv_def env_of_def Let_def
          new_statement_def)
  qed
qed

lemma on_start_block_inv:
  assumes "parse_inv st"
  shows "step_inv (set_last_type TOKEN_TYPE_START_BLOCK (on_start_block st))"
  using assms
  by (auto simp: on_start_block_def step_inv_def set_last_type_def parse_inv_def env_of_def Let_def
      block_ok_set_last_child split: list.splits)

lemma parse_inv_pop:
  assumes inv: "parse_inv st" and ne: "config_stack st \<noteq> []"
  shows "parse_inv (pop_config st\<lparr>remaining_bracket := remaining_bracket st - 1,
                                  last_token_type := TOKEN_TYPE_END_BLOCK\<rparr>)"
proof -
  obtain c below where st: "config_stack st = c # below" using ne by (cases "config_stack st") auto
  show ?thesis
  proof (cases below)
    case Nil
    then show ?thesis using inv st by (auto simp: parse_inv_def pop_config_def env_of_def)
  next
    case (Cons p fs)
    have "block_ok (set_last_child c p)"
      using inv st Cons by (intro block_ok_set_last_child) (auto simp: parse_inv_def)
    then show ?thesis using inv st Cons by (auto simp: parse_inv_def pop_config_def env_of_def)
  qed
qed

lemma env_ok_bind_empty:
  "env_ok (port, m) \<Longrightarrow> list_all (\<lambda>t. t \<noteq> []) ts \<Longrightarrow> env_ok (port, bind_empty_block ts m)"
  by (simp add: env_ok_def bind_empty_block_ok)

lemma on_end_block_inv:
  assumes inv: "parse_inv st"
  shows "step_inv (set_last_type TOKEN_TYPE_END_BLOCK (on_end_block st))"
proof (cases "last_token_type st \<in> {TOKEN_TYPE_STATEMENT_END, TOKEN_TYPE_START_BLOCK, TOKEN_TYPE_END_BLOCK} \<and>
    config_stack st \<noteq> []")
  case False
  then show ?thesis using inv
    by (auto simp: on_end_block_def step_inv_def set_last_type_def parse_inv_def env_of_def Let_def)
next
  case True
  let ?popped = "pop_config st\<lparr>remaining_bracket := remaining_bracket st - 1,
      last_token_type := TOKEN_TYPE_END_BLOCK\<rparr>"
  have popped: "parse_inv ?popped" using parse_inv_pop [OF inv] True by simp
  have pop: "pop_config (st\<lparr>remaining_bracket := remaining_bracket st - 1\<rparr>) =
      pop_config st\<lparr>remaining_bracket := remaining_bracket st - 1\<rparr>"
    by (auto simp: pop_config_def split: list.splits)
  show ?thesis
  proof (cases "last_token_type st = TOKEN_TYPE_START_BLOCK")
    case False
    then show ?thesis using True popped
      by (auto simp: on_end_block_def step_inv_def set_last_type_def pop Let_def)
  next
    case start: True
    then obtain c p fs where st: "config_stack st = c # p # fs"
      using inv by (cases "config_stack st"; cases "tl (config_stack st)") (auto simp: parse_inv_def)
    have p: "block_ok (set_last_child c p)" using popped st by (simp add: parse_inv_def pop_config_def)
    have "parse_inv (?popped\<lparr>parsed_map :=
        bind_empty_block (tokens (last (statements (set_last_child c p)))) (parsed_map st)\<rparr>)"
      using popped st env_ok_bind_empty block_ok_last [OF p]
      by (auto simp: parse_inv_def pop_config_def env_of_def)
    then show ?thesis using start st
      by (auto simp: on_end_block_def step_inv_def set_last_type_def pop_config_def Let_def
          parse_inv_def env_of_def)
  qed
qed

lemma parse_token_step_inv:
  assumes "parse_inv st" and "t = TOKEN_TYPE_NORMAL \<Longrightarrow> v \<noteq> []"
  shows "step_inv (parse_token_step t v st)"
proof (cases t)
  case TOKEN_TYPE_NORMAL
  then show ?thesis using on_normal_inv assms by simp
next
  case TOKEN_TYPE_STATEMENT_END
  then show ?thesis using assms(1)
    by (auto simp: step_inv_def set_last_type_def parse_inv_def env_of_def)
next
  case TOKEN_TYPE_EOF
  then show ?thesis using assms(1) by (auto simp: on_eof_def step_inv_def parse_inv_def)
qed (use assms(1) on_start_block_inv on_end_block_inv in \<open>simp_all add: step_inv_def parse_inv_def\<close>)

section \<open>What the loop returns\<close>

text \<open>Only the end of the input makes the parser return true.\<close>

lemma on_normal_not_Accept: "on_normal t st \<noteq> Accept st1"
  by (simp add: on_normal_def Let_def split: list.split option.split prod.split)

lemma on_start_block_not_Accept: "on_start_block st \<noteq> Accept st1"
  by (simp add: on_start_block_def Let_def split: list.split)

lemma on_end_block_not_Accept: "on_end_block st \<noteq> Accept st1"
  by (simp add: on_end_block_def Let_def split: list.split)

lemma set_last_type_Accept: "set_last_type t r = Accept st \<longleftrightarrow> r = Accept st"
  by (simp add: set_last_type_def split: parse_step.split)

lemma parse_token_step_Accept: "parse_token_step t v st = Accept st1 \<Longrightarrow> on_eof st = Accept st1"
  by (cases t) (simp_all add: set_last_type_Accept on_normal_not_Accept on_start_block_not_Accept
      on_end_block_not_Accept split: if_splits)

lemma parse_loop_inv:
  "parse_inv st \<Longrightarrow> parse_loop i st = (r, st') \<Longrightarrow>
     env_ok (env_of st') \<and>
     (r = Inr True \<longrightarrow> (\<exists>c. config_stack st' = [c] \<and> block_ok c \<and> statements c \<noteq> []))"
proof (induction i st rule: parse_loop.induct)
  case (1 i st)
  obtain t v i' where tok: "ParseToken i = (t, v, i')" by (metis prod_cases3)
  note run = "1.prems"(2) [unfolded parse_loop_step [OF tok]]
  have "t = TOKEN_TYPE_NORMAL \<Longrightarrow> v \<noteq> []" using ParseToken_NORMAL_value tok by simp
  then have step: "step_inv (parse_token_step t v st)"
    using parse_token_step_inv "1.prems"(1) by simp
  show ?case
  proof (cases "parse_token_step t v st")
    case (Loop st1)
    note IH = "1.IH" [OF tok [symmetric] refl refl Loop]
    show ?thesis by (rule IH) (use step run Loop in \<open>simp_all add: step_inv_def\<close>)
  next
    case (Accept st1)
    have st1: "st' = st1" using run Accept by simp
    have inv: "parse_inv st1" "remaining_bracket st1 = 0"
      using step Accept by (simp_all add: step_inv_def)
    then obtain c where c: "config_stack st1 = [c]"
      by (cases "config_stack st1"; cases "tl (config_stack st1)") (auto simp: parse_inv_def)
    have "last_token_type st1 \<in> {TOKEN_TYPE_STATEMENT_END, TOKEN_TYPE_END_BLOCK}"
      using parse_token_step_Accept [OF Accept] by (auto simp: on_eof_def split: if_splits)
    then show ?thesis using inv c st1 by (auto simp: parse_inv_def)
  qed (use run step in \<open>auto simp: step_inv_def\<close>)
qed

lemma Parse_inv:
  assumes "addrmap_ok m" and "Parse i (Config []) m = (r, c, port, m')"
  shows "-1 \<le> port" and "port \<le> 65535" and "addrmap_ok m'"
    and "r = Inr True \<Longrightarrow> block_ok c \<and> statements c \<noteq> []"
proof -
  obtain st where loop: "parse_loop i (parse_init (Config []) m) = (r, st)"
      and st: "c = the_config st" "port = parsed_port st" "m' = parsed_map st"
    using assms(2) by (auto simp: Parse_def split: prod.splits)
  note inv = parse_loop_inv [OF parse_inv_init [OF assms(1)] loop]
  then show "-1 \<le> port" "port \<le> 65535" "addrmap_ok m'"
    by (auto simp: st env_of_def env_ok_def)
  show "block_ok c \<and> statements c \<noteq> []" if "r = Inr True"
    using inv that by (auto simp: st the_config_def)
qed

section \<open>Inputs with a defect\<close>

lemma reads_one:
  "ref_token s = (t, v, r) \<Longrightarrow> t \<noteq> TOKEN_TYPE_EOF \<Longrightarrow> t \<noteq> TOKEN_TYPE_ERROR \<Longrightarrow> reads s [(t, v)] r"
  by (auto intro: reads.intros)

text \<open>Lexemes that run into a fault make the whole call fault.\<close>

lemma parse_loop_faults:
  assumes "reads s ls r" and "run_lexemes ls st = Fault st'"
  shows "fst (parse_loop (stream p s) st) = Inl Undefined"
  using parse_loop_reads [OF assms(1), of p st] assms(2) by auto

lemma fst_Parse: "fst (Parse i c m) = fst (parse_loop i (parse_init c m))"
  by (simp add: Parse_def split: prod.split)

text \<open>An opening brace before any statement takes \<open>back()\<close> of an empty vector.\<close>

lemma Parse_brace_first:
  assumes "ref_token s = (TOKEN_TYPE_START_BLOCK, v, r)"
  shows "fst (Parse (open_stream s) (Config []) m) = Inl Undefined"
proof -
  have "run_lexemes [(TOKEN_TYPE_START_BLOCK, v)] (parse_init (Config []) m) =
      Fault (parse_init (Config []) m\<lparr>remaining_bracket := 1\<rparr>)"
    by (simp add: on_start_block_def parse_init_def set_last_type_def)
  then show ?thesis
    using parse_loop_faults [OF reads_one [OF assms]] by (simp add: fst_Parse open_stream_def)
qed

text \<open>
  After a closing brace too many the stack is empty; a word or a brace after it takes
  \<open>top()\<close> or \<open>pop()\<close> of the empty stack.
\<close>

lemma empty_stack_faults:
  assumes "config_stack st = []" and "last_token_type st = TOKEN_TYPE_END_BLOCK"
    and "t \<in> {TOKEN_TYPE_NORMAL, TOKEN_TYPE_START_BLOCK, TOKEN_TYPE_END_BLOCK}"
  shows "\<exists>st'. parse_token_step t v st = Fault st'"
  using assms
  by (auto simp: on_normal_def on_start_block_def on_end_block_def set_last_type_def)

lemma extra_brace_faults:
  assumes "config_stack st = [c]"
    and "last_token_type st \<in> {TOKEN_TYPE_STATEMENT_END, TOKEN_TYPE_END_BLOCK}"
    and "t \<in> {TOKEN_TYPE_NORMAL, TOKEN_TYPE_START_BLOCK, TOKEN_TYPE_END_BLOCK}"
  shows "\<exists>st'. run_lexemes [(TOKEN_TYPE_END_BLOCK, v), (t, v')] st = Fault st'"
proof -
  let ?closed = "pop_config (st\<lparr>remaining_bracket := remaining_bracket st - 1\<rparr>)
      \<lparr>last_token_type := TOKEN_TYPE_END_BLOCK\<rparr>"
  have "parse_token_step TOKEN_TYPE_END_BLOCK v st = Loop ?closed"
    using assms(1,2) by (auto simp: on_end_block_def set_last_type_def Let_def)
  moreover have "config_stack ?closed = []" using assms(1) by (simp add: pop_config_def)
  ultimately show ?thesis
    using empty_stack_faults [of ?closed t v'] assms(3) by auto
qed

lemma Parse_brace_too_many:
  assumes wf: "wf_config c" and sem: "sem_config c (-1, m) = Some e"
    and brace: "ref_token s = (TOKEN_TYPE_END_BLOCK, v, r)"
    and after: "ref_token r = (t, v', q)"
      "t \<in> {TOKEN_TYPE_NORMAL, TOKEN_TYPE_START_BLOCK, TOKEN_TYPE_END_BLOCK}"
  shows "fst (Parse (open_stream (config_to_string d c @ s)) (Config []) m) = Inl Undefined"
proof -
  obtain p w st where st: "list_all blank w"
      "parse_loop (open_stream (config_to_string d c @ s)) (parse_init (Config []) m) =
        parse_loop (stream p (w @ s)) st"
      "config_stack st = [c]" "last_token_type st \<in> {TOKEN_TYPE_STATEMENT_END, TOKEN_TYPE_END_BLOCK}"
    using parse_loop_printed [OF wf, where m = m and d = d and s = s] sem by auto
  have "reads (w @ s) [(TOKEN_TYPE_END_BLOCK, v), (t, v')] q"
    using brace after by (auto intro!: reads.intros simp: ref_token_blank st(1))
  moreover obtain st' where "run_lexemes [(TOKEN_TYPE_END_BLOCK, v), (t, v')] st = Fault st'"
    using extra_brace_faults [OF st(3,4) after(2)] by blast
  ultimately show ?thesis using parse_loop_faults st(2) by (simp add: fst_Parse)
qed

text \<open>A word at the very end, with no delimiter after it, is not seen at all.\<close>

lemma ref_token_unterminated:
  assumes "bare_token t" shows "ref_token t = (TOKEN_TYPE_EOF, t, [])"
proof -
  obtain c w where t: "t = c # w" using assms by (cases t) (auto simp: bare_token_def)
  then have c: "\<not> ends_token c" "c \<notin> {CHR ''#'', CHR 0x22, CHR 0x27, CHR 0x0D}"
    and w: "\<forall>x \<in> set w. \<not> ends_token x" using assms by (auto simp: bare_token_def list_all_iff)
  have nb: "\<not> blank c" "c \<notin> {CHR ''{'', CHR ''}'', CHR '';''}"
    using c by (auto simp: blank_def ends_token_def)
  have "dropWhile (\<lambda>x. \<not> ends_token x) w = []" using w by (simp add: dropWhile_eq_Nil_conv)
  then show ?thesis using c nb
    by (simp add: t ref_token_def ref_run_def del: dropWhile_eq_Nil_conv)
qed

lemma Parse_unterminated_word:
  assumes wf: "wf_config c" and sem: "sem_config c (-1, m) = Some e" and t: "bare_token t"
  shows "Parse (open_stream (config_to_string d c @ t)) (Config []) m = (Inr True, c, e)"
proof -
  obtain p w st where st: "list_all blank w"
      "parse_loop (open_stream (config_to_string d c @ t)) (parse_init (Config []) m) =
        parse_loop (stream p (w @ t)) st"
      "config_stack st = [c]" "env_of st = e" "remaining_bracket st = 0"
      "last_token_type st \<in> {TOKEN_TYPE_STATEMENT_END, TOKEN_TYPE_END_BLOCK}"
    using parse_loop_printed [OF wf, where m = m and d = d and s = t] sem by auto
  have "agrees (ParseToken (stream p (w @ t))) (TOKEN_TYPE_EOF, t, [])"
    using ParseToken_agrees [of "w @ t" p] ref_token_blank [OF st(1)] ref_token_unterminated [OF t] by simp
  then obtain i' where "ParseToken (stream p (w @ t)) = (TOKEN_TYPE_EOF, t, i')"
    by (cases "ParseToken (stream p (w @ t))") auto
  then have "parse_loop (stream p (w @ t)) st = (Inr True, st)"
    using st(5,6) by (auto simp: parse_loop_step on_eof_def)
  then show ?thesis using st(2-4) by (auto simp: Parse_def the_config_def env_of_def)
qed

section \<open>Properties\<close>

text \<open>C18: whatever the input, when \<open>Parse\<close> ends the port is -1 or a valid port number and the
  address map is still ordered and binds each location to arguments that name that location
  and a handler type; when it returns true, the tree has a statement, every statement of it
  has a token and no token is empty.\<close>

theorem Parse_result_ok:
  assumes "addrmap_ok m" and "Parse i (Config []) m = (r, c, port, m')"
  shows "-1 \<le> port \<and> port \<le> 65535 \<and> addrmap_ok m' \<and>
    (r = Inr True \<longrightarrow> wf_statements (\<lambda>t. t \<noteq> []) (statements c) \<and> statements c \<noteq> [])"
  using Parse_inv [OF assms] by simp

lemma Parse_result_ok_witness:
  "\<exists>r c port m'. Parse (open_stream ''listen 70000;'') (Config []) [] = (r, c, port, m') \<and>
     -1 \<le> port \<and> port \<le> 65535 \<and> addrmap_ok m'"
proof -
  obtain r c port m' where run: "Parse (open_stream ''listen 70000;'') (Config []) [] = (r, c, port, m')"
    by (metis prod_cases4)
  have "addrmap_ok []" by (simp add: addrmap_ok_def)
  from Parse_result_ok [OF this run] run show ?thesis by blast
qed

text \<open>An opening brace that comes before any statement makes \<open>Parse\<close> take the last element
  of an empty vector.\<close>

theorem Parse_opening_brace_first:
  assumes "ref_token s = (TOKEN_TYPE_START_BLOCK, v, r)"
  shows "fst (Parse (open_stream s) (Config []) m) = Inl Undefined"
  using assms by (rule Parse_brace_first)

lemma Parse_opening_brace_first_witness:
  "fst (Parse (open_stream '' { a; }'') (Config []) []) = Inl Undefined"
  using Parse_opening_brace_first [of "'' { a; }''" "''{''" "'' a; }''" "[]"]
  by (simp add: ref_token_def blank_def)

text \<open>After a configuration that is accepted, a closing brace too many empties the stack of
  blocks, and a word or a brace after it reads the empty stack.\<close>

theorem Parse_closing_brace_too_many:
  assumes "wf_config c" and "sem_config c (-1, m) = Some e"
    and "ref_token s = (TOKEN_TYPE_END_BLOCK, v, r)" and "ref_token r = (t, v', q)"
    and "t \<in> {TOKEN_TYPE_NORMAL, TOKEN_TYPE_START_BLOCK, TOKEN_TYPE_END_BLOCK}"
  shows "fst (Parse (open_stream (config_to_string d c @ s)) (Config []) m) = Inl Undefined"
  using assms by (rule Parse_brace_too_many)

lemma Parse_closing_brace_too_many_witness:
  "fst (Parse (open_stream (config_to_string 0 (Config [Statement [''a''] None]) @ ''}}'')) (Config []) []) =
     Inl Undefined"
proof -
  have "wf_config (Config [Statement [''a''] None])"
    by (simp add: wf_config_def token_ok_def bare_token_def ends_token_def)
  moreover have "sem_config (Config [Statement [''a''] None]) (-1, []) = Some (-1, [])"
    by (simp add: sem_config_def)
  moreover have "ref_token ''}}'' = (TOKEN_TYPE_END_BLOCK, ''}'', ''}'')"
    "ref_token ''}'' = (TOKEN_TYPE_END_BLOCK, ''}'', [])" by (simp_all add: ref_token_def blank_def)
  ultimately show ?thesis by (rule Parse_closing_brace_too_many) simp
qed

text \<open>A word at the end of the input with no delimiter after it is dropped: the result of
  \<open>Parse\<close> is that of the text without it, and it is accepted.\<close>

theorem Parse_drops_unterminated_word:
  assumes "wf_config c" and "sem_config c (-1, m) = Some e" and "bare_token t"
  shows "Parse (open_stream (config_to_string d c @ t)) (Config []) m = (Inr True, c, e)"
  using assms by (rule Parse_unterminated_word)

lemma Parse_drops_unterminated_word_witness:
  "Parse (open_stream (config_to_string 0 (Config [Statement [''a''] None]) @ ''listen'')) (Config []) [] =
     (Inr True, Config [Statement [''a''] None], -1, [])"
proof -
  have "wf_config (Config [Statement [''a''] None])" "bare_token ''listen''"
    by (simp_all add: wf_config_def token_ok_def bare_token_def ends_token_def)
  moreover have "sem_config (Config [Statement [''a''] None]) (-1, []) = Some (-1, [])"
    by (simp add: sem_config_def)
  ultimately show ?thesis by (intro Parse_drops_unterminated_word)
qed

end
