(* ===== verification/Config_Braces.thy ===== *)
theory Config_Braces
  imports Config_Safety
begin

text \<open>
  When \<open>Parse\<close> stays clear of undefined behaviour. The only faults are a token that needs
  the top of an empty stack and an opening brace in a block without a statement; a scan of
  the braces of a text, which looks at nothing but the types of its tokens, excludes both.
\<close>

section \<open>The token types of a text\<close>

function token_types :: "string \<Rightarrow> token_type list" where
  "token_types s =
     (case ref_token s of
        (t, v, r) \<Rightarrow>
          if t = TOKEN_TYPE_EOF \<or> t = TOKEN_TYPE_ERROR then [t] else t # token_types r)"
  by pat_completeness auto
termination
  by (relation "measure length") (auto dest: ref_token_shrinks [OF sym])

declare token_types.simps [simp del]

section \<open>The scan\<close>

text \<open>
  The open blocks, innermost first, the text itself last: for each, whether it has a
  statement yet. A word starts or continues one, an opening brace needs one.
\<close>

fun token_fits :: "token_type \<Rightarrow> bool list \<Rightarrow> bool" where
  "token_fits TOKEN_TYPE_NORMAL bs = (bs \<noteq> [])"
| "token_fits TOKEN_TYPE_START_BLOCK bs = (bs \<noteq> [] \<and> hd bs)"
| "token_fits TOKEN_TYPE_END_BLOCK bs = (bs \<noteq> [])"
| "token_fits _ bs = True"

fun blocks_after :: "token_type \<Rightarrow> bool list \<Rightarrow> bool list" where
  "blocks_after TOKEN_TYPE_NORMAL bs = True # tl bs"
| "blocks_after TOKEN_TYPE_START_BLOCK bs = False # bs"
| "blocks_after TOKEN_TYPE_END_BLOCK bs = tl bs"
| "blocks_after _ bs = bs"

fun braces_ok :: "bool list \<Rightarrow> token_type list \<Rightarrow> bool" where
  "braces_ok bs [] = True"
| "braces_ok bs (t # ts) = (token_fits t bs \<and> braces_ok (blocks_after t bs) ts)"

section \<open>The scan follows the stack of the parser\<close>

definition block_flags :: "parse_state \<Rightarrow> bool list" where
  "block_flags st = map (\<lambda>c. statements c \<noteq> []) (config_stack st)"

definition step_flags :: "token_type \<Rightarrow> bool list \<Rightarrow> parse_step \<Rightarrow> bool" where
  "step_flags t bs r \<longleftrightarrow>
     (case r of
        Loop st \<Rightarrow> block_flags st = blocks_after t bs
      | Fault _ \<Rightarrow> False
      | _ \<Rightarrow> True)"

lemma normal_flags:
  assumes inv: "parse_inv st" and fits: "block_flags st \<noteq> []"
  shows "step_flags TOKEN_TYPE_NORMAL (block_flags st) (set_last_type TOKEN_TYPE_NORMAL (on_normal v st))"
proof -
  obtain c below where st: "config_stack st = c # below"
    using fits by (cases "config_stack st") (auto simp: block_flags_def)
  have below: "\<forall>p \<in> set below. statements p \<noteq> []" using inv st by (simp add: parse_inv_def)
  show ?thesis
  proof (cases "last_token_type st = TOKEN_TYPE_NORMAL")
    case True
    then have "statements c \<noteq> []" using inv st by (simp add: parse_inv_def)
    then show ?thesis using True st below
      by (auto simp: on_normal_def step_flags_def set_last_type_def block_flags_def Let_def
          split: option.splits list.splits)
  next
    case False
    then show ?thesis using st
      by (auto simp: on_normal_def step_flags_def set_last_type_def block_flags_def Let_def new_statement_def)
  qed
qed

lemma start_block_flags:
  assumes "block_flags st \<noteq> []" and "hd (block_flags st)"
  shows "step_flags TOKEN_TYPE_START_BLOCK (block_flags st)
    (set_last_type TOKEN_TYPE_START_BLOCK (on_start_block st))"
  using assms
  by (cases "config_stack st")
     (auto simp: on_start_block_def step_flags_def set_last_type_def block_flags_def Let_def)

lemma pop_flags:
  assumes "parse_inv st"
  shows "block_flags (pop_config st) = tl (block_flags st)"
proof (cases "config_stack st")
  case (Cons c below)
  then show ?thesis using assms
    by (cases below) (simp_all add: block_flags_def pop_config_def parse_inv_def)
qed (simp add: block_flags_def pop_config_def)

lemma end_block_flags:
  assumes inv: "parse_inv st" and fits: "block_flags st \<noteq> []"
  shows "step_flags TOKEN_TYPE_END_BLOCK (block_flags st)
    (set_last_type TOKEN_TYPE_END_BLOCK (on_end_block st))"
proof -
  have pop: "config_stack (pop_config (st\<lparr>remaining_bracket := n\<rparr>)) = config_stack (pop_config st)" for n
    by (auto simp: pop_config_def split: list.splits)
  have ne: "config_stack st \<noteq> []" using fits by (simp add: block_flags_def)
  have flags: "map (\<lambda>c. statements c \<noteq> []) (config_stack (pop_config st)) = tl (block_flags st)"
    using pop_flags [OF inv] by (simp add: block_flags_def)
  show ?thesis
  proof (cases "last_token_type st = TOKEN_TYPE_START_BLOCK")
    case True
    then obtain c p fs where "config_stack st = c # p # fs"
      using inv by (cases "config_stack st"; cases "tl (config_stack st)") (auto simp: parse_inv_def)
    then have "config_stack (pop_config st) = set_last_child c p # fs" by (simp add: pop_config_def)
    then show ?thesis using True ne pop flags
      by (auto simp: on_end_block_def step_flags_def set_last_type_def block_flags_def Let_def)
  next
    case False
    then show ?thesis using ne pop flags
      by (auto simp: on_end_block_def step_flags_def set_last_type_def block_flags_def Let_def)
  qed
qed

lemma parse_token_step_flags:
  assumes "parse_inv st" and "token_fits t (block_flags st)"
  shows "step_flags t (block_flags st) (parse_token_step t v st)"
proof (cases t)
  case TOKEN_TYPE_NORMAL
  then show ?thesis using assms normal_flags by simp
next
  case TOKEN_TYPE_START_BLOCK
  then show ?thesis using assms start_block_flags by simp
next
  case TOKEN_TYPE_END_BLOCK
  then show ?thesis using assms end_block_flags by simp
qed (simp_all add: step_flags_def set_last_type_def on_eof_def block_flags_def)

text \<open>One token of the stream, whether or not it is the last.\<close>

lemma ParseToken_next:
  assumes "ref_token s = (t, v, r)" and "t \<noteq> TOKEN_TYPE_EOF" and "t \<noteq> TOKEN_TYPE_ERROR"
  obtains p' where "ParseToken (stream p s) = (t, v, stream p' r)"
proof -
  obtain t' v' i where run: "ParseToken (stream p s) = (t', v', i)" by (metis prod_cases3)
  have "agrees (t', v', i) (t, v, r)" using ParseToken_agrees [of s p] unfolding run assms(1) .
  then have "t' = t" "v' = v" "rest i = r" "good i" using assms(2,3) by auto
  then show thesis using that [of "past i"] run by (cases i) simp
qed

lemma parse_loop_braces:
  assumes "parse_inv st" and "braces_ok (block_flags st) (token_types s)"
  shows "fst (parse_loop (stream p s) st) \<noteq> Inl Undefined"
  using assms
proof (induction "length s" arbitrary: s p st rule: less_induct)
  case less
  obtain t v r where tok: "ref_token s = (t, v, r)" by (metis prod_cases3)
  obtain t' v' i where run: "ParseToken (stream p s) = (t', v', i)" by (metis prod_cases3)
  have t': "t' = t" using ParseToken_agrees [of s p] run tok by simp
  have fits: "token_fits t (block_flags st)"
    using less.prems(2) tok by (subst (asm) token_types.simps) (auto split: if_splits)
  note flags = parse_token_step_flags [OF less.prems(1) fits]
  have step: "parse_loop (stream p s) st =
      (case parse_token_step t v' st of
         Loop st' \<Rightarrow> parse_loop i st' | Break st' \<Rightarrow> (Inr False, st')
       | Accept st' \<Rightarrow> (Inr True, st') | Fault st' \<Rightarrow> (Inl Undefined, st'))"
    using parse_loop_step [OF run] t' by simp
  show ?case
  proof (cases "parse_token_step t v' st")
    case (Loop st1)
    have more: "t \<noteq> TOKEN_TYPE_EOF" "t \<noteq> TOKEN_TYPE_ERROR" using parse_token_step_stops [OF Loop] by simp_all
    then obtain p' where i: "v' = v" "i = stream p' r"
      using ParseToken_next [OF tok more, of p] run by auto
    have "t = TOKEN_TYPE_NORMAL \<Longrightarrow> v' \<noteq> []" using ParseToken_NORMAL_value run t' by blast
    then have "parse_inv st1"
      using parse_token_step_inv [OF less.prems(1), of t v'] Loop by (simp add: step_inv_def)
    moreover have "braces_ok (block_flags st1) (token_types r)"
      using less.prems(2) tok more flags [of v'] Loop
      by (subst (asm) token_types.simps) (simp add: step_flags_def)
    moreover have "length r < length s" using ref_token_shrinks [OF tok] more by simp
    ultimately show ?thesis using less.hyps step Loop i(2) by simp
  qed (use step flags [of v'] in \<open>simp_all add: step_flags_def\<close>)
qed

section \<open>Properties\<close>

text \<open>C19: on a text whose braces are in order, no closing brace without an open block and no
  opening brace in a block that has no statement yet, \<open>Parse\<close> has no undefined behaviour: it
  returns true or false.\<close>

theorem Parse_defined:
  assumes "addrmap_ok m" and "braces_ok [False] (token_types s)"
  shows "\<exists>b. fst (Parse (open_stream s) (Config []) m) = Inr b"
proof -
  have "block_flags (parse_init (Config []) m) = [False]" by (simp add: block_flags_def parse_init_def)
  then have "fst (Parse (open_stream s) (Config []) m) \<noteq> Inl Undefined"
    using parse_loop_braces [OF parse_inv_init [OF assms(1)], of s "[]"] assms(2)
    by (simp add: fst_Parse open_stream_def)
  moreover have "fst (parse_loop i st) \<in> insert (Inl Undefined) (range Inr)" for i st
  proof (induction i st rule: parse_loop.induct)
    case (1 i st)
    then show ?case by (subst parse_loop.simps) (auto split: prod.splits parse_step.splits)
  qed
  ultimately show ?thesis by (auto simp: fst_Parse)
qed

lemma Parse_defined_witness:
  "braces_ok [False] (token_types ''a { b; } }'') \<and>
   (\<exists>b. fst (Parse (open_stream ''a { b; } }'') (Config []) []) = Inr b)"
proof -
  have tok: "ref_token ''a { b; } }'' = (TOKEN_TYPE_NORMAL, ''a'', '' { b; } }'')"
    "ref_token '' { b; } }'' = (TOKEN_TYPE_START_BLOCK, ''{'', '' b; } }'')"
    "ref_token '' b; } }'' = (TOKEN_TYPE_NORMAL, ''b'', ''; } }'')"
    "ref_token ''; } }'' = (TOKEN_TYPE_STATEMENT_END, '';'', '' } }'')"
    "ref_token '' } }'' = (TOKEN_TYPE_END_BLOCK, ''}'', '' }'')"
    "ref_token '' }'' = (TOKEN_TYPE_END_BLOCK, ''}'', [])" "ref_token [] = (TOKEN_TYPE_EOF, [], [])"
    by (simp_all add: ref_token_def ref_run_def ends_token_def blank_def)
  have "token_types ''a { b; } }'' =
      [TOKEN_TYPE_NORMAL, TOKEN_TYPE_START_BLOCK, TOKEN_TYPE_NORMAL, TOKEN_TYPE_STATEMENT_END,
       TOKEN_TYPE_END_BLOCK, TOKEN_TYPE_END_BLOCK, TOKEN_TYPE_EOF]"
    by (simp add: token_types.simps tok)
  then have "braces_ok [False] (token_types ''a { b; } }'')" by simp
  moreover have "addrmap_ok []" by (simp add: addrmap_ok_def)
  ultimately show ?thesis using Parse_defined by blast
qed

end
