(* ===== verification/Config_Grammar.thy ===== *)
theory Config_Grammar
  imports Config_Braces
begin

text \<open>
  The language \<open>Parse\<close> accepts. A tree is written as the lexemes of \<open>statements_lexemes\<close>;
  \<open>Parse\<close> accepts a text exactly when its lexemes, comments left out, are those of a tree
  whose directives are valid, and it builds that tree. The one condition is that every block
  of the text follows a word: the code does not check this, and what it makes of other texts
  is shown at the end.
\<close>

section \<open>The lexemes of a text\<close>

function text_lexemes :: "string \<Rightarrow> lexeme list" where
  "text_lexemes s =
     (case ref_token s of
        (t, v, r) \<Rightarrow>
          if t = TOKEN_TYPE_EOF \<or> t = TOKEN_TYPE_ERROR then [(t, [])]
          else if t = TOKEN_TYPE_COMMENT then text_lexemes r
          else (t, v) # text_lexemes r)"
  by pat_completeness auto
termination
  by (relation "measure length") (auto dest: ref_token_shrinks [OF sym])

declare text_lexemes.simps [simp del]

lemma text_lexemes_step:
  "ref_token s = (t, v, r) \<Longrightarrow>
     text_lexemes s =
       (if t = TOKEN_TYPE_EOF \<or> t = TOKEN_TYPE_ERROR then [(t, [])]
        else if t = TOKEN_TYPE_COMMENT then text_lexemes r
        else (t, v) # text_lexemes r)"
  by (subst text_lexemes.simps) simp

text \<open>What the tokenizer gives: words that are not empty, and the three symbols.\<close>

fun lexeme_ok :: "lexeme \<Rightarrow> bool" where
  "lexeme_ok (TOKEN_TYPE_NORMAL, v) = (v \<noteq> [])"
| "lexeme_ok (TOKEN_TYPE_STATEMENT_END, v) = (v = '';'')"
| "lexeme_ok (TOKEN_TYPE_START_BLOCK, v) = (v = ''{'')"
| "lexeme_ok (TOKEN_TYPE_END_BLOCK, v) = (v = ''}'')"
| "lexeme_ok (t, v) = (t \<noteq> TOKEN_TYPE_COMMENT)"

lemma ref_token_lexeme_ok:
  assumes "ref_token s = (t, v, r)" and "t \<noteq> TOKEN_TYPE_COMMENT"
  shows "lexeme_ok (t, v)"
proof (cases "t = TOKEN_TYPE_NORMAL")
  case True
  then show ?thesis using ref_token_NORMAL_value assms(1) by simp
next
  case False
  then show ?thesis using assms
    by (auto simp: ref_token_def ref_quoted_def ref_run_def
        split: list.splits if_splits option.splits prod.splits)
qed

lemma text_lexemes_ok: "list_all lexeme_ok (text_lexemes s)"
proof (induction s rule: text_lexemes.induct)
  case (1 s)
  obtain t v r where tok: "ref_token s = (t, v, r)" by (metis prod_cases3)
  note IH = "1.IH" [OF tok [symmetric] refl]
  show ?case using IH ref_token_lexeme_ok [OF tok]
    by (auto simp: text_lexemes_step [OF tok])
qed

text \<open>The end of the text, or the error, is the last lexeme and only that.\<close>

lemma text_lexemes_end:
  assumes "text_lexemes s = ls @ (TOKEN_TYPE_EOF, v) # ms" shows "v = [] \<and> ms = []"
  using assms
proof (induction s arbitrary: ls rule: text_lexemes.induct)
  case (1 s)
  obtain t w r where tok: "ref_token s = (t, w, r)" by (metis prod_cases3)
  note IH = "1.IH" [OF tok [symmetric] refl]
  show ?case
  proof (cases "t = TOKEN_TYPE_EOF \<or> t = TOKEN_TYPE_ERROR \<or> t = TOKEN_TYPE_COMMENT")
    case True
    then show ?thesis using "1.prems" IH(1)
      by (auto simp: text_lexemes_step [OF tok] Cons_eq_append_conv)
  next
    case False
    then obtain ls' where "ls = (t, w) # ls'" "text_lexemes r = ls' @ (TOKEN_TYPE_EOF, v) # ms"
      using "1.prems" by (cases ls) (auto simp: text_lexemes_step [OF tok])
    then show ?thesis using IH(2) False by blast
  qed
qed

section \<open>The loop on a text is the run of its lexemes\<close>

fun loop_result :: "parse_step \<Rightarrow> bool outcome \<times> parse_state" where
  "loop_result (Accept st) = (Inr True, st)"
| "loop_result (Fault st) = (Inl Undefined, st)"
| "loop_result (Break st) = (Inr False, st)"
| "loop_result (Loop st) = (Inr False, st)"

lemma parse_token_step_last:
  "t = TOKEN_TYPE_EOF \<or> t = TOKEN_TYPE_ERROR \<Longrightarrow>
     parse_token_step t v st = parse_token_step t w st \<and> (\<forall>st'. parse_token_step t v st \<noteq> Loop st')"
  by (auto simp: on_eof_def split: if_splits)

lemma parse_loop_lexemes: "parse_loop (stream p s) st = loop_result (run_lexemes (text_lexemes s) st)"
proof (induction s arbitrary: p st rule: text_lexemes.induct)
  case (1 s)
  obtain t v r where tok: "ref_token s = (t, v, r)" by (metis prod_cases3)
  note IH = "1.IH" [OF tok [symmetric] refl]
  show ?case
  proof (cases "t = TOKEN_TYPE_EOF \<or> t = TOKEN_TYPE_ERROR")
    case True
    obtain v' i where run: "ParseToken (stream p s) = (t, v', i)"
      using ParseToken_agrees [of s p] tok by (cases "ParseToken (stream p s)") auto
    show ?thesis using True parse_token_step_last [OF True, of v' st "[]"]
      by (auto simp: parse_loop_step [OF run] text_lexemes_step [OF tok] split: parse_step.splits)
  next
    case False
    then obtain p' where "ParseToken (stream p s) = (t, v, stream p' r)"
      using ParseToken_next [OF tok] by metis
    then show ?thesis using False IH
      by (auto simp: parse_loop_step text_lexemes_step [OF tok] split: parse_step.splits)
  qed
qed

section \<open>What the parser has read\<close>

text \<open>
  The lexemes of a block whose last statement is still open: the statements before it and
  its words. The blocks below the top of the stack are all open at a brace.
\<close>

definition open_lexemes :: "nginx_config \<Rightarrow> lexeme list" where
  "open_lexemes c =
     statements_lexemes (butlast (statements c)) @
     map (Pair TOKEN_TYPE_NORMAL) (tokens (last (statements c)))"

definition frames_lexemes :: "nginx_config list \<Rightarrow> lexeme list" where
  "frames_lexemes below =
     concat (map (\<lambda>p. open_lexemes p @ [(TOKEN_TYPE_START_BLOCK, ''{'')]) (rev below))"

definition block_lexemes :: "token_type \<Rightarrow> nginx_config \<Rightarrow> lexeme list" where
  "block_lexemes prev c = (if prev = TOKEN_TYPE_NORMAL then open_lexemes c else statements_lexemes (statements c))"

text \<open>
  \<open>has_read st ls\<close>: the tokens read so far are \<open>ls\<close>, as the stack tells them. Nothing is
  said once the stack is empty: the parser cannot go on from there.
\<close>

definition has_read :: "parse_state \<Rightarrow> lexeme list \<Rightarrow> bool" where
  "has_read st ls \<longleftrightarrow>
     (\<forall>c below. config_stack st = c # below \<longrightarrow>
        ls = frames_lexemes below @ block_lexemes (last_token_type st) c \<and>
        (last_token_type st = TOKEN_TYPE_NORMAL \<longrightarrow> child_block (last (statements c)) = None))"

lemma frames_lexemes_simps [simp]:
  "frames_lexemes [] = []"
  "frames_lexemes (p # fs) = frames_lexemes fs @ open_lexemes p @ [(TOKEN_TYPE_START_BLOCK, ''{'')]"
  by (simp_all add: frames_lexemes_def)

lemma statements_lexemes_append [simp]:
  "statements_lexemes (ss @ ts) = statements_lexemes ss @ statements_lexemes ts"
  by (induction ss) auto

lemma open_lexemes_new [simp]: "open_lexemes (new_statement c) = statements_lexemes (statements c)"
  by (simp add: open_lexemes_def new_statement_def)

lemma open_lexemes_add [simp]: "open_lexemes (add_last_token v c) = open_lexemes c @ [(TOKEN_TYPE_NORMAL, v)]"
  by (simp add: open_lexemes_def add_last_token_def Let_def)

lemma last_child_new [simp]: "child_block (last (statements (new_statement c))) = None"
  by (simp add: new_statement_def)

lemma last_child_add [simp]:
  "child_block (last (statements (add_last_token v c))) = child_block (last (statements c))"
  by (simp add: add_last_token_def Let_def)

lemma open_lexemes_child [simp]: "open_lexemes (set_last_child d c) = open_lexemes c"
  by (simp add: open_lexemes_def set_last_child_def)

lemma statements_lexemes_child:
  "statements_lexemes (statements (set_last_child d c)) =
     open_lexemes c @ (TOKEN_TYPE_START_BLOCK, ''{'') # statements_lexemes (statements d) @
     [(TOKEN_TYPE_END_BLOCK, ''}'')]"
  by (cases d) (simp add: open_lexemes_def set_last_child_def)

lemma statements_lexemes_ended:
  assumes "statements c \<noteq> []" and "child_block (last (statements c)) = None"
  shows "statements_lexemes (statements c) = open_lexemes c @ [(TOKEN_TYPE_STATEMENT_END, '';'')]"
proof -
  obtain ts where "last (statements c) = Statement ts None"
    using assms(2) by (cases "last (statements c)") auto
  then have "statements c = butlast (statements c) @ [Statement ts None]"
    using assms(1) append_butlast_last_id by metis
  then have "statements_lexemes (statements c) =
      statements_lexemes (butlast (statements c)) @ statements_lexemes [Statement ts None]"
    by (metis statements_lexemes_append)
  then show ?thesis using \<open>last (statements c) = Statement ts None\<close> by (simp add: open_lexemes_def)
qed

text \<open>A block may be opened where the token before is a word.\<close>

fun blocks_named :: "token_type \<Rightarrow> lexeme list \<Rightarrow> bool" where
  "blocks_named prev [] = True"
| "blocks_named prev ((t, v) # ls) =
     ((t = TOKEN_TYPE_START_BLOCK \<longrightarrow> prev = TOKEN_TYPE_NORMAL) \<and> blocks_named t ls)"

section \<open>Every token extends what was read\<close>

text \<open>A step that goes round again keeps a stack that is not empty and extends what was read.\<close>

lemma on_normal_reads:
  assumes inv: "parse_inv st" and reads: "has_read st ls"
    and step: "set_last_type TOKEN_TYPE_NORMAL (on_normal v st) = Loop st'"
  shows "has_read st' (ls @ [(TOKEN_TYPE_NORMAL, v)]) \<and> config_stack st \<noteq> []"
proof (cases "config_stack st")
  case Nil
  then show ?thesis using step by (auto simp: on_normal_def set_last_type_def split: if_splits)
next
  case (Cons c below)
  have ls: "ls = frames_lexemes below @ block_lexemes (last_token_type st) c" using reads Cons by (simp add: has_read_def)
  show ?thesis
  proof (cases "last_token_type st = TOKEN_TYPE_NORMAL")
    case True
    then have "statements c \<noteq> []" "child_block (last (statements c)) = None"
      using inv reads Cons by (simp_all add: parse_inv_def has_read_def)
    then have "config_stack st' = add_last_token v c # below \<and> last_token_type st' = TOKEN_TYPE_NORMAL"
      using step True Cons
      by (auto simp: on_normal_def set_last_type_def Let_def split: if_splits option.splits list.splits)
    then show ?thesis using Cons ls True \<open>child_block (last (statements c)) = None\<close>
      by (simp add: has_read_def block_lexemes_def)
  next
    case False
    then have "config_stack st' = add_last_token v (new_statement c) # below \<and>
        last_token_type st' = TOKEN_TYPE_NORMAL"
      using step Cons
      by (auto simp: on_normal_def set_last_type_def new_statement_def Let_def split: if_splits)
    then show ?thesis using Cons ls False
      by (simp add: has_read_def block_lexemes_def)
  qed
qed

lemma statement_end_reads:
  assumes inv: "parse_inv st" and reads: "has_read st ls"
    and step: "parse_token_step TOKEN_TYPE_STATEMENT_END v st = Loop st'"
  shows "has_read st' (ls @ [(TOKEN_TYPE_STATEMENT_END, '';'')]) \<and> config_stack st \<noteq> []"
proof -
  have last: "last_token_type st = TOKEN_TYPE_NORMAL"
    and st': "st' = st\<lparr>last_token_type := TOKEN_TYPE_STATEMENT_END\<rparr>"
    using step by (auto simp: set_last_type_def split: if_splits)
  then obtain c below where st: "config_stack st = c # below"
    using inv by (cases "config_stack st") (auto simp: parse_inv_def)
  have "statements_lexemes (statements c) = open_lexemes c @ [(TOKEN_TYPE_STATEMENT_END, '';'')]"
    using inv reads last st by (intro statements_lexemes_ended) (simp_all add: parse_inv_def has_read_def)
  then show ?thesis using reads st st' last by (simp add: has_read_def block_lexemes_def)
qed

lemma start_block_reads:
  assumes reads: "has_read st ls" and last: "last_token_type st = TOKEN_TYPE_NORMAL"
    and step: "parse_token_step TOKEN_TYPE_START_BLOCK v st = Loop st'"
  shows "has_read st' (ls @ [(TOKEN_TYPE_START_BLOCK, ''{'')]) \<and> config_stack st \<noteq> []"
proof -
  obtain c below where st: "config_stack st = c # below"
    and st': "config_stack st' = Config [] # set_last_child (Config []) c # below"
      "last_token_type st' = TOKEN_TYPE_START_BLOCK"
    using step by (cases "config_stack st")
      (auto simp: on_start_block_def set_last_type_def Let_def split: if_splits)
  then show ?thesis using reads last by (simp add: has_read_def block_lexemes_def)
qed

lemma end_block_reads:
  assumes reads: "has_read st ls"
    and step: "parse_token_step TOKEN_TYPE_END_BLOCK v st = Loop st'"
  shows "has_read st' (ls @ [(TOKEN_TYPE_END_BLOCK, ''}'')]) \<and> config_stack st \<noteq> []"
proof -
  have ne: "config_stack st \<noteq> []" and last: "last_token_type st \<noteq> TOKEN_TYPE_NORMAL"
    and st': "config_stack st' = config_stack (pop_config st)" "last_token_type st' = TOKEN_TYPE_END_BLOCK"
    using step
    by (auto simp: on_end_block_def set_last_type_def pop_config_def Let_def split: if_splits list.splits)
  obtain c below where st: "config_stack st = c # below" using ne by (cases "config_stack st") auto
  show ?thesis
  proof (cases below)
    case Nil
    then show ?thesis using st st' by (simp add: has_read_def pop_config_def)
  next
    case (Cons p fs)
    then have "config_stack st' = set_last_child c p # fs" using st st'(1) by (simp add: pop_config_def)
    then show ?thesis using reads st Cons last st'(2)
      by (simp add: has_read_def block_lexemes_def statements_lexemes_child)
  qed
qed

lemma parse_token_step_reads:
  assumes "parse_inv st" and "has_read st ls" and "lexeme_ok (t, v)"
    and "t = TOKEN_TYPE_START_BLOCK \<Longrightarrow> last_token_type st = TOKEN_TYPE_NORMAL"
    and "parse_token_step t v st = Loop st'"
  shows "has_read st' (ls @ [(t, v)])" and "config_stack st \<noteq> []" and "last_token_type st' = t"
proof -
  have "has_read st' (ls @ [(t, v)]) \<and> config_stack st \<noteq> []"
  proof (cases t)
    case TOKEN_TYPE_NORMAL
    then show ?thesis using on_normal_reads assms by simp
  next
    case TOKEN_TYPE_STATEMENT_END
    then show ?thesis using statement_end_reads assms by simp
  next
    case TOKEN_TYPE_START_BLOCK
    then show ?thesis using start_block_reads assms by simp
  next
    case TOKEN_TYPE_END_BLOCK
    then show ?thesis using end_block_reads assms by simp
  qed (use assms parse_token_step_stops [OF assms(5)] in auto)
  then show "has_read st' (ls @ [(t, v)])" "config_stack st \<noteq> []" by simp_all
  have "set_last_type t r = Loop st' \<Longrightarrow> last_token_type st' = t" for r
    by (auto simp: set_last_type_def split: parse_step.splits)
  then show "last_token_type st' = t"
    using assms(3,5) parse_token_step_stops [OF assms(5)] by (cases t) (auto split: if_splits)
qed

text \<open>A run that goes on, and a run that accepts.\<close>

lemma run_lexemes_reads:
  assumes "parse_inv st" and "has_read st done"
    and "list_all lexeme_ok ls" and "blocks_named (last_token_type st) ls"
    and "run_lexemes ls st = Loop st'"
  shows "parse_inv st' \<and> has_read st' (done @ ls)"
  using assms
proof (induction ls arbitrary: st "done")
  case (Cons l ls)
  obtain t v where l: "l = (t, v)" by (cases l)
  obtain st1 where step: "parse_token_step t v st = Loop st1" and run: "run_lexemes ls st1 = Loop st'"
    using Cons.prems(5) by (auto simp: l split: parse_step.splits)
  have ok: "lexeme_ok (t, v)" "t = TOKEN_TYPE_START_BLOCK \<Longrightarrow> last_token_type st = TOKEN_TYPE_NORMAL"
    using Cons.prems(3,4) by (simp_all add: l)
  note read = parse_token_step_reads [OF Cons.prems(1,2) ok step]
  have "t = TOKEN_TYPE_NORMAL \<Longrightarrow> v \<noteq> []" using ok(1) by simp
  then have "parse_inv st1"
    using parse_token_step_inv [OF Cons.prems(1), of t v] step by (simp add: step_inv_def)
  from Cons.IH [OF this read(1) _ _ run] show ?case
    using Cons.prems(3,4) read(3) by (simp add: l)
qed simp

lemma run_lexemes_Accept:
  "run_lexemes ls st = Accept st' \<Longrightarrow>
     \<exists>ls1 v ls2. ls = ls1 @ (TOKEN_TYPE_EOF, v) # ls2 \<and> run_lexemes ls1 st = Loop st' \<and> on_eof st' = Accept st'"
proof (induction ls st rule: run_lexemes.induct)
  case (2 t v ls st)
  show ?case
  proof (cases "parse_token_step t v st")
    case (Loop st1)
    then obtain ls1 w ls2 where "ls = ls1 @ (TOKEN_TYPE_EOF, w) # ls2" "run_lexemes ls1 st1 = Loop st'"
        "on_eof st' = Accept st'" using 2 by auto
    then show ?thesis using Loop by (intro exI [of _ "(t, v) # ls1"]) simp
  next
    case (Accept st1)
    then have "t = TOKEN_TYPE_EOF" "on_eof st = Accept st'" using 2(2) parse_token_step_Accept [OF Accept]
      by (cases t; auto simp: set_last_type_Accept on_normal_not_Accept on_start_block_not_Accept
          on_end_block_not_Accept split: if_splits)+
    then show ?thesis by (intro exI [of _ "[]"] exI [of _ v] exI [of _ ls]) (auto simp: on_eof_def split: if_splits)
  qed (use 2(2) in auto)
qed simp

lemma blocks_named_append: "blocks_named prev (ls @ ms) \<Longrightarrow> blocks_named prev ls"
  by (induction prev ls rule: blocks_named.induct) auto

section \<open>Accepted texts are trees, and trees are accepted\<close>

definition tree_text :: "string \<Rightarrow> nginx_config \<Rightarrow> bool" where
  "tree_text s c \<longleftrightarrow>
     text_lexemes s = statements_lexemes (statements c) @ [(TOKEN_TYPE_EOF, [])] \<and>
     statements c \<noteq> [] \<and> wf_statements (\<lambda>t. t \<noteq> []) (statements c)"

lemma accepted_is_tree:
  assumes m: "addrmap_ok m" and named: "blocks_named TOKEN_TYPE_START (text_lexemes s)"
    and run: "run_lexemes (text_lexemes s) (parse_init (Config []) m) = Accept st'"
  shows "\<exists>c. config_stack st' = [c] \<and> tree_text s c"
proof -
  let ?init = "parse_init (Config []) m"
  obtain ls v ms where ls: "text_lexemes s = ls @ (TOKEN_TYPE_EOF, v) # ms"
    and loop: "run_lexemes ls ?init = Loop st'" and eof: "on_eof st' = Accept st'"
    using run_lexemes_Accept [OF run] by blast
  have start: "has_read ?init []" by (simp add: has_read_def block_lexemes_def parse_init_def)
  have "list_all lexeme_ok ls" using text_lexemes_ok [of s] ls by simp
  moreover have "blocks_named (last_token_type ?init) ls"
    using named blocks_named_append ls by (simp add: parse_init_def)
  ultimately have inv: "parse_inv st'" and read: "has_read st' ls"
    using run_lexemes_reads [OF parse_inv_init [OF m] start _ _ loop] by simp_all
  have last: "last_token_type st' \<in> {TOKEN_TYPE_STATEMENT_END, TOKEN_TYPE_END_BLOCK}"
    and closed: "remaining_bracket st' = 0" using eof by (auto simp: on_eof_def split: if_splits)
  obtain c where c: "config_stack st' = [c]"
    using inv closed by (cases "config_stack st'"; cases "tl (config_stack st')") (auto simp: parse_inv_def)
  then have "ls = statements_lexemes (statements c)" using read last by (auto simp: has_read_def block_lexemes_def)
  then have "tree_text s c"
    using inv c last ls text_lexemes_end [OF ls] by (auto simp: tree_text_def parse_inv_def)
  then show ?thesis using c by blast
qed

lemma at_block_start: "at_block (parse_init (Config []) m) [] []"
  by (simp add: at_block_def parse_init_def)

text \<open>The run of a tree is its meaning: accepted with that port and map, or rejected.\<close>

lemma tree_run:
  assumes "tree_text s c"
  shows "case sem_config c (-1, m) of
      None \<Rightarrow> \<exists>st. run_lexemes (text_lexemes s) (parse_init (Config []) m) = Break st
    | Some e \<Rightarrow> \<exists>st. run_lexemes (text_lexemes s) (parse_init (Config []) m) = Accept st \<and>
        config_stack st = [c] \<and> env_of st = e"
proof -
  let ?init = "parse_init (Config []) m" and ?eof = "[(TOKEN_TYPE_EOF, [])] :: lexeme list"
  obtain ss where c: "c = Config ss" by (cases c)
  have ls: "text_lexemes s = statements_lexemes ss @ ?eof" "ss \<noteq> []" "wf_statements (\<lambda>t. t \<noteq> []) ss"
    using assms by (simp_all add: tree_text_def c)
  have "runs_to (statements_lexemes ss) ?init (sem_config c (-1, m)) 0
      (block_done [] ss [] (last_token_type ?init))"
    using run_tree(2) [OF at_block_start ls(3), of m]
    by (simp add: sem_config_def c env_of_def parse_init_def parent_tokens_def)
  then show ?thesis using ls(1,2)
    by (auto simp: runs_to_def run_lexemes_append block_done_def at_block_def on_eof_def c
        parse_init_def split: option.splits)
qed

lemma Parse_lexemes:
  "Parse (open_stream s) (Config []) m =
     (case loop_result (run_lexemes (text_lexemes s) (parse_init (Config []) m)) of
        (r, st) \<Rightarrow> (r, the_config st, env_of st))"
  by (simp add: Parse_def open_stream_def parse_loop_lexemes env_of_def)

lemma loop_result_True: "loop_result r = (Inr True, st) \<longleftrightarrow> r = Accept st"
  by (cases r) auto

section \<open>A block without a name\<close>

text \<open>An opening brace after a whole statement gives that statement a new block.\<close>

lemma reopen_block:
  assumes "at_block st (ss @ [Statement ts ch]) below"
  shows "runs_to [(TOKEN_TYPE_START_BLOCK, v)] st (Some (env_of st)) 1
           (\<lambda>st'. at_block st' [] (Config (ss @ [Statement ts (Some (Config []))]) # below) \<and>
                  last_token_type st' = TOKEN_TYPE_START_BLOCK)"
  using assms
  by (auto simp: runs_to_def at_block_def set_last_type_def env_of_def on_start_block_def set_last_child_def)

definition sem_block :: "string list \<Rightarrow> nginx_statement list \<Rightarrow> int \<times> addrmap \<Rightarrow> (int \<times> addrmap) option" where
  "sem_block ts cs e =
     (if cs = [] then Some (fst e, bind_empty_block ts (snd e)) else sem_statements ts cs e)"

lemma run_reopened:
  assumes st: "at_block st (ss @ [Statement ts ch]) below" and cs: "wf_statements P cs"
  shows "runs_to ([(TOKEN_TYPE_START_BLOCK, v)] @ statements_lexemes cs @ [(TOKEN_TYPE_END_BLOCK, w)]) st
           (sem_block ts cs (env_of st)) 0
           (\<lambda>st'. at_block st' (ss @ [Statement ts (Some (Config cs))]) below \<and>
                  last_token_type st' = TOKEN_TYPE_END_BLOCK)"
  unfolding sem_block_def
proof (rule run_body [OF reopen_block [OF st]])
  fix st1 assume "at_block st1 [] (Config (ss @ [Statement ts (Some (Config []))]) # below)"
  from run_tree(2) [OF this cs]
  show "runs_to (statements_lexemes cs) st1 (sem_statements ts cs (env_of st1)) 0
      (block_done [] cs (Config (ss @ [Statement ts (Some (Config []))]) # below) (last_token_type st1))"
    by (simp add: parent_tokens_def)
qed

section \<open>Properties\<close>

text \<open>C4: on a text in which every block follows a word, \<open>Parse\<close> returns true exactly when
  the lexemes of the text, comments left out, are those of a tree with at least one statement,
  no statement without a word and no directive that is not valid; the configuration it fills
  is that tree, and the port and address map are the meaning of the tree.\<close>

theorem Parse_recognises:
  assumes "addrmap_ok m" and "blocks_named TOKEN_TYPE_START (text_lexemes s)"
  shows "Parse (open_stream s) (Config []) m = (Inr True, c, e) \<longleftrightarrow>
    text_lexemes s = statements_lexemes (statements c) @ [(TOKEN_TYPE_EOF, [])] \<and>
    statements c \<noteq> [] \<and> wf_statements (\<lambda>t. t \<noteq> []) (statements c) \<and>
    sem_config c (-1, m) = Some e" (is "?accepted \<longleftrightarrow> ?tree")
proof -
  let ?run = "run_lexemes (text_lexemes s) (parse_init (Config []) m)"
  have tree: "?tree \<longleftrightarrow> tree_text s c \<and> sem_config c (-1, m) = Some e" by (simp add: tree_text_def)
  show ?thesis
  proof
    assume ?accepted
    then obtain st where st: "?run = Accept st" "the_config st = c" "env_of st = e"
      by (auto simp: Parse_lexemes loop_result_True split: prod.splits)
    then have "config_stack st = [c] \<and> tree_text s c"
      using accepted_is_tree [OF assms st(1)] by (auto simp: the_config_def)
    then show ?tree using tree_run [of s c m] st(1,3) tree by (auto split: option.splits)
  next
    assume ?tree
    then obtain st where "?run = Accept st" "config_stack st = [c]" "env_of st = e"
      using tree_run [of s c m] tree by auto
    then show ?accepted by (simp add: Parse_lexemes the_config_def)
  qed
qed

text \<open>The lexemes of the texts of the witnesses.\<close>

lemma sample_tokens:
  "ref_token ''a {#x\<newline> b; }'' = (TOKEN_TYPE_NORMAL, ''a'', '' {#x\<newline> b; }'')"
  "ref_token '' {#x\<newline> b; }'' = (TOKEN_TYPE_START_BLOCK, ''{'', ''#x\<newline> b; }'')"
  "ref_token ''#x\<newline> b; }'' = (TOKEN_TYPE_COMMENT, ''#x'', '' b; }'')"
  "ref_token '' b; }'' = (TOKEN_TYPE_NORMAL, ''b'', ''; }'')"
  "ref_token ''; }'' = (TOKEN_TYPE_STATEMENT_END, '';'', '' }'')"
  "ref_token '' }'' = (TOKEN_TYPE_END_BLOCK, ''}'', [])"
  "ref_token [] = (TOKEN_TYPE_EOF, [], [])"
  by (simp_all add: ref_token_def ref_run_def ends_token_def blank_def line_end_def)

lemma Parse_recognises_witness:
  "Parse (open_stream ''a {#x\<newline> b; }'') (Config []) [] =
     (Inr True, Config [Statement [''a''] (Some (Config [Statement [''b''] None]))], -1, [])"
proof -
  have ls: "text_lexemes ''a {#x\<newline> b; }'' =
      [(TOKEN_TYPE_NORMAL, ''a''), (TOKEN_TYPE_START_BLOCK, ''{''), (TOKEN_TYPE_NORMAL, ''b''),
       (TOKEN_TYPE_STATEMENT_END, '';''), (TOKEN_TYPE_END_BLOCK, ''}''), (TOKEN_TYPE_EOF, [])]"
    by (simp add: text_lexemes.simps sample_tokens)
  have "addrmap_ok []" by (simp add: addrmap_ok_def)
  moreover have "blocks_named TOKEN_TYPE_START (text_lexemes ''a {#x\<newline> b; }'')" by (simp add: ls)
  ultimately show ?thesis
    by (rule iffD2 [OF Parse_recognises]) (simp add: ls sem_config_def)
qed

text \<open>C24: an opening brace that follows a whole statement is accepted: the block it opens
  becomes the block of that statement, in place of the one it had, whose statements are lost
  from the tree although their directives have already taken effect.\<close>

theorem second_block_replaces:
  assumes "text_lexemes s =
      statements_lexemes (ss @ [Statement ts ch]) @ (TOKEN_TYPE_START_BLOCK, ''{'') #
      statements_lexemes cs @ [(TOKEN_TYPE_END_BLOCK, ''}''), (TOKEN_TYPE_EOF, [])]"
    and "wf_statements (\<lambda>t. t \<noteq> []) (ss @ [Statement ts ch])" and "wf_statements (\<lambda>t. t \<noteq> []) cs"
    and "sem_config (Config (ss @ [Statement ts ch])) (-1, m) = Some e1"
    and "sem_block ts cs e1 = Some e"
  shows "Parse (open_stream s) (Config []) m = (Inr True, Config (ss @ [Statement ts (Some (Config cs))]), e)"
proof -
  let ?init = "parse_init (Config []) m" and ?whole = "ss @ [Statement ts ch]"
  have first: "runs_to (statements_lexemes ?whole) ?init (Some e1) 0
      (block_done [] ?whole [] (last_token_type ?init))"
    using run_tree(2) [OF at_block_start assms(2), of m] assms(4)
    by (simp add: sem_config_def env_of_def parse_init_def parent_tokens_def)
  have "runs_to (statements_lexemes ?whole @
      ([(TOKEN_TYPE_START_BLOCK, ''{'')] @ statements_lexemes cs @ [(TOKEN_TYPE_END_BLOCK, ''}'')])) ?init (Some e) 0
      (\<lambda>st'. at_block st' (ss @ [Statement ts (Some (Config cs))]) [] \<and>
             last_token_type st' = TOKEN_TYPE_END_BLOCK)"
  proof (rule runs_to_append [OF first])
    fix st1 assume "block_done [] ?whole [] (last_token_type ?init) st1" "env_of st1 = e1"
    then show "runs_to ([(TOKEN_TYPE_START_BLOCK, ''{'')] @ statements_lexemes cs @ [(TOKEN_TYPE_END_BLOCK, ''}'')]) st1
        (Some e) 0 (\<lambda>st'. at_block st' (ss @ [Statement ts (Some (Config cs))]) [] \<and>
             last_token_type st' = TOKEN_TYPE_END_BLOCK)"
      using run_reopened [OF _ assms(3), of st1 ss ts ch "[]"] assms(5) by (simp add: block_done_def)
  qed simp
  then obtain st where st: "run_lexemes (statements_lexemes ?whole @
      ([(TOKEN_TYPE_START_BLOCK, ''{'')] @ statements_lexemes cs @ [(TOKEN_TYPE_END_BLOCK, ''}'')])) ?init = Loop st"
      "at_block st (ss @ [Statement ts (Some (Config cs))]) []" "last_token_type st = TOKEN_TYPE_END_BLOCK"
      "env_of st = e" "remaining_bracket st = 0"
    by (auto simp: runs_to_def parse_init_def)
  have "text_lexemes s = (statements_lexemes ?whole @
      ([(TOKEN_TYPE_START_BLOCK, ''{'')] @ statements_lexemes cs @ [(TOKEN_TYPE_END_BLOCK, ''}'')])) @
      [(TOKEN_TYPE_EOF, [])]" using assms(1) by simp
  then have "run_lexemes (text_lexemes s) ?init = Accept st"
    using st by (simp only: run_lexemes_append parse_step.case) (simp add: on_eof_def)
  then show ?thesis using st(2,4) by (simp add: Parse_lexemes the_config_def at_block_def)
qed

lemma second_block_replaces_witness:
  "Parse (open_stream ''p { a; } { b; }'') (Config []) [] =
     (Inr True, Config [Statement [''p''] (Some (Config [Statement [''b''] None]))], -1, [])"
proof -
  have tok: "ref_token ''p { a; } { b; }'' = (TOKEN_TYPE_NORMAL, ''p'', '' { a; } { b; }'')"
    "ref_token '' { a; } { b; }'' = (TOKEN_TYPE_START_BLOCK, ''{'', '' a; } { b; }'')"
    "ref_token '' a; } { b; }'' = (TOKEN_TYPE_NORMAL, ''a'', ''; } { b; }'')"
    "ref_token ''; } { b; }'' = (TOKEN_TYPE_STATEMENT_END, '';'', '' } { b; }'')"
    "ref_token '' } { b; }'' = (TOKEN_TYPE_END_BLOCK, ''}'', '' { b; }'')"
    "ref_token '' { b; }'' = (TOKEN_TYPE_START_BLOCK, ''{'', '' b; }'')"
    by (simp_all add: ref_token_def ref_run_def ends_token_def blank_def)
  show ?thesis
    by (rule second_block_replaces [where ss = "[]" and ts = "[''p'']" and
          ch = "Some (Config [Statement [''a''] None])" and cs = "[Statement [''b''] None]" and
          m = "[]" and e = "(-1, [])", simplified append_Nil])
       (simp_all add: text_lexemes.simps tok sample_tokens sem_config_def sem_block_def)
qed

text \<open>
  \<open>ToString\<close> writes the value of a quoted word, not the word: a quote that was read with a
  backslash before it is written without, and ends the word too early. The text \<open>Parse\<close>
  accepted is printed as one it rejects.
\<close>

lemma unquote_inner_quote:
  "list_all (\<lambda>c. c \<noteq> q \<and> c \<noteq> CHR 0x5C) u \<Longrightarrow> q \<noteq> CHR 0x5C \<Longrightarrow> \<not> ends_token x \<Longrightarrow>
     unquote q (u @ q # x # r) = None"
proof (induction u)
  case (Cons c u)
  then show ?case by (cases u) auto
qed simp

theorem inner_quote_not_read_back:
  assumes "q = CHR 0x22 \<or> q = CHR 0x27" and "list_all (\<lambda>c. c \<noteq> q \<and> c \<noteq> CHR 0x5C) u"
    and "\<not> ends_token x" and "w = u @ q # x # v"
  shows "Parse (open_stream (q # escape q w @ [q, CHR '';''])) (Config []) [] =
      (Inr True, Config [Statement [q # w @ [q]] None], -1, [])"
    and "fst (Parse (open_stream (config_to_string 0 (Config [Statement [q # w @ [q]] None]))) (Config []) []) =
      Inr False"
proof -
  have q: "q \<in> {CHR 0x22, CHR 0x27}" "q \<noteq> CHR 0x5C" using assms(1) by auto
  have "ref_token (q # escape q w @ q # '';'') = (TOKEN_TYPE_NORMAL, q # w @ [q], '';'')"
    using ref_token_escape [OF q(1), of "CHR '';''" w "[]"] by (simp add: ends_token_def)
  moreover have "ref_token '';'' = (TOKEN_TYPE_STATEMENT_END, '';'', [])" "ref_token [] = (TOKEN_TYPE_EOF, [], [])"
    by (simp_all add: ref_token_def blank_def)
  ultimately have ls: "text_lexemes (q # escape q w @ [q, CHR '';'']) =
      [(TOKEN_TYPE_NORMAL, q # w @ [q]), (TOKEN_TYPE_STATEMENT_END, '';''), (TOKEN_TYPE_EOF, [])]"
    by (simp add: text_lexemes_step)
  show "Parse (open_stream (q # escape q w @ [q, CHR '';''])) (Config []) [] =
      (Inr True, Config [Statement [q # w @ [q]] None], -1, [])"
    by (rule iffD2 [OF Parse_recognises]) (simp_all add: ls sem_config_def addrmap_ok_def)
  obtain r where "config_to_string 0 (Config [Statement [q # w @ [q]] None]) = q # u @ q # x # r"
    using assms(4) by (simp add: config_to_string_def indent_def)
  moreover have "ref_token (q # u @ q # x # r) = (TOKEN_TYPE_ERROR, [], [])" for r
    using unquote_inner_quote [OF assms(2) q(2) assms(3), of r] q(1)
    by (auto simp: ref_token_def ref_quoted_def blank_def)
  ultimately show "fst (Parse (open_stream (config_to_string 0 (Config [Statement [q # w @ [q]] None]))) (Config []) []) =
      Inr False"
    by (simp add: Parse_lexemes text_lexemes_step split: prod.splits)
qed

lemma inner_quote_not_read_back_witness:
  "fst (Parse (open_stream [CHR 0x22, CHR ''a'', CHR 0x5C, CHR 0x22, CHR ''b'', CHR 0x22, CHR '';'']) (Config []) []) =
      Inr True \<and>
   fst (Parse (open_stream [CHR 0x22, CHR ''a'', CHR 0x22, CHR ''b'', CHR 0x22, CHR '';'', CHR 0x0A]) (Config []) []) =
      Inr False"
  using inner_quote_not_read_back [of "CHR 0x22" "''a''" "CHR ''b''" "[CHR ''a'', CHR 0x22, CHR ''b'']" "[]"]
  by (simp add: ends_token_def escape_def config_to_string_def indent_def)

end
