(* ===== verification/Http.thy ===== *)
theory Http
  imports Prelude
begin

text \<open>
  The messages and the outside world the handlers work with. None of it is code of the
  repository: \<open>http::request\<close> and \<open>http::response\<close> are Boost.Beast's, the files belong to
  the operating system, JSON to nlohmann, the text generator to libcurl. A request is the
  three parts the handlers read of it (and the rest, for printing it). A response is the
  sequence of calls the program makes on the object, last call first; what a client sees of
  it is read off by observers. Everything else is a parameter, a record of functions that
  every definition using it takes as its argument \<open>E\<close>.
\<close>

section \<open>Requests\<close>

datatype verb = Verb_get | Verb_post | Verb_put | Verb_delete | Verb_options | Verb_other string

record request =
  req_method :: verb
  req_target :: string
  req_body :: string
  req_fields :: "(string \<times> string) list"

section \<open>Responses\<close>

datatype http_status =
    St_ok | St_created | St_no_content | St_bad_request | St_not_found
  | St_unprocessable_entity | St_internal_server_error

datatype resp_call =
    Result http_status
  | SetField string string
  | SetBody string
  | PreparePayload

type_synonym response = "resp_call list"

definition result :: "http_status \<Rightarrow> response \<Rightarrow> response" where
  "result s r = Result s # r"

definition set_field :: "string \<Rightarrow> string \<Rightarrow> response \<Rightarrow> response" where
  "set_field f v r = SetField f v # r"

definition set_body :: "string \<Rightarrow> response \<Rightarrow> response" where
  "set_body b r = SetBody b # r"

definition prepare_payload :: "response \<Rightarrow> response" where
  "prepare_payload r = PreparePayload # r"

abbreviation content_type_field :: string where
  "content_type_field \<equiv> ''Content-Type''"

abbreviation allow_origin_field :: string where
  "allow_origin_field \<equiv> ''Access-Control-Allow-Origin''"

text \<open>Observers: the last status, the last value of a field, the last body.\<close>

fun status_of :: "response \<Rightarrow> http_status option" where
  "status_of [] = None"
| "status_of (Result s # r) = Some s"
| "status_of (_ # r) = status_of r"

fun field_of :: "string \<Rightarrow> response \<Rightarrow> string option" where
  "field_of f [] = None"
| "field_of f (SetField g v # r) = (if f = g then Some v else field_of f r)"
| "field_of f (_ # r) = field_of f r"

fun body_of :: "response \<Rightarrow> string" where
  "body_of [] = []"
| "body_of (SetBody b # r) = b"
| "body_of (_ # r) = body_of r"

text \<open>
  \<open>prepare_payload\<close> computes the length field from the body. A response is prepared when it
  is called after the last body was set: without such a call no length is sent, and a body set
  after it is sent with the length of another one.
\<close>

fun prepared :: "response \<Rightarrow> bool" where
  "prepared [] = False"
| "prepared (PreparePayload # r) = True"
| "prepared (SetBody b # r) = False"
| "prepared (_ # r) = prepared r"

definition bodyless :: "response \<Rightarrow> bool" where
  "bodyless r \<longleftrightarrow> (\<forall>b. SetBody b \<notin> set r)"

text \<open>No length is wrong: it was computed from the body that is sent, or no body was set.\<close>

definition length_fits :: "response \<Rightarrow> bool" where
  "length_fits r \<longleftrightarrow> prepared r \<or> bodyless r"

lemma observers [resp_simps, simp]:
  "status_of (result s r) = Some s"
  "status_of (set_field f v r) = status_of r"
  "status_of (set_body b r) = status_of r"
  "status_of (prepare_payload r) = status_of r"
  "field_of f (result s r) = field_of f r"
  "field_of f (set_field g v r) = (if f = g then Some v else field_of f r)"
  "field_of f (set_body b r) = field_of f r"
  "field_of f (prepare_payload r) = field_of f r"
  "body_of (result s r) = body_of r"
  "body_of (set_field f v r) = body_of r"
  "body_of (set_body b r) = b"
  "body_of (prepare_payload r) = body_of r"
  "prepared (result s r) = prepared r"
  "prepared (set_field f v r) = prepared r"
  "\<not> prepared (set_body b r)"
  "prepared (prepare_payload r)"
  "bodyless (result s r) = bodyless r"
  "bodyless (set_field f v r) = bodyless r"
  "\<not> bodyless (set_body b r)"
  "bodyless (prepare_payload r) = bodyless r"
  by (auto simp: result_def set_field_def set_body_def prepare_payload_def bodyless_def)

lemma no_calls [simp]: "bodyless []" "bodyless r \<Longrightarrow> body_of r = []"
proof -
  show "bodyless []" by (simp add: bodyless_def)
  show "bodyless r \<Longrightarrow> body_of r = []"
    by (induction r rule: body_of.induct) (auto simp: bodyless_def)
qed

section \<open>The outside world\<close>

text \<open>
  The operations of the operating system and of the libraries, on a state \<open>'fs\<close> of the
  files and a type \<open>'j\<close> of JSON values. \<open>None\<close> stands for the documented failure of the
  call: an exception of \<open>boost::filesystem\<close> or of \<open>nlohmann::json\<close>, a non-zero result of
  \<open>std::remove\<close>, a \<open>curl_easy_init\<close> that returns a null pointer, a parse error. \<open>curl_post\<close>,
  of a URL, a header and a form text, gives the pieces of the answer that the transfer hands
  to the callback before it ends, whether it ends well or not.
\<close>

record ('fs, 'j) world =
  fs_exists :: "'fs \<Rightarrow> string \<Rightarrow> bool"
  fs_is_directory :: "'fs \<Rightarrow> string \<Rightarrow> bool"
  fs_is_regular :: "'fs \<Rightarrow> string \<Rightarrow> bool"
  fs_create_directory :: "'fs \<Rightarrow> string \<Rightarrow> 'fs option"
  fs_list :: "'fs \<Rightarrow> string \<Rightarrow> (string \<times> bool) list"
  fs_std_remove :: "'fs \<Rightarrow> string \<Rightarrow> 'fs option"
  fs_remove :: "'fs \<Rightarrow> string \<Rightarrow> 'fs option"
  fs_opens :: "'fs \<Rightarrow> string \<Rightarrow> bool"
  fs_tellg_end :: "'fs \<Rightarrow> string \<Rightarrow> int"
  fs_bytes :: "'fs \<Rightarrow> string \<Rightarrow> string"
  fs_write :: "'fs \<Rightarrow> string \<Rightarrow> string \<Rightarrow> 'fs"
  path_extension :: "string \<Rightarrow> string option"
  str_split :: "string \<Rightarrow> string \<Rightarrow> string list"
  str_join :: "string list \<Rightarrow> string \<Rightarrow> string"
  json_empty :: "'j"
  json_put_string :: "'j \<Rightarrow> string \<Rightarrow> string \<Rightarrow> 'j"
  json_put :: "'j \<Rightarrow> string \<Rightarrow> 'j \<Rightarrow> 'j"
  json_get_string :: "'j \<Rightarrow> string \<Rightarrow> string option"
  json_parse :: "string \<Rightarrow> 'j option"
  json_dump :: "'j \<Rightarrow> string option"
  curl_post :: "string \<Rightarrow> string \<Rightarrow> string \<Rightarrow> string list option"
  print_request :: "request \<Rightarrow> string"
  print_response :: "response \<Rightarrow> string"
  parse_http :: "string \<Rightarrow> request option"

end
