(* ===== verification/Request_Handler.thy ===== *)
theory Request_Handler
  imports Http Cpp_Std
begin

text \<open>
  The base class \<open>request_handler\<close> (\<open>include/request_handler.h\<close>, \<open>src/request_handler.cc\<close>):
  the members every handler has and the helpers they share, for files and for the part of a
  target after a handler's prefix.
\<close>

section \<open>Members\<close>

record handler =
  prefix :: string
  dir :: string
  client_ip :: string

definition new_handler :: "string \<Rightarrow> string \<Rightarrow> handler" where
  "new_handler loc rt = \<lparr>prefix = loc, dir = rt, client_ip = []\<rparr>"

definition set_client_ip :: "string \<Rightarrow> handler \<Rightarrow> handler" where
  "set_client_ip ip h = h\<lparr>client_ip := ip\<rparr>"

definition bad_request_msg :: string where
  "bad_request_msg = ''<html><head><title>Bad Request</title></head><body><h1>400 Bad Request</h1></body></html>''"

definition not_found_msg :: string where
  "not_found_msg = ''<html><head><title>Not Found</title></head><body><h1>404 Not Found</h1></body></html>''"

definition internal_server_error_msg :: string where
  "internal_server_error_msg = ''<html><head><title>Internal Server Error</title></head><body><h1>500 Internal Server Error</h1></body></html>''"

section \<open>Files\<close>

text \<open>The new state of the files and whether the call reports success.\<close>

definition write_to_file :: "('fs, 'j) world \<Rightarrow> string \<Rightarrow> string \<Rightarrow> 'fs \<Rightarrow> bool \<times> 'fs" where
  "write_to_file E path content fs =
     (if fs_is_directory E fs path then (False, fs) else (True, fs_write E fs path content))"

text \<open>
  Reading a whole opened file: \<open>tellg\<close> at the end gives a size (\<open>-1\<close> on failure, which
  converts to the largest \<open>size_t\<close>), the string is resized to it, and as many bytes as
  there are overwrite its zeros. A size no string can have makes \<open>resize\<close> throw.
\<close>

definition read_stream :: "('fs, 'j) world \<Rightarrow> string \<Rightarrow> 'fs \<Rightarrow> string outcome" where
  "read_stream E path fs =
     (let n = fs_tellg_end E fs path; b = take (nat n) (fs_bytes E fs path) in
      if n < 0 \<or> 2 ^ 63 - 1 \<le> n then Inl (Uncaught LengthError)
      else Inr (b @ replicate (nat n - length b) (CHR 0x00)))"

text \<open>\<open>None\<close>: the file does not open and the function returns false.\<close>

definition read_from_file :: "('fs, 'j) world \<Rightarrow> string \<Rightarrow> 'fs \<Rightarrow> string option outcome" where
  "read_from_file E path fs =
     (if fs_opens E fs path then
        (case read_stream E path fs of Inl e \<Rightarrow> Inl e | Inr content \<Rightarrow> Inr (Some content))
      else Inr None)"

definition create_dir :: "('fs, 'j) world \<Rightarrow> string \<Rightarrow> 'fs \<Rightarrow> bool \<times> 'fs" where
  "create_dir E path fs =
     (if fs_exists E fs path \<and> fs_is_directory E fs path then (True, fs)
      else case fs_create_directory E fs path of
             None \<Rightarrow> (False, fs)
           | Some fs' \<Rightarrow> (True, fs'))"

section \<open>The part of a target after the prefix\<close>

text \<open>\<open>None\<close> when the function returns false, and the key otherwise.\<close>

definition check_request_url :: "handler \<Rightarrow> string \<Rightarrow> bool \<Rightarrow> string option" where
  "check_request_url h url for_get =
     (let pre = prefix h @ ''/''; pos = find_str pre url in
      if pos \<noteq> None \<and> pos = Some 0 \<and> length pre < length url then
        Some (pop_trailing (CHR ''/'') (drop (length pre) url))
      else if pos \<noteq> None \<and> pos = Some 0 \<and> length url = length pre \<and> for_get then Some []
      else if pre = url @ ''/'' then Some []
      else None)"

text \<open>The accepted targets, and the key of each.\<close>

lemma check_request_url_iff:
  "check_request_url h url for_get = Some key \<longleftrightarrow>
     (\<exists>r. url = prefix h @ ''/'' @ r \<and> r \<noteq> [] \<and> key = pop_trailing (CHR ''/'') r) \<or>
     (url = prefix h @ ''/'' \<and> for_get \<and> key = []) \<or>
     (url = prefix h \<and> key = [])"
proof (cases "is_prefix (prefix h @ ''/'') url")
  case True
  then obtain r where url: "url = prefix h @ ''/'' @ r" by (auto elim: is_prefixE)
  have "find_str (prefix h @ ''/'') (prefix h @ CHR ''/'' # r) = Some 0"
    using True url by (simp add: find_str_0_iff)
  then show ?thesis by (cases r) (auto simp: check_request_url_def url Let_def)
next
  case False
  then have no: "url \<noteq> prefix h @ ''/'' @ r" for r
    using is_prefix_append [of "prefix h @ ''/''" r] by auto
  have "find_str (prefix h @ ''/'') url \<noteq> Some 0" using False by (simp add: find_str_0_iff)
  then show ?thesis using no no [of "[]"] by (auto simp: check_request_url_def Let_def)
qed

lemma check_request_url_suffix:
  "r \<noteq> [] \<Longrightarrow> last r \<noteq> CHR ''/'' \<Longrightarrow> check_request_url h (prefix h @ ''/'' @ r) for_get = Some r"
  by (simp add: check_request_url_iff pop_trailing_id)

text \<open>A key never ends in a slash.\<close>

lemma check_request_url_last: "check_request_url h url g = Some key \<Longrightarrow> key = [] \<or> last key \<noteq> CHR ''/''"
  using pop_trailing_last by (auto simp: check_request_url_iff)

section \<open>Properties\<close>

text \<open>C37: a target is accepted exactly when it is the prefix of the handler, or the prefix and a
  slash with something after it (or with nothing after it, where that is allowed); the key is
  what comes after the slash without the slashes at its end.\<close>

theorem check_request_url_spec:
  "check_request_url h url for_get = Some key \<longleftrightarrow>
     (\<exists>r. url = prefix h @ ''/'' @ r \<and> r \<noteq> [] \<and> key = pop_trailing (CHR ''/'') r) \<or>
     (url = prefix h @ ''/'' \<and> for_get \<and> key = []) \<or>
     (url = prefix h \<and> key = [])"
  by (rule check_request_url_iff)

end
