(* ===== verification/Files.thy ===== *)
theory Files
  imports Request_Handler
begin

text \<open>
  What the handlers rely on the file system for. The files are not code of the repository,
  so their behaviour is a hypothesis, \<open>posix_files E base\<close>, on the functions the handlers
  call: below a directory \<open>base\<close> the server owns (no links, room and permission to write),
  creating, writing and removing change the named entry and no other. \<open>list_works\<close> says the same
  of iterating over a directory. \<open>mem_world\<close> is a
  concrete world that satisfies it.
\<close>

section \<open>Paths and what is at them\<close>

definition valid_name :: "string \<Rightarrow> bool" where
  "valid_name n \<longleftrightarrow> n \<noteq> [] \<and> CHR ''/'' \<notin> set n \<and> n \<noteq> ''.'' \<and> n \<noteq> ''..''"

abbreviation valid_path :: "string list \<Rightarrow> bool" where
  "valid_path ns \<equiv> list_all valid_name ns"

definition path_of :: "string \<Rightarrow> string list \<Rightarrow> string" where
  "path_of base ns = base @ concat (map (\<lambda>n. ''/'' @ n) ns)"

datatype node = DirNode | FileNode string | OtherNode

definition max_file :: int where "max_file = 2 ^ 63 - 1"

definition node_at :: "('fs, 'j) world \<Rightarrow> 'fs \<Rightarrow> string \<Rightarrow> node option" where
  "node_at E fs p =
     (if \<not> fs_exists E fs p then None
      else if fs_is_directory E fs p then Some DirNode
      else if fs_is_regular E fs p \<and> fs_opens E fs p \<and>
              fs_tellg_end E fs p = int (length (fs_bytes E fs p)) \<and> fs_tellg_end E fs p < max_file
        then Some (FileNode (fs_bytes E fs p))
      else Some OtherNode)"

text \<open>Two observations of the files that agree on every path below \<open>base\<close> but one.\<close>

definition updated ::
    "('fs, 'j) world \<Rightarrow> string \<Rightarrow> 'fs \<Rightarrow> string list \<Rightarrow> node option \<Rightarrow> 'fs \<Rightarrow> bool" where
  "updated E base fs ns v fs' \<longleftrightarrow>
     (\<forall>ms. valid_path ms \<longrightarrow>
        node_at E fs' (path_of base ms) = (if ms = ns then v else node_at E fs (path_of base ms)))"

text \<open>Writing into a directory that is there, over nothing or over a file.\<close>

definition write_works :: "('fs, 'j) world \<Rightarrow> string \<Rightarrow> bool" where
  "write_works E base \<longleftrightarrow>
     (\<forall>fs ns n c. valid_path ns \<and> valid_name n \<and> node_at E fs (path_of base ns) = Some DirNode \<and>
        (node_at E fs (path_of base (ns @ [n])) = None \<or>
         (\<exists>b. node_at E fs (path_of base (ns @ [n])) = Some (FileNode b))) \<and>
        int (length c) < max_file \<longrightarrow>
        updated E base fs (ns @ [n]) (Some (FileNode c)) (fs_write E fs (path_of base (ns @ [n])) c))"

text \<open>Making a directory where nothing is; it fails where a file is.\<close>

definition create_works :: "('fs, 'j) world \<Rightarrow> string \<Rightarrow> bool" where
  "create_works E base \<longleftrightarrow>
     (\<forall>fs ns n. valid_path ns \<and> valid_name n \<and> node_at E fs (path_of base ns) = Some DirNode \<and>
        node_at E fs (path_of base (ns @ [n])) = None \<longrightarrow>
        (\<exists>fs'. fs_create_directory E fs (path_of base (ns @ [n])) = Some fs' \<and>
               updated E base fs (ns @ [n]) (Some DirNode) fs'))"

definition create_refuses :: "('fs, 'j) world \<Rightarrow> string \<Rightarrow> bool" where
  "create_refuses E base \<longleftrightarrow>
     (\<forall>fs ns n b. valid_path ns \<and> valid_name n \<and>
        node_at E fs (path_of base (ns @ [n])) = Some (FileNode b) \<longrightarrow>
        fs_create_directory E fs (path_of base (ns @ [n])) = None)"

text \<open>Removing a file, for either of the two calls the program makes.\<close>

definition remove_works ::
    "('fs \<Rightarrow> string \<Rightarrow> 'fs option) \<Rightarrow> ('fs, 'j) world \<Rightarrow> string \<Rightarrow> bool" where
  "remove_works rm E base \<longleftrightarrow>
     (\<forall>fs ns n b. valid_path ns \<and> valid_name n \<and>
        node_at E fs (path_of base (ns @ [n])) = Some (FileNode b) \<longrightarrow>
        (\<exists>fs'. rm fs (path_of base (ns @ [n])) = Some fs' \<and> updated E base fs (ns @ [n]) None fs'))"

definition posix_files :: "('fs, 'j) world \<Rightarrow> string \<Rightarrow> bool" where
  "posix_files E base \<longleftrightarrow>
     (\<forall>fs p. fs_is_directory E fs p \<longrightarrow> fs_exists E fs p) \<and>
     (\<forall>fs p. fs_opens E fs p \<longrightarrow> fs_exists E fs p) \<and>
     (\<forall>fs p. fs_is_regular E fs p \<longrightarrow> fs_exists E fs p) \<and>
     write_works E base \<and> create_works E base \<and> create_refuses E base \<and>
     remove_works (fs_std_remove E) E base \<and> remove_works (fs_remove E) E base"

text \<open>
  Iterating over a directory: each entry once, in some order, with whether it is a regular
  file. (A directory that is there has finitely many entries.)
\<close>

definition names_in :: "('fs, 'j) world \<Rightarrow> 'fs \<Rightarrow> string \<Rightarrow> string set" where
  "names_in E fs p = {n. valid_name n \<and> fs_exists E fs (p @ ''/'' @ n)}"

definition list_works :: "('fs, 'j) world \<Rightarrow> string \<Rightarrow> bool" where
  "list_works E base \<longleftrightarrow>
     (\<forall>fs ns. valid_path ns \<and> node_at E fs (path_of base ns) = Some DirNode \<and>
        finite (names_in E fs (path_of base ns)) \<longrightarrow>
        distinct (map fst (fs_list E fs (path_of base ns))) \<and>
        set (fs_list E fs (path_of base ns)) =
          (\<lambda>n. (n, fs_is_regular E fs (path_of base (ns @ [n])))) ` names_in E fs (path_of base ns))"

section \<open>Facts on paths\<close>

lemma path_of_Nil [simp]: "path_of base [] = base"
  by (simp add: path_of_def)

lemma path_of_snoc: "path_of base (ns @ [n]) = path_of base ns @ ''/'' @ n"
  by (simp add: path_of_def)

lemma path_of_one: "path_of base [n] = base @ ''/'' @ n"
  by (simp add: path_of_def)

lemma path_of_two: "path_of base [m, n] = base @ ''/'' @ m @ ''/'' @ n"
  by (simp add: path_of_def)

lemma append_slash_inject:
  assumes "p @ CHR ''/'' # m = q @ CHR ''/'' # n" and "CHR ''/'' \<notin> set m" and "CHR ''/'' \<notin> set n"
  shows "p = q \<and> m = n"
proof -
  have "Some (length p) = Some (length q)"
    using find_last_of_append_notin [OF assms(2), of p] find_last_of_append_notin [OF assms(3), of q]
    by (simp add: assms(1))
  then show ?thesis using assms(1) by simp
qed

lemma valid_name_no_slash: "valid_name n \<Longrightarrow> CHR ''/'' \<notin> set n"
  by (simp add: valid_name_def)

lemma path_of_inject:
  "valid_path ms \<Longrightarrow> valid_path ns \<Longrightarrow> path_of base ms = path_of base ns \<longleftrightarrow> ms = ns"
proof (induction ms arbitrary: ns rule: rev_induct)
  case Nil
  then show ?case by (auto simp: path_of_def)
next
  case (snoc m ms)
  show ?case
  proof (cases ns rule: rev_cases)
    case Nil
    then show ?thesis by (auto simp: path_of_def)
  next
    case (snoc ns' n)
    then have "CHR ''/'' \<notin> set m" "CHR ''/'' \<notin> set n" "valid_path ns'" "valid_path ms"
      using snoc.prems by (simp_all add: valid_name_no_slash)
    then show ?thesis
      using snoc.IH [of ns'] append_slash_inject [of "path_of base ms" m "path_of base ns'" n] snoc
      by (auto simp: path_of_snoc)
  qed
qed

lemma valid_nameI: "n \<noteq> [] \<Longrightarrow> CHR ''/'' \<notin> set n \<Longrightarrow> CHR ''.'' \<notin> set n \<Longrightarrow> valid_name n"
  by (auto simp: valid_name_def)

lemma valid_name_to_string [simp]: "valid_name (to_string i)"
proof (rule valid_nameI)
  have "CHR ''.'' \<notin> set (nat_str k)" for k
    using nat_str_digits [of k] by (auto simp: list_all_iff is_digit_def)
  then show "CHR ''.'' \<notin> set (to_string i)" by (simp add: to_string_def)
qed simp_all

section \<open>The helpers under the hypothesis\<close>

lemma node_at_DirNode:
  "node_at E fs p = Some DirNode \<longleftrightarrow> fs_exists E fs p \<and> fs_is_directory E fs p"
  by (simp add: node_at_def)

lemma node_at_FileNode:
  "node_at E fs p = Some (FileNode b) \<longleftrightarrow>
     fs_exists E fs p \<and> \<not> fs_is_directory E fs p \<and> fs_is_regular E fs p \<and> fs_opens E fs p \<and>
     fs_tellg_end E fs p = int (length (fs_bytes E fs p)) \<and> fs_tellg_end E fs p < max_file \<and>
     b = fs_bytes E fs p"
  by (auto simp: node_at_def)

lemma node_at_None: "node_at E fs p = None \<longleftrightarrow> \<not> fs_exists E fs p"
  by (simp add: node_at_def)

lemma posix_directory_exists: "posix_files E base \<Longrightarrow> fs_is_directory E fs p \<Longrightarrow> fs_exists E fs p"
  by (simp add: posix_files_def)

lemma updatedD:
  "updated E base fs ns v fs' \<Longrightarrow> valid_path ms \<Longrightarrow>
     node_at E fs' (path_of base ms) = (if ms = ns then v else node_at E fs (path_of base ms))"
  by (simp add: updated_def)

text \<open>Reading what is there.\<close>

lemma read_from_file_FileNode:
  "node_at E fs p = Some (FileNode b) \<Longrightarrow> read_from_file E p fs = Inr (Some b)"
  by (auto simp: node_at_FileNode read_from_file_def read_stream_def max_file_def)

lemma read_from_file_None:
  "posix_files E base \<Longrightarrow> node_at E fs p = None \<Longrightarrow> read_from_file E p fs = Inr None"
  by (auto simp: node_at_None read_from_file_def posix_files_def)

text \<open>Writing a file into a directory that is there, over nothing or over a file.\<close>

lemma write_to_file_spec:
  assumes "posix_files E base" and "valid_path ns" and "valid_name n"
    and "node_at E fs (path_of base ns) = Some DirNode"
    and "node_at E fs (path_of base (ns @ [n])) = None \<or>
         node_at E fs (path_of base (ns @ [n])) = Some (FileNode b)"
    and "int (length c) < max_file"
  shows "\<exists>fs'. write_to_file E (path_of base (ns @ [n])) c fs = (True, fs') \<and>
    updated E base fs (ns @ [n]) (Some (FileNode c)) fs'"
proof -
  have "\<not> fs_is_directory E fs (path_of base (ns @ [n]))"
    using assms(5) posix_directory_exists [OF assms(1)]
    by (auto simp: node_at_None node_at_FileNode)
  moreover have "updated E base fs (ns @ [n]) (Some (FileNode c)) (fs_write E fs (path_of base (ns @ [n])) c)"
    using assms unfolding posix_files_def write_works_def by blast
  ultimately show ?thesis by (simp add: write_to_file_def)
qed

lemma write_to_file_directory:
  "node_at E fs p = Some DirNode \<Longrightarrow> write_to_file E p c fs = (False, fs)"
  by (simp add: write_to_file_def node_at_DirNode)

lemma create_dir_there: "node_at E fs p = Some DirNode \<Longrightarrow> create_dir E p fs = (True, fs)"
  by (simp add: create_dir_def node_at_DirNode)

lemma create_dir_new:
  assumes "posix_files E base" and "valid_path ns" and "valid_name n"
    and "node_at E fs (path_of base ns) = Some DirNode"
    and "node_at E fs (path_of base (ns @ [n])) = None"
  shows "\<exists>fs'. create_dir E (path_of base (ns @ [n])) fs = (True, fs') \<and>
    updated E base fs (ns @ [n]) (Some DirNode) fs'"
proof -
  obtain fs' where "fs_create_directory E fs (path_of base (ns @ [n])) = Some fs'"
      "updated E base fs (ns @ [n]) (Some DirNode) fs'"
    using assms unfolding posix_files_def create_works_def by blast
  then show ?thesis using assms(5) by (auto simp: create_dir_def node_at_None)
qed

lemma create_dir_file:
  assumes "posix_files E base" and "valid_path ns" and "valid_name n"
    and "node_at E fs (path_of base (ns @ [n])) = Some (FileNode b)"
  shows "create_dir E (path_of base (ns @ [n])) fs = (False, fs)"
proof -
  have "fs_create_directory E fs (path_of base (ns @ [n])) = None"
    using assms unfolding posix_files_def create_refuses_def by blast
  then show ?thesis using assms(4) by (simp add: create_dir_def node_at_FileNode)
qed

lemma std_remove_spec:
  assumes "posix_files E base" and "valid_path ns" and "valid_name n"
    and "node_at E fs (path_of base (ns @ [n])) = Some (FileNode b)"
  shows "\<exists>fs'. fs_std_remove E fs (path_of base (ns @ [n])) = Some fs' \<and>
    updated E base fs (ns @ [n]) None fs'"
  using assms unfolding posix_files_def remove_works_def by blast

lemma remove_spec:
  assumes "posix_files E base" and "valid_path ns" and "valid_name n"
    and "node_at E fs (path_of base (ns @ [n])) = Some (FileNode b)"
  shows "\<exists>fs'. fs_remove E fs (path_of base (ns @ [n])) = Some fs' \<and>
    updated E base fs (ns @ [n]) None fs'"
  using assms unfolding posix_files_def remove_works_def by blast

text \<open>The bytes of a regular file.\<close>

definition content_at :: "('fs, 'j) world \<Rightarrow> 'fs \<Rightarrow> string \<Rightarrow> string option" where
  "content_at E fs p = (case node_at E fs p of Some (FileNode b) \<Rightarrow> Some b | _ \<Rightarrow> None)"

lemma content_at_simps [simp]:
  "node_at E fs p = None \<Longrightarrow> content_at E fs p = None"
  "node_at E fs p = Some (FileNode b) \<Longrightarrow> content_at E fs p = Some b"
  by (simp_all add: content_at_def)

end
