(* ===== verification/Mem_World.thy ===== *)
theory Mem_World
  imports Files "HOL-Library.List_Lexorder" "HOL-Library.Char_ord"
begin

text \<open>
  A concrete outside world, for the witnesses: files as a finite table from paths to
  nodes, a JSON value as its text, an HTTP parser that splits a
  request line. It satisfies the hypotheses the properties make.
\<close>

section \<open>Files in memory\<close>

type_synonym mem = "string \<Rightarrow> node option"

definition parent_dir :: "string \<Rightarrow> string" where
  "parent_dir p = (case find_last_of (CHR ''/'') p of None \<Rightarrow> [] | Some n \<Rightarrow> take n p)"

definition mem_write :: "mem \<Rightarrow> string \<Rightarrow> string \<Rightarrow> mem" where
  "mem_write fs p c =
     (if fs (parent_dir p) = Some DirNode \<and> fs p \<noteq> Some DirNode then fs(p \<mapsto> FileNode c) else fs)"

definition mem_create :: "mem \<Rightarrow> string \<Rightarrow> mem option" where
  "mem_create fs p =
     (if fs p = Some DirNode then Some fs
      else if fs p = None \<and> fs (parent_dir p) = Some DirNode then Some (fs(p \<mapsto> DirNode))
      else None)"

definition mem_remove :: "mem \<Rightarrow> string \<Rightarrow> mem option" where
  "mem_remove fs p =
     (case fs p of Some (FileNode _) \<Rightarrow> Some (fs(p := None)) | _ \<Rightarrow> None)"

definition mem_bytes :: "mem \<Rightarrow> string \<Rightarrow> string" where
  "mem_bytes fs p = (case fs p of Some (FileNode b) \<Rightarrow> b | _ \<Rightarrow> [])"

definition is_file_node :: "node option \<Rightarrow> bool" where
  "is_file_node v = (case v of Some (FileNode _) \<Rightarrow> True | _ \<Rightarrow> False)"

definition mem_list :: "mem \<Rightarrow> string \<Rightarrow> (string \<times> bool) list" where
  "mem_list fs p =
     map (\<lambda>n. (n, is_file_node (fs (p @ ''/'' @ n))))
       (sorted_list_of_set {n. valid_name n \<and> fs (p @ ''/'' @ n) \<noteq> None})"

section \<open>Strings and messages\<close>

fun mem_split :: "string \<Rightarrow> string \<Rightarrow> string list" where
  "mem_split [] ds = [[]]"
| "mem_split (c # s) ds =
     (if c \<in> set ds then [] # mem_split s ds
      else case mem_split s ds of [] \<Rightarrow> [[c]] | w # ws \<Rightarrow> (c # w) # ws)"

fun mem_join :: "string list \<Rightarrow> string \<Rightarrow> string" where
  "mem_join [] sep = []"
| "mem_join [w] sep = w"
| "mem_join (w # v # ws) sep = w @ sep @ mem_join (v # ws) sep"

text \<open>Only requests of the form \<open>METHOD target\<close> and a line end, with nothing after it.\<close>

definition mem_parse_http :: "string \<Rightarrow> request option" where
  "mem_parse_http s =
     (case mem_split s [CHR '' '', CHR 0x0A] of
        [m, t, b] \<Rightarrow>
          Some \<lparr>req_method = (if m = ''GET'' then Verb_get else if m = ''POST'' then Verb_post
                              else if m = ''PUT'' then Verb_put
                              else if m = ''DELETE'' then Verb_delete else Verb_other m),
                req_target = t, req_body = b, req_fields = []\<rparr>
      | _ \<Rightarrow> None)"

definition mem_extension :: "string \<Rightarrow> string option" where
  "mem_extension p =
     (case find_last_of (CHR ''.'') p of None \<Rightarrow> None | Some n \<Rightarrow> Some (drop n p))"

definition mem_world :: "(mem, string) world" where
  "mem_world =
     \<lparr>fs_exists = (\<lambda>fs p. fs p \<noteq> None),
      fs_is_directory = (\<lambda>fs p. fs p = Some DirNode),
      fs_is_regular = (\<lambda>fs p. is_file_node (fs p)),
      fs_create_directory = mem_create,
      fs_list = mem_list,
      fs_std_remove = mem_remove,
      fs_remove = mem_remove,
      fs_opens = (\<lambda>fs p. is_file_node (fs p)),
      fs_tellg_end = (\<lambda>fs p. int (length (mem_bytes fs p))),
      fs_bytes = mem_bytes,
      fs_write = mem_write,
      path_extension = mem_extension,
      str_split = mem_split,
      str_join = mem_join,
      json_empty = [],
      json_put_string = (\<lambda>j k v. j @ k @ '':'' @ v @ '';''),
      json_put = (\<lambda>j k v. j @ k @ '':'' @ v @ '';''),
      json_get_string = (\<lambda>j k. Some j),
      json_parse = Some,
      json_dump = Some,
      curl_post = (\<lambda>url key s. Some [s]),
      print_request = req_body,
      print_response = body_of,
      parse_http = mem_parse_http\<rparr>"

section \<open>The hypothesis holds\<close>

lemma node_at_mem:
  "node_at mem_world fs p =
     (case fs p of
        None \<Rightarrow> None
      | Some DirNode \<Rightarrow> Some DirNode
      | Some (FileNode b) \<Rightarrow> if int (length b) < max_file then Some (FileNode b) else Some OtherNode
      | Some OtherNode \<Rightarrow> Some OtherNode)"
  by (auto simp: node_at_def mem_world_def is_file_node_def mem_bytes_def split: option.splits node.splits)

lemma node_at_mem_DirNode [simp]: "node_at mem_world fs p = Some DirNode \<longleftrightarrow> fs p = Some DirNode"
  by (auto simp: node_at_mem split: option.splits node.splits)

lemma node_at_mem_None [simp]: "node_at mem_world fs p = None \<longleftrightarrow> fs p = None"
  by (auto simp: node_at_mem split: option.splits node.splits)

lemma node_at_mem_FileNode: "node_at mem_world fs p = Some (FileNode b) \<Longrightarrow> fs p = Some (FileNode b)"
  by (auto simp: node_at_mem split: option.splits node.splits if_splits)

lemma parent_dir_path_of:
  "valid_name n \<Longrightarrow> parent_dir (path_of base (ns @ [n])) = path_of base ns"
  using find_last_of_append_notin [OF valid_name_no_slash]
  by (simp add: parent_dir_def path_of_snoc)

lemma updated_mem:
  assumes "valid_path ns" and "\<And>p. node_at mem_world fs' p =
      (if p = path_of base ns then v else node_at mem_world fs p)"
  shows "updated mem_world base fs ns v fs'"
  using assms path_of_inject by (auto simp: updated_def)

lemma updated_mem_upd:
  assumes "valid_path ns" and "case v of Some (FileNode b) \<Rightarrow> int (length b) < max_file | _ \<Rightarrow> True"
  shows "updated mem_world base fs ns v (fs(path_of base ns := v))"
  by (rule updated_mem [OF assms(1)]) (use assms(2) in \<open>auto simp: node_at_mem split: option.splits node.splits\<close>)

lemma mem_world_files [simp]:
  "fs_create_directory mem_world = mem_create" "fs_write mem_world = mem_write"
  "fs_std_remove mem_world = mem_remove" "fs_remove mem_world = mem_remove"
  by (simp_all add: mem_world_def)

lemma posix_mem_world: "posix_files mem_world base"
proof -
  have "write_works mem_world base"
    using updated_mem_upd [of "_ @ [_]" "Some (FileNode _)"]
    by (auto simp: write_works_def mem_write_def parent_dir_path_of dest: node_at_mem_FileNode)
  moreover have "create_works mem_world base"
    using updated_mem_upd [of "_ @ [_]" "Some DirNode"]
    by (auto simp: create_works_def mem_create_def parent_dir_path_of)
  moreover have "create_refuses mem_world base"
    by (auto simp: create_refuses_def mem_create_def dest: node_at_mem_FileNode)
  moreover have "remove_works mem_remove mem_world base"
    using updated_mem_upd [of "_ @ [_]" None]
    by (auto simp: remove_works_def mem_remove_def dest: node_at_mem_FileNode)
  ultimately show ?thesis
    by (auto simp: posix_files_def) (auto simp: mem_world_def is_file_node_def split: option.splits)
qed

lemma list_mem_world: "list_works mem_world base"
proof -
  have names: "names_in mem_world fs p = {n. valid_name n \<and> fs (p @ ''/'' @ n) \<noteq> None}" for fs p
    by (simp add: names_in_def mem_world_def)
  have listed: "fs_list mem_world fs p =
      map (\<lambda>n. (n, fs_is_regular mem_world fs (p @ ''/'' @ n))) (sorted_list_of_set (names_in mem_world fs p))" for fs p
    unfolding names by (simp add: mem_world_def mem_list_def)
  show ?thesis unfolding list_works_def listed path_of_snoc by (simp add: comp_def)
qed

end
