(* ===== verification/Simple_Handlers.thy ===== *)
theory Simple_Handlers
  imports Mem_World Std_Map "HOL-Library.Word"
begin

text \<open>
  The handlers that keep no state: static files (\<open>src/request_handler_static.cc\<close> with
  \<open>src/content_type.cc\<close>), echo, health, not-found and block. The locale
  \<open>handler_contract\<close> is what a session relies on from every handler.
\<close>

section \<open>What a session relies on\<close>

text \<open>
  \<open>handle s req r\<close> handles \<open>req\<close> in the state \<open>s\<close> (files and whatever the handler keeps)
  and adds its calls to the response \<open>r\<close>. If it returns, whatever it returns, the response
  has a status, its length was computed from its body (only the answer to \<open>OPTIONS\<close> has neither
  body nor length), and the field the session set before the call still allows every origin.
\<close>

locale handler_contract =
  fixes handle :: "'s \<Rightarrow> request \<Rightarrow> response \<Rightarrow> bool outcome \<times> response \<times> 's"
  assumes has_status: "handle s req r = (Inr b, r', s') \<Longrightarrow> status_of r' \<noteq> None"
    and sets_length: "handle s req r = (Inr b, r', s') \<Longrightarrow>
          prepared r' \<or> req_method req = Verb_options \<and> (bodyless r \<longrightarrow> bodyless r')"
    and keeps_origin: "handle s req r = (Inr b, r', s') \<Longrightarrow>
          field_of allow_origin_field r = Some ''*'' \<Longrightarrow> field_of allow_origin_field r' = Some ''*''"
begin

text \<open>What the client sees of a response that started as the session starts it.\<close>

lemma answer_complete:
  assumes "handle s req (set_field allow_origin_field ''*'' []) = (Inr b, r', s')"
  shows "(\<exists>st. status_of r' = Some st) \<and> length_fits r' \<and> field_of allow_origin_field r' = Some ''*''"
    and "req_method req \<noteq> Verb_options \<Longrightarrow> prepared r'"
  using has_status [OF assms] sets_length [OF assms] keeps_origin [OF assms] by (auto simp: length_fits_def)

end

section \<open>Content types\<close>

definition content_type_map :: "string smap" where
  "content_type_map = fold (\<lambda>(k, v). map_assign k v)
     [(''.html'', ''text/html''), (''.htm'', ''text/html''), (''.txt'', ''text/plain''),
      (''.jpg'', ''image/jpeg''), (''.jpeg'', ''image/jpeg''), (''.png'', ''image/png''),
      (''.gif'', ''image/gif''), (''.zip'', ''application/zip''), (''.css'', ''text/css''),
      (''.js'', ''text/javascript'')] []"

definition get_content_type :: "string \<Rightarrow> string" where
  "get_content_type extension =
     (case map_find content_type_map extension of None \<Rightarrow> ''text/plain'' | Some t \<Rightarrow> t)"

definition set_content_type :: "('fs, 'j) world \<Rightarrow> string \<Rightarrow> response \<Rightarrow> response" where
  "set_content_type E file_path r =
     (let extension = (case path_extension E file_path of None \<Rightarrow> [] | Some e \<Rightarrow> e)
      in set_field content_type_field (get_content_type extension) r)"

section \<open>Static files\<close>

text \<open>The file a target stands for, \<open>None\<close> when the target is not below the prefix.\<close>

definition static_path :: "handler \<Rightarrow> string \<Rightarrow> string option" where
  "static_path h target =
     (let pre = prefix h @ ''/''; pos = find_str pre target in
      if pos \<noteq> None \<and> pos = Some 0 \<and> length pre < length target then
        Some (pop_trailing (CHR ''/'') (dir h @ ''/'' @ drop (length pre) target))
      else None)"

definition static_not_found :: "response \<Rightarrow> response" where
  "static_not_found r =
     prepare_payload (set_body not_found_msg (set_field content_type_field ''text/html'' (result St_not_found r)))"

definition static_handle ::
    "('fs, 'j) world \<Rightarrow> handler \<Rightarrow> 'fs \<Rightarrow> request \<Rightarrow> response \<Rightarrow> bool outcome \<times> response \<times> 'fs" where
  "static_handle E h fs req r =
     (case static_path h (req_target req) of
        Some path \<Rightarrow>
          if fs_opens E fs path then
            (case read_stream E path fs of
               Inl e \<Rightarrow> (Inl e, r, fs)
             | Inr content \<Rightarrow>
                 (Inr True,
                  prepare_payload (set_body content (set_content_type E path (result St_ok r))), fs))
          else (Inr False, static_not_found r, fs)
      | None \<Rightarrow> (Inr False, static_not_found r, fs))"

section \<open>Echo, health, not found\<close>

definition echo_handle ::
    "('fs, 'j) world \<Rightarrow> handler \<Rightarrow> 'fs \<Rightarrow> request \<Rightarrow> response \<Rightarrow> bool outcome \<times> response \<times> 'fs" where
  "echo_handle E h fs req r =
     (Inr True,
      prepare_payload (set_field content_type_field ''text/plain''
        (set_body (print_request E req) (result St_ok r))), fs)"

definition health_handle ::
    "handler \<Rightarrow> 'fs \<Rightarrow> request \<Rightarrow> response \<Rightarrow> bool outcome \<times> response \<times> 'fs" where
  "health_handle h fs req r =
     (Inr True,
      prepare_payload (set_field content_type_field ''text/plain'' (set_body ''OK'' (result St_ok r))), fs)"

definition not_found_handle ::
    "handler \<Rightarrow> 'fs \<Rightarrow> request \<Rightarrow> response \<Rightarrow> bool outcome \<times> response \<times> 'fs" where
  "not_found_handle h fs req r =
     (Inr True,
      prepare_payload (set_body not_found_msg
        (result St_not_found (set_field content_type_field ''text/html'' r))), fs)"

section \<open>Block\<close>

text \<open>The seconds to sleep: the number after the last slash, one when there is none.\<close>

definition after_last_slash :: "string \<Rightarrow> string" where
  "after_last_slash s =
     (case find_last_of (CHR ''/'') s of None \<Rightarrow> s | Some n \<Rightarrow> drop (n + 1) s)"

definition block_time :: "string \<Rightarrow> int" where
  "block_time target = (case stoi (after_last_slash target) of Inl _ \<Rightarrow> 1 | Inr n \<Rightarrow> n)"

text \<open>\<open>sleep\<close> takes an \<open>unsigned int\<close>: the argument is converted modulo \<open>2 ^ 32\<close>.\<close>

definition sleep_argument :: "int \<Rightarrow> 32 word" where
  "sleep_argument n = word_of_int n"

definition block_handle ::
    "handler \<Rightarrow> 'fs \<Rightarrow> request \<Rightarrow> response \<Rightarrow> bool outcome \<times> response \<times> 'fs" where
  "block_handle h fs req r =
     (let n = block_time (req_target req) in
      (Inr True,
       prepare_payload (set_field content_type_field ''text/plain''
         (set_body (''Sleep '' @ to_string n @ ''s!'' @ [CHR 0x0A]) (result St_ok r))), fs))"

definition block_sleeps :: "request \<Rightarrow> 32 word" where
  "block_sleeps req = sleep_argument (block_time (req_target req))"

section \<open>The contract\<close>

interpretation static: handler_contract "static_handle E h" for E h
  by unfold_locales
     (auto simp: static_handle_def static_not_found_def set_content_type_def Let_def
       split: option.splits if_splits sum.splits)

interpretation echo: handler_contract "echo_handle E h" for E h
  by unfold_locales (auto simp: echo_handle_def)

interpretation health: handler_contract "health_handle h" for h
  by unfold_locales (auto simp: health_handle_def)

interpretation not_found: handler_contract "not_found_handle h" for h
  by unfold_locales (auto simp: not_found_handle_def)

interpretation block: handler_contract "block_handle h" for h
  by unfold_locales (auto simp: block_handle_def Let_def)

section \<open>What the static handler serves\<close>

lemma static_path_iff:
  "static_path h target = Some p \<longleftrightarrow>
     (\<exists>r. r \<noteq> [] \<and> target = prefix h @ ''/'' @ r \<and> p = pop_trailing (CHR ''/'') (dir h @ ''/'' @ r))"
proof (cases "is_prefix (prefix h @ ''/'') target")
  case True
  then obtain r where t: "target = prefix h @ ''/'' @ r" by (auto elim: is_prefixE)
  have "find_str (prefix h @ ''/'') (prefix h @ CHR ''/'' # r) = Some 0"
    using True t by (simp add: find_str_0_iff)
  then show ?thesis by (cases r) (auto simp: static_path_def t Let_def)
next
  case False
  then have no: "target \<noteq> prefix h @ ''/'' @ r" for r
    using is_prefix_append [of "prefix h @ ''/''" r] by auto
  have "find_str (prefix h @ ''/'') target \<noteq> Some 0" using False by (simp add: find_str_0_iff)
  then show ?thesis using no by (auto simp: static_path_def Let_def)
qed

lemma block_time_number:
  "int_min \<le> n \<Longrightarrow> n \<le> int_max \<Longrightarrow>
     block_time (p @ ''/'' @ to_string n) = n"
  by (simp add: block_time_def after_last_slash_def find_last_of_append_notin stoi_to_string)

text \<open>A file that is there is sent as it is.\<close>

lemma static_serves:
  assumes "static_path h (req_target req) = Some p" and "node_at E fs p = Some (FileNode b)"
  shows "\<exists>r'. static_handle E h fs req r = (Inr True, r', fs) \<and> status_of r' = Some St_ok \<and> body_of r' = b"
proof -
  have "fs_opens E fs p" "read_stream E p fs = Inr b"
    using assms(2) read_from_file_FileNode [OF assms(2)]
    by (auto simp: node_at_FileNode read_from_file_def split: sum.splits)
  then show ?thesis using assms(1) by (simp add: static_handle_def set_content_type_def Let_def)
qed

lemma static_path_suffix:
  "x \<noteq> [] \<Longrightarrow> last x \<noteq> CHR ''/'' \<Longrightarrow> static_path h (prefix h @ ''/'' @ x) = Some (dir h @ ''/'' @ x)"
  by (simp add: static_path_iff pop_trailing_id)

section \<open>Properties\<close>

text \<open>The static handler takes a target for a file exactly when it is the prefix, a slash and
  something more; the file is the rest below the root, without slashes at the end.\<close>

theorem static_path_spec:
  "static_path h target = Some p \<longleftrightarrow>
     (\<exists>r. r \<noteq> [] \<and> target = prefix h @ ''/'' @ r \<and> p = pop_trailing (CHR ''/'') (dir h @ ''/'' @ r))"
  by (rule static_path_iff)

text \<open>C38: a target with \<open>..\<close> in it is served from outside the root.\<close>

theorem static_serves_above_root:
  assumes "x \<noteq> []" and "last x \<noteq> CHR ''/''" and "req_target req = prefix h @ ''/../'' @ x"
    and "node_at E fs (dir h @ ''/../'' @ x) = Some (FileNode b)"
  shows "\<exists>r'. static_handle E h fs req r = (Inr True, r', fs) \<and> status_of r' = Some St_ok \<and> body_of r' = b"
  using static_serves [of h req "dir h @ ''/../'' @ x" E fs b r] static_path_suffix [of "''../'' @ x" h] assms
  by simp

lemma static_serves_above_root_witness:
  "\<exists>r'. static_handle mem_world (new_handler ''/static'' ''d'') [''d/../key'' \<mapsto> FileNode ''k'']
      \<lparr>req_method = Verb_get, req_target = ''/static/../key'', req_body = [], req_fields = []\<rparr> [] =
        (Inr True, r', [''d/../key'' \<mapsto> FileNode ''k'']) \<and>
     status_of r' = Some St_ok \<and> body_of r' = ''k''"
  by (rule static_serves_above_root [where x = "''key''"])
     (simp_all add: new_handler_def node_at_mem max_file_def)

text \<open>C39: the block handler sleeps the seconds its target names; a negative number wraps around
  to more than two thousand million seconds.\<close>

theorem block_sleep_time:
  assumes "req_target req = p @ ''/'' @ to_string n" and "int_min \<le> n" and "n \<le> int_max"
  shows "uint (block_sleeps req) = (if 0 \<le> n then n else n + 2 ^ 32)"
proof -
  have "uint (word_of_int n :: 32 word) = n mod 2 ^ 32" by (simp add: uint_word_of_int)
  moreover have "n mod 2 ^ 32 = (if 0 \<le> n then n else n + 2 ^ 32)"
  proof (cases "0 \<le> n")
    case False
    have "n mod 2 ^ 32 = (n + 2 ^ 32) mod 2 ^ 32" by simp
    also have "\<dots> = n + 2 ^ 32" using False assms(2) by (intro mod_pos_pos_trivial) (simp_all add: int_min_def)
    finally show ?thesis using False by simp
  qed (use assms(3) in \<open>simp add: int_max_def\<close>)
  moreover have "block_time (req_target req) = n"
    using block_time_number [OF assms(2,3), of p] assms(1) by simp
  ultimately show ?thesis by (simp add: block_sleeps_def sleep_argument_def)
qed

lemma block_sleep_time_witness:
  "uint (block_sleeps \<lparr>req_method = Verb_get, req_target = ''/sleep/-1'', req_body = [], req_fields = []\<rparr>) = 4294967295"
proof -
  have "to_string (-1) = ''-1''" by code_simp
  then show ?thesis
    using block_sleep_time [of "\<lparr>req_method = Verb_get, req_target = ''/sleep/-1'', req_body = [], req_fields = []\<rparr>"
        "''/sleep''" "-1"]
    by (simp add: int_min_def int_max_def)
qed

end
