(* ===== verification/Refinement.thy ===== *)
theory Refinement
  imports Prelude
begin

text \<open>
  Sequences of operations and forward simulation. A component with a state is a function
  from a state and an operation to a reply and the next state. The locale \<open>refinement\<close>
  relates such a component to an abstract one step by step; inside it the relation is
  lifted to sequences of operations.
\<close>

fun run_ops :: "('s \<Rightarrow> 'op \<Rightarrow> 'r \<times> 's) \<Rightarrow> 's \<Rightarrow> 'op list \<Rightarrow> 'r list \<times> 's" where
  "run_ops step s [] = ([], s)"
| "run_ops step s (x # xs) =
     (case step s x of (r, s1) \<Rightarrow> case run_ops step s1 xs of (rs, s2) \<Rightarrow> (r # rs, s2))"

lemma run_ops_append:
  "run_ops step s (xs @ ys) =
     (case run_ops step s xs of (rs, s1) \<Rightarrow> case run_ops step s1 ys of (qs, s2) \<Rightarrow> (rs @ qs, s2))"
  by (induction xs arbitrary: s) (auto split: prod.splits)

text \<open>A step that looks at a part \<open>g x\<close> of each operation runs on those parts.\<close>

lemma run_ops_map: "run_ops (\<lambda>s x. step s (g x)) s xs = run_ops step s (map g xs)"
  by (induction xs arbitrary: s) (simp_all split: prod.split)

locale invariant =
  fixes step :: "'s \<Rightarrow> 'op \<Rightarrow> 'r \<times> 's"
    and inv :: "'s \<Rightarrow> bool"
    and op_ok :: "'op \<Rightarrow> bool"
  assumes preserves: "inv s \<Longrightarrow> op_ok x \<Longrightarrow> inv (snd (step s x))"
begin

lemma run_preserves: "inv s \<Longrightarrow> list_all op_ok xs \<Longrightarrow> inv (snd (run_ops step s xs))"
proof (induction xs arbitrary: s)
  case (Cons x xs)
  then have "inv (snd (run_ops step (snd (step s x)) xs))" by (simp add: preserves)
  then show ?case by (simp add: case_prod_beta)
qed simp

end

text \<open>A reply \<open>r\<close> of the detailed component shows a reply \<open>p\<close> of the abstract one.\<close>

locale refinement = invariant step inv op_ok
  for step :: "'s \<Rightarrow> 'op \<Rightarrow> 'r \<times> 's" and inv op_ok +
  fixes spec :: "'a \<Rightarrow> 'op \<Rightarrow> 'p \<times> 'a"
    and abs_of :: "'s \<Rightarrow> 'a"
    and reply_ok :: "'p \<Rightarrow> 'r \<Rightarrow> bool"
  assumes simulates: "inv s \<Longrightarrow> op_ok x \<Longrightarrow> abs_of (snd (step s x)) = snd (spec (abs_of s) x)"
    and answers: "inv s \<Longrightarrow> op_ok x \<Longrightarrow> reply_ok (fst (spec (abs_of s) x)) (fst (step s x))"
begin

lemma run_simulates:
  assumes "inv s" and "list_all op_ok xs"
  shows "inv (snd (run_ops step s xs)) \<and>
    abs_of (snd (run_ops step s xs)) = snd (run_ops spec (abs_of s) xs) \<and>
    list_all2 reply_ok (fst (run_ops spec (abs_of s) xs)) (fst (run_ops step s xs))"
  using assms
proof (induction xs arbitrary: s)
  case (Cons x xs)
  let ?s = "snd (step s x)"
  have ok: "inv s" "op_ok x" "list_all op_ok xs" using Cons.prems by simp_all
  have "inv ?s" using ok by (simp add: preserves)
  from Cons.IH [OF this ok(3)] show ?case
    using simulates [OF ok(1,2)] answers [OF ok(1,2)]
    by (simp add: case_prod_beta)
qed simp

end

text \<open>
  A component that serves several keys, such as the clients of a service. For each good key
  it refines the abstract component of that key, and serving one key changes nothing for
  the others. Together the abstract components are a function from keys to their states.
\<close>

definition family_step :: "('k \<Rightarrow> 's \<Rightarrow> 'op \<Rightarrow> 'r \<times> 's) \<Rightarrow> 's \<Rightarrow> 'k \<times> 'op \<Rightarrow> 'r \<times> 's" where
  "family_step step s q = step (fst q) s (snd q)"

definition family_spec ::
    "('k \<Rightarrow> 'a \<Rightarrow> 'op \<Rightarrow> 'p \<times> 'a) \<Rightarrow> ('k \<Rightarrow> 'a) \<Rightarrow> 'k \<times> 'op \<Rightarrow> ('k \<times> 'p) \<times> ('k \<Rightarrow> 'a)" where
  "family_spec spec S q =
     (case spec (fst q) (S (fst q)) (snd q) of (p, a) \<Rightarrow> ((fst q, p), S(fst q := a)))"

definition family_inv :: "('k \<Rightarrow> bool) \<Rightarrow> ('k \<Rightarrow> 's \<Rightarrow> bool) \<Rightarrow> 's \<Rightarrow> bool" where
  "family_inv good ok s \<longleftrightarrow> (\<forall>k. good k \<longrightarrow> ok k s)"

definition family_ok :: "('k \<Rightarrow> bool) \<Rightarrow> ('k \<Rightarrow> 'op \<Rightarrow> bool) \<Rightarrow> 'k \<times> 'op \<Rightarrow> bool" where
  "family_ok good op_ok q \<longleftrightarrow> good (fst q) \<and> op_ok (fst q) (snd q)"

definition family_abs :: "('k \<Rightarrow> bool) \<Rightarrow> 'a \<Rightarrow> ('k \<Rightarrow> 's \<Rightarrow> 'a) \<Rightarrow> 's \<Rightarrow> 'k \<Rightarrow> 'a" where
  "family_abs good unused abs_of s k = (if good k then abs_of k s else unused)"

definition family_reply_ok :: "('k \<Rightarrow> 'p \<Rightarrow> 'r \<Rightarrow> bool) \<Rightarrow> 'k \<times> 'p \<Rightarrow> 'r \<Rightarrow> bool" where
  "family_reply_ok reply_ok p r \<longleftrightarrow> reply_ok (fst p) (snd p) r"

lemmas family_defs =
  family_step_def family_spec_def family_inv_def family_ok_def family_abs_def family_reply_ok_def

locale refinement_family =
  fixes good :: "'k \<Rightarrow> bool"
    and step :: "'k \<Rightarrow> 's \<Rightarrow> 'op \<Rightarrow> 'r \<times> 's"
    and inv :: "'k \<Rightarrow> 's \<Rightarrow> bool"
    and op_ok :: "'k \<Rightarrow> 'op \<Rightarrow> bool"
    and spec :: "'k \<Rightarrow> 'a \<Rightarrow> 'op \<Rightarrow> 'p \<times> 'a"
    and abs_of :: "'k \<Rightarrow> 's \<Rightarrow> 'a"
    and reply_ok :: "'k \<Rightarrow> 'p \<Rightarrow> 'r \<Rightarrow> bool"
    and unused :: 'a
  assumes each: "good k \<Longrightarrow> refinement (step k) (inv k) (op_ok k) (spec k) (abs_of k) (reply_ok k)"
    and others_kept: "good k \<Longrightarrow> good j \<Longrightarrow> j \<noteq> k \<Longrightarrow> inv k s \<Longrightarrow> inv j s \<Longrightarrow> op_ok k x \<Longrightarrow>
      inv j (snd (step k s x)) \<and> abs_of j (snd (step k s x)) = abs_of j s"
begin

lemma family_one:
  assumes "family_inv good inv s" and "family_ok good op_ok q"
  shows "family_inv good inv (snd (family_step step s q)) \<and>
    family_abs good unused abs_of (snd (family_step step s q)) =
      snd (family_spec spec (family_abs good unused abs_of s) q) \<and>
    family_reply_ok reply_ok (fst (family_spec spec (family_abs good unused abs_of s) q)) (fst (family_step step s q))"
proof -
  obtain k x where q: "q = (k, x)" by force
  have k: "good k" "inv k s" "op_ok k x" using assms by (simp_all add: q family_inv_def family_ok_def)
  have rest: "inv j (snd (step k s x))" "abs_of j (snd (step k s x)) = abs_of j s" if "good j" "j \<noteq> k" for j
    using others_kept [OF k(1) that k(2) _ k(3)] assms(1) that(1) by (simp_all add: family_inv_def)
  note one = refinement.simulates [OF each [OF k(1)] k(2,3)] refinement.answers [OF each [OF k(1)] k(2,3)]
    invariant.preserves [OF refinement.axioms(1) [OF each [OF k(1)]] k(2,3)]
  have "inv j (snd (step k s x))" if "good j" for j
    using rest(1) [OF that] one(3) by (cases "j = k") simp_all
  moreover have "family_abs good unused abs_of (snd (step k s x)) =
      (family_abs good unused abs_of s)(k := snd (spec k (abs_of k s) x))"
    using one(1) rest(2) k(1) by (auto simp: family_abs_def)
  ultimately show ?thesis
    using one(2) k(1) by (simp add: family_defs q case_prod_beta)
qed

end

sublocale refinement_family \<subseteq> family: refinement "family_step step" "family_inv good inv" "family_ok good op_ok"
    "family_spec spec" "family_abs good unused abs_of" "family_reply_ok reply_ok"
  by unfold_locales (simp_all add: family_one)

end
