(* ===== verification/Crud.thy ===== *)
theory Crud
  imports Simple_Handlers Refinement
begin

text \<open>
  The CRUD handler, \<open>src/request_handler_crud.cc\<close>. Its state is the files and the map
  \<open>file_to_id_\<close> from entities to the ids in use, which the factory owns and every handler
  of the route shares by reference.
\<close>

type_synonym ids = "int list smap"

section \<open>The map of ids\<close>

text \<open>\<open>insert_to_map\<close>: false when the entity is unknown or has the id already.\<close>

definition insert_to_map :: "string \<Rightarrow> int \<Rightarrow> ids \<Rightarrow> bool \<times> ids" where
  "insert_to_map key i m =
     (case map_find m key of
        None \<Rightarrow> (False, m)
      | Some id_names \<Rightarrow>
          if i \<notin> set id_names then (True, map_assign key (sort (id_names @ [i])) m)
          else (False, m))"

text \<open>The loop of \<open>get_next_id\<close> over the ids of an entity.\<close>

fun lowest_available :: "int \<Rightarrow> int list \<Rightarrow> int" where
  "lowest_available l [] = l"
| "lowest_available l (x # xs) = lowest_available (if x = l then l + 1 else l) xs"

definition get_next_id :: "string \<Rightarrow> ids \<Rightarrow> int \<times> ids" where
  "get_next_id key m =
     (case map_find m key of
        None \<Rightarrow> (1, map_assign key [1] m)
      | Some v \<Rightarrow>
          (let n = lowest_available 1 v in (n, snd (insert_to_map key n m))))"

section \<open>Responses\<close>

definition id_text :: "int \<Rightarrow> string" where
  "id_text n = ''{'' @ [CHR 0x22] @ ''id'' @ [CHR 0x22] @ '':'' @ to_string n @ ''}'' @ [CHR 0x0A]"

definition prepare_created_response :: "int \<Rightarrow> response \<Rightarrow> response" where [prepare_defs]:
  "prepare_created_response n r =
     prepare_payload (set_body (''Created entry at '' @ id_text n)
       (set_field content_type_field ''text/plain'' (result St_created r)))"

definition prepare_updated_response :: "int \<Rightarrow> response \<Rightarrow> response" where [prepare_defs]:
  "prepare_updated_response n r =
     prepare_payload (set_body (''Updated entry at '' @ id_text n) (result St_ok r))"

definition prepare_unprocessable_entity_response :: "response \<Rightarrow> response" where [prepare_defs]:
  "prepare_unprocessable_entity_response r =
     prepare_payload (set_body ''<html><head><title>Unprocessable Entity</title></head><body><h1>422 Unprocessable Entity</h1></body></html>''
       (set_field content_type_field ''text/html'' (result St_unprocessable_entity r)))"

definition prepare_internal_server_error_response :: "response \<Rightarrow> response" where [prepare_defs]:
  "prepare_internal_server_error_response r =
     prepare_payload (set_body ''<html><head><title>Internal Server Error</title></head><body><h1>500 Internal Server Error</h1></body></html>''
       (set_field content_type_field ''text/html'' (result St_internal_server_error r)))"

definition prepare_bad_request_response :: "response \<Rightarrow> response" where [prepare_defs]:
  "prepare_bad_request_response r =
     prepare_payload (set_body (''Invalid CRUD method.'' @ [CHR 0x0A])
       (set_field content_type_field ''text/plain'' (result St_bad_request r)))"

definition prepare_not_found_response :: "response \<Rightarrow> response" where [prepare_defs]:
  "prepare_not_found_response r =
     prepare_payload (set_body ''<html><head><title>Not Found</title></head><body><h1>404 Not Found</h1></body></html>''
       (set_field content_type_field ''text/html'' (result St_not_found r)))"

definition prepare_no_id_response :: "response \<Rightarrow> response" where [prepare_defs]:
  "prepare_no_id_response r =
     prepare_payload (set_body (''Invalid format; expected a file ID.'' @ [CHR 0x0A])
       (set_field content_type_field ''text/plain'' (result St_bad_request r)))"

definition prepare_deleted_response :: "string \<Rightarrow> response \<Rightarrow> response" where [prepare_defs]:
  "prepare_deleted_response entity r =
     prepare_payload (set_body (''Successfully deleted file at /'' @ entity @ ''.'' @ [CHR 0x0A])
       (set_field content_type_field ''text/plain'' (result St_ok r)))"

section \<open>The four operations\<close>

definition handle_post_request ::
    "('fs, 'j) world \<Rightarrow> handler \<Rightarrow> string \<Rightarrow> request \<Rightarrow> response \<Rightarrow> 'fs \<times> ids \<Rightarrow>
     bool outcome \<times> response \<times> 'fs \<times> ids" where
  "handle_post_request E h suffix req r s =
     (case s of (fs, m) \<Rightarrow>
        let path = dir h @ ''/'' @ suffix;
            (made, fs1) = (if map_find m suffix = None then create_dir E path fs else (True, fs)) in
        if \<not> made then (Inr False, prepare_unprocessable_entity_response r, fs1, m)
        else
          let (n, m1) = get_next_id suffix m;
              (written, fs2) = write_to_file E (path @ ''/'' @ to_string n) (req_body req) fs1 in
          if written then (Inr True, prepare_created_response n r, fs2, m1)
          else (Inr False, prepare_internal_server_error_response r, fs2, m1))"

text \<open>Listing an entity reads \<open>file_to_id_[suffix]\<close>, which adds the key when it is not there.\<close>

definition handle_get_request ::
    "('fs, 'j) world \<Rightarrow> handler \<Rightarrow> string \<Rightarrow> response \<Rightarrow> 'fs \<times> ids \<Rightarrow>
     bool outcome \<times> response \<times> 'fs \<times> ids" where
  "handle_get_request E h suffix r s =
     (case s of (fs, m) \<Rightarrow>
        let path = dir h @ ''/'' @ suffix in
        if fs_exists E fs path then
          if fs_is_directory E fs path then
            let m1 = map_insert suffix [] m;
                v = (case map_find m1 suffix of None \<Rightarrow> [] | Some v \<Rightarrow> v);
                id_list = str_join E (map to_string v) '','' in
            (Inr True,
             prepare_payload (set_body (''['' @ id_list @ '']'' @ [CHR 0x0A])
               (set_field content_type_field ''text/plain'' (result St_ok r))), fs, m1)
          else
            (case read_from_file E path fs of
               Inl e \<Rightarrow> (Inl e, r, fs, m)
             | Inr (Some content) \<Rightarrow>
                 (Inr True, prepare_payload (set_body content (result St_ok r)), fs, m)
             | Inr None \<Rightarrow> (Inr False, prepare_not_found_response r, fs, m))
        else (Inr False, prepare_not_found_response r, fs, m))"

text \<open>The parts of a suffix at its last slash: the whole of it twice when it has none.\<close>

definition split_suffix :: "string \<Rightarrow> string \<times> string" where
  "split_suffix suffix =
     (case find_last_of (CHR ''/'') suffix of
        None \<Rightarrow> (suffix, suffix)
      | Some found \<Rightarrow> (take found suffix, drop (found + 1) suffix))"

text \<open>
  \<open>PUT\<close>: \<open>stoi\<close> of the digits is not guarded, so a number that is too large leaves the
  handler as an exception. A write that fails turns the answer into not-found although the
  map has changed.
\<close>

definition put_write ::
    "('fs, 'j) world \<Rightarrow> string \<Rightarrow> request \<Rightarrow> response \<Rightarrow> 'fs \<times> ids \<Rightarrow> bool outcome \<times> response \<times> 'fs \<times> ids" where
  "put_write E path req r s =
     (case s of (fs, m) \<Rightarrow>
        let (written, fs1) = write_to_file E path (req_body req) fs in
        if written then (Inr True, r, fs1, m)
        else (Inr False, prepare_not_found_response r, fs1, m))"

definition handle_put_request ::
    "('fs, 'j) world \<Rightarrow> handler \<Rightarrow> string \<Rightarrow> request \<Rightarrow> response \<Rightarrow> 'fs \<times> ids \<Rightarrow>
     bool outcome \<times> response \<times> 'fs \<times> ids" where
  "handle_put_request E h suffix req r s =
     (case s of (fs, m) \<Rightarrow>
        let path = dir h @ ''/'' @ suffix; (entity, id_name) = split_suffix suffix in
        if id_name \<noteq> [] \<and> list_all is_digit id_name then
          (case stoi id_name of
             Inl e \<Rightarrow> (Inl (Uncaught e), r, s)
           | Inr n \<Rightarrow>
               if map_find m entity \<noteq> None then
                 (case insert_to_map entity n m of
                    (True, m1) \<Rightarrow> put_write E path req (prepare_created_response n r) (fs, m1)
                  | (False, m1) \<Rightarrow> put_write E path req (prepare_updated_response n r) (fs, m1))
               else
                 (case create_dir E (dir h @ ''/'' @ entity) fs of
                    (False, fs1) \<Rightarrow> (Inr False, prepare_unprocessable_entity_response r, fs1, m)
                  | (True, fs1) \<Rightarrow>
                      put_write E path req (prepare_created_response n r) (fs1, map_assign entity [n] m)))
        else (Inr False, prepare_not_found_response r, s))"

definition handle_delete_request ::
    "('fs, 'j) world \<Rightarrow> handler \<Rightarrow> string \<Rightarrow> response \<Rightarrow> 'fs \<times> ids \<Rightarrow>
     bool outcome \<times> response \<times> 'fs \<times> ids" where
  "handle_delete_request E h suffix r s =
     (case s of (fs, m) \<Rightarrow>
        let path = dir h @ ''/'' @ suffix in
        if fs_exists E fs path then
          if fs_is_directory E fs path then (Inr False, prepare_no_id_response r, s)
          else
            let (entity, id_name) = split_suffix suffix in
            (case stoi id_name of
               Inl _ \<Rightarrow> (Inr False, prepare_no_id_response r, s)
             | Inr n \<Rightarrow>
                 (case map_find m entity of
                    None \<Rightarrow> (Inr False, prepare_not_found_response r, s)
                  | Some v \<Rightarrow>
                      (case fs_std_remove E fs path of
                         Some fs1 \<Rightarrow>
                           (Inr True, prepare_deleted_response entity r, fs1,
                            map_assign entity (filter (\<lambda>x. x \<noteq> n) v) m)
                       | None \<Rightarrow> (Inr False, prepare_internal_server_error_response r, s))))
        else (Inr False, prepare_not_found_response r, s))"

definition crud_handle ::
    "('fs, 'j) world \<Rightarrow> handler \<Rightarrow> 'fs \<times> ids \<Rightarrow> request \<Rightarrow> response \<Rightarrow>
     bool outcome \<times> response \<times> 'fs \<times> ids" where
  "crud_handle E h s req r =
     (case check_request_url h (req_target req) False of
        None \<Rightarrow> (Inr False, prepare_bad_request_response r, s)
      | Some suffix \<Rightarrow>
          (case req_method req of
             Verb_post \<Rightarrow> handle_post_request E h suffix req r s
           | Verb_get \<Rightarrow> handle_get_request E h suffix r s
           | Verb_put \<Rightarrow> handle_put_request E h suffix req r s
           | Verb_delete \<Rightarrow> handle_delete_request E h suffix r s
           | _ \<Rightarrow> (Inr False, prepare_bad_request_response r, s)))"

section \<open>The contract\<close>

lemma prepared_responses [simp]:
  "prepared (prepare_created_response n r)" "prepared (prepare_updated_response n r)"
  "prepared (prepare_unprocessable_entity_response r)" "prepared (prepare_internal_server_error_response r)"
  "prepared (prepare_bad_request_response r)" "prepared (prepare_not_found_response r)"
  "prepared (prepare_no_id_response r)" "prepared (prepare_deleted_response e r)"
  by (simp_all add: prepare_defs)

lemma status_responses [simp]:
  "status_of (prepare_created_response n r) = Some St_created"
  "status_of (prepare_updated_response n r) = Some St_ok"
  "status_of (prepare_unprocessable_entity_response r) = Some St_unprocessable_entity"
  "status_of (prepare_internal_server_error_response r) = Some St_internal_server_error"
  "status_of (prepare_bad_request_response r) = Some St_bad_request"
  "status_of (prepare_not_found_response r) = Some St_not_found"
  "status_of (prepare_no_id_response r) = Some St_bad_request"
  "status_of (prepare_deleted_response e r) = Some St_ok"
  by (simp_all add: prepare_defs)

lemma origin_responses [simp]:
  "field_of allow_origin_field (prepare_created_response n r) = field_of allow_origin_field r"
  "field_of allow_origin_field (prepare_updated_response n r) = field_of allow_origin_field r"
  "field_of allow_origin_field (prepare_unprocessable_entity_response r) = field_of allow_origin_field r"
  "field_of allow_origin_field (prepare_internal_server_error_response r) = field_of allow_origin_field r"
  "field_of allow_origin_field (prepare_bad_request_response r) = field_of allow_origin_field r"
  "field_of allow_origin_field (prepare_not_found_response r) = field_of allow_origin_field r"
  "field_of allow_origin_field (prepare_no_id_response r) = field_of allow_origin_field r"
  "field_of allow_origin_field (prepare_deleted_response e r) = field_of allow_origin_field r"
  by (simp_all add: prepare_defs)

lemma put_write_complete:
  assumes "put_write E path req r s = (Inr b, r', s')" and "status_of r \<noteq> None"
  shows "status_of r' \<noteq> None" and "prepared r \<Longrightarrow> prepared r'"
    and "field_of allow_origin_field r' = field_of allow_origin_field r"
  using assms by (auto simp: put_write_def Let_def split: prod.splits if_splits)

lemma put_complete:
  assumes "handle_put_request E h suffix req r s = (Inr b, r', s')"
  shows "status_of r' \<noteq> None \<and> prepared r' \<and>
    field_of allow_origin_field r' = field_of allow_origin_field r"
  using assms by (auto simp: handle_put_request_def Let_def
      split: prod.splits if_splits sum.splits bool.splits dest: put_write_complete)

interpretation crud: handler_contract "crud_handle E h" for E h
proof unfold_locales
  fix s req r b r' s'
  assume run: "crud_handle E h s req r = (Inr b, r', s')"
  have "status_of r' \<noteq> None \<and> prepared r' \<and>
      field_of allow_origin_field r' = field_of allow_origin_field r"
    using run put_complete [of E h _ req r s b r' s']
    by (auto simp: crud_handle_def handle_post_request_def handle_get_request_def
        handle_delete_request_def Let_def
        split: option.splits verb.splits prod.splits if_splits sum.splits)
  then show "status_of r' \<noteq> None" "prepared r' \<or> req_method req = Verb_options \<and> (bodyless r \<longrightarrow> bodyless r')"
    "field_of allow_origin_field r = Some ''*'' \<Longrightarrow> field_of allow_origin_field r' = Some ''*''"
    by simp_all
qed

section \<open>The ids of an entity\<close>

definition ids_ok :: "ids \<Rightarrow> bool" where
  "ids_ok m \<longleftrightarrow> map_ok m \<and> (\<forall>(e, v) \<in> set m. sorted_wrt (<) v \<and> (\<forall>i \<in> set v. 0 \<le> i))"

lemma ids_ok_empty: "ids_ok []"
  by (simp add: ids_ok_def)

lemma ids_ok_find: "ids_ok m \<Longrightarrow> map_find m e = Some v \<Longrightarrow> sorted_wrt (<) v \<and> (\<forall>i \<in> set v. 0 \<le> i)"
  unfolding ids_ok_def by (drule map_of_SomeD) auto

lemma set_map_assign: "kv \<in> set (map_assign k v m) \<Longrightarrow> kv = (k, v) \<or> kv \<in> set m"
  by (induction m) (auto split: if_splits)

lemma ids_ok_assign:
  "ids_ok m \<Longrightarrow> sorted_wrt (<) v \<Longrightarrow> (\<And>i. i \<in> set v \<Longrightarrow> 0 \<le> i) \<Longrightarrow> ids_ok (map_assign e v m)"
  by (auto simp: ids_ok_def map_ok_assign dest!: set_map_assign)

lemma ids_ok_insert: "ids_ok m \<Longrightarrow> ids_ok (map_insert e [] m)"
  by (simp add: map_insert_def ids_ok_assign [where v = "[]", simplified])

lemma strict_sorted_sort: "distinct v \<Longrightarrow> sorted_wrt (<) (sort (v :: int list))"
  by (simp add: strict_sorted_iff)

lemma insert_to_map_Some:
  "map_find m e = Some v \<Longrightarrow>
     insert_to_map e i m = (if i \<notin> set v then (True, map_assign e (sort (v @ [i])) m) else (False, m))"
  by (simp add: insert_to_map_def)

lemma insert_to_map_ok:
  assumes "ids_ok m" and "0 \<le> i"
  shows "ids_ok (snd (insert_to_map e i m))"
proof (cases "map_find m e")
  case (Some v)
  have v: "distinct v" "\<forall>i \<in> set v. 0 \<le> i"
    using ids_ok_find [OF assms(1) Some] sorted_wrt_less_distinct by auto
  then show ?thesis using assms Some
    by (auto simp: insert_to_map_Some intro!: ids_ok_assign strict_sorted_sort)
qed (simp add: insert_to_map_def assms(1))

text \<open>The loop of \<open>get_next_id\<close>: over increasing ids it finds the least free one.\<close>

lemma lowest_available_above: "(\<forall>y \<in> set xs. l < y) \<Longrightarrow> lowest_available l xs = l"
  by (induction xs) auto

lemma lowest_available_ge: "l \<le> lowest_available l xs"
proof (induction xs arbitrary: l)
  case (Cons x xs)
  show ?case using Cons [of l] Cons [of "l + 1"] by simp
qed simp

lemma lowest_available_le: "lowest_available l xs \<le> l + int (length xs)"
proof (induction xs arbitrary: l)
  case (Cons x xs)
  show ?case using Cons [of l] Cons [of "l + 1"] by simp
qed simp

lemma lowest_available_free:
  "sorted_wrt (<) xs \<Longrightarrow> lowest_available l xs \<notin> set xs"
proof (induction xs arbitrary: l)
  case (Cons x xs)
  consider "x = l" | "x < l" | "l < x" by linarith
  then show ?case
  proof cases
    case 1
    then show ?thesis using Cons lowest_available_ge [of "l + 1" xs] by auto
  next
    case 2
    then show ?thesis using Cons lowest_available_ge [of l xs] by auto
  next
    case 3
    then have "\<forall>y \<in> set (x # xs). l < y" using Cons.prems by auto
    then show ?thesis using lowest_available_above by fastforce
  qed
qed simp

lemma lowest_available_least:
  "l \<le> n \<Longrightarrow> n < lowest_available l xs \<Longrightarrow> n \<in> set xs"
proof (induction xs arbitrary: l)
  case (Cons x xs)
  show ?case
  proof (cases "x = l")
    case True
    then show ?thesis using Cons.IH [of "l + 1"] Cons.prems by (cases "n = l") simp_all
  next
    case False
    then show ?thesis using Cons.IH [of l] Cons.prems by simp
  qed
qed simp

text \<open>
  What \<open>get_next_id\<close> returns, and what it does to the map: the least id from 1 on that
  the entity does not use is added to its ids, in order, and nothing else changes.
\<close>

definition ids_of :: "ids \<Rightarrow> string \<Rightarrow> int list" where
  "ids_of m e = (case map_find m e of None \<Rightarrow> [] | Some v \<Rightarrow> v)"

lemma get_next_id_spec:
  assumes "ids_ok m" and "get_next_id e m = (n, m')"
  shows "1 \<le> n" and "n \<le> 1 + int (length (ids_of m e))" and "n \<notin> set (ids_of m e)"
    and "\<And>k. 1 \<le> k \<Longrightarrow> k < n \<Longrightarrow> k \<in> set (ids_of m e)"
    and "ids_ok m'" and "map_find m' e = Some (sort (ids_of m e @ [n]))"
    and "\<And>d. d \<noteq> e \<Longrightarrow> map_find m' d = map_find m d"
proof -
  have "1 \<le> n \<and> n \<le> 1 + int (length (ids_of m e)) \<and> n \<notin> set (ids_of m e) \<and>
      (\<forall>k. 1 \<le> k \<and> k < n \<longrightarrow> k \<in> set (ids_of m e)) \<and> ids_ok m' \<and>
      map_find m' e = Some (sort (ids_of m e @ [n])) \<and> (\<forall>d. d \<noteq> e \<longrightarrow> map_find m' d = map_find m d)"
  proof (cases "map_find m e")
    case None
    then show ?thesis using assms
      by (auto simp: get_next_id_def ids_of_def map_find_assign intro: ids_ok_assign)
  next
    case (Some v)
    have v: "sorted_wrt (<) v" using ids_ok_find [OF assms(1) Some] by simp
    have n: "n = lowest_available 1 v" and m': "m' = snd (insert_to_map e n m)"
      using assms(2) by (auto simp: get_next_id_def Some Let_def)
    have free: "n \<notin> set v" and pos: "1 \<le> n"
      using lowest_available_free [OF v] lowest_available_ge by (simp_all add: n)
    have "ids_ok m'" using insert_to_map_ok [OF assms(1)] pos by (simp add: m')
    moreover have "m' = map_assign e (sort (v @ [n])) m"
      using free by (simp add: m' insert_to_map_Some [OF Some])
    moreover have "n \<le> 1 + int (length v)" using lowest_available_le [of 1 v] by (simp add: n)
    moreover have "k \<in> set v" if "1 \<le> k" "k < n" for k
      using lowest_available_least [of 1 k v] that by (simp add: n)
    ultimately show ?thesis using free pos by (simp add: ids_of_def Some map_find_assign)
  qed
  then show "1 \<le> n" "n \<le> 1 + int (length (ids_of m e))" "n \<notin> set (ids_of m e)"
    "\<And>k. 1 \<le> k \<Longrightarrow> k < n \<Longrightarrow> k \<in> set (ids_of m e)"
    "ids_ok m'" "map_find m' e = Some (sort (ids_of m e @ [n]))"
    "\<And>d. d \<noteq> e \<Longrightarrow> map_find m' d = map_find m d" by auto
qed

end
