(* ===== verification/Crud_Store.thy ===== *)
theory Crud_Store
  imports Crud
begin

text \<open>
  What the CRUD handler promises: a store of entities, each a finite map from ids to
  contents. The theory gives that store, the requests a client makes on it, the invariant
  that ties the id map to the files, and the simulation: every answer of
  \<open>request_handler_crud\<close> is the answer of the store. The hypothesis is \<open>posix_files\<close>, on
  the directory the handler was given.
\<close>

section \<open>The abstract store\<close>

type_synonym store = "string \<Rightarrow> (int \<Rightarrow> string option) option"

datatype store_op = Create string string | Replace string int string | Read string int
  | List_ids string | Remove string int

datatype store_reply = Created int | Updated int | Content string | Ids "int list"
  | Deleted string | Missing

definition entries_of :: "store \<Rightarrow> string \<Rightarrow> int \<Rightarrow> string option" where
  "entries_of s e = (case s e of None \<Rightarrow> (\<lambda>_. None) | Some f \<Rightarrow> f)"

definition free_id :: "(int \<Rightarrow> string option) \<Rightarrow> int" where
  "free_id f = int (LEAST n. 1 \<le> n \<and> f (int n) = None)"

fun store_step :: "store \<Rightarrow> store_op \<Rightarrow> store_reply \<times> store" where
  "store_step s (Create e b) =
     (let f = entries_of s e; n = free_id f in (Created n, s(e \<mapsto> f(n \<mapsto> b))))"
| "store_step s (Replace e n b) =
     (let f = entries_of s e in
      (if f n = None then Created n else Updated n, s(e \<mapsto> f(n \<mapsto> b))))"
| "store_step s (Read e n) =
     (case entries_of s e n of None \<Rightarrow> (Missing, s) | Some b \<Rightarrow> (Content b, s))"
| "store_step s (List_ids e) =
     (case s e of None \<Rightarrow> (Missing, s) | Some f \<Rightarrow> (Ids (sorted_list_of_set (dom f)), s))"
| "store_step s (Remove e n) =
     (if entries_of s e n = None then (Missing, s)
      else (Deleted e, s(e \<mapsto> (entries_of s e)(n := None))))"

section \<open>Requests and answers\<close>

fun op_ok :: "store_op \<Rightarrow> bool" where
  "op_ok (Create e b) \<longleftrightarrow> valid_name e \<and> int (length b) < max_file"
| "op_ok (Replace e n b) \<longleftrightarrow> valid_name e \<and> 0 \<le> n \<and> n \<le> int_max \<and> int (length b) < max_file"
| "op_ok (Read e n) \<longleftrightarrow> valid_name e"
| "op_ok (List_ids e) \<longleftrightarrow> valid_name e"
| "op_ok (Remove e n) \<longleftrightarrow> valid_name e \<and> int_min \<le> n \<and> n \<le> int_max"

definition request_to :: "handler \<Rightarrow> verb \<Rightarrow> string \<Rightarrow> string \<Rightarrow> request" where
  "request_to h meth suffix b =
     \<lparr>req_method = meth, req_target = prefix h @ ''/'' @ suffix, req_body = b, req_fields = []\<rparr>"

fun request_of :: "handler \<Rightarrow> store_op \<Rightarrow> request" where
  "request_of h (Create e b) = request_to h Verb_post e b"
| "request_of h (Replace e n b) = request_to h Verb_put (e @ ''/'' @ to_string n) b"
| "request_of h (Read e n) = request_to h Verb_get (e @ ''/'' @ to_string n) []"
| "request_of h (List_ids e) = request_to h Verb_get e []"
| "request_of h (Remove e n) = request_to h Verb_delete (e @ ''/'' @ to_string n) []"

text \<open>The status and the body that stand for a reply.\<close>

fun shown_as :: "('fs, 'j) world \<Rightarrow> store_reply \<Rightarrow> http_status \<times> string" where
  "shown_as E (Created n) = (St_created, ''Created entry at '' @ id_text n)"
| "shown_as E (Updated n) = (St_ok, ''Updated entry at '' @ id_text n)"
| "shown_as E (Content b) = (St_ok, b)"
| "shown_as E (Ids ns) = (St_ok, ''['' @ str_join E (map to_string ns) '','' @ '']'' @ [CHR 0x0A])"
| "shown_as E (Deleted e) = (St_ok, ''Successfully deleted file at /'' @ e @ ''.'' @ [CHR 0x0A])"
| "shown_as E Missing = (St_not_found,
     ''<html><head><title>Not Found</title></head><body><h1>404 Not Found</h1></body></html>'')"

definition answer_ok :: "('fs, 'j) world \<Rightarrow> store_reply \<Rightarrow> bool outcome \<times> response \<Rightarrow> bool" where
  "answer_ok E p a \<longleftrightarrow>
     fst a = Inr (p \<noteq> Missing) \<and>
     status_of (snd a) = Some (fst (shown_as E p)) \<and> body_of (snd a) = snd (shown_as E p)"

text \<open>One request, on the response a session hands to a handler.\<close>

definition crud_step ::
    "('fs, 'j) world \<Rightarrow> handler \<Rightarrow> 'fs \<times> ids \<Rightarrow> store_op \<Rightarrow> (bool outcome \<times> response) \<times> 'fs \<times> ids" where
  "crud_step E h s x =
     (case crud_handle E h s (request_of h x) (set_field allow_origin_field ''*'' []) of
        (b, r, s') \<Rightarrow> ((b, r), s'))"

section \<open>The invariant\<close>

definition entity_ok :: "('fs, 'j) world \<Rightarrow> string \<Rightarrow> 'fs \<Rightarrow> string \<Rightarrow> int list option \<Rightarrow> bool" where
  "entity_ok E base fs e v \<longleftrightarrow>
     node_at E fs (path_of base [e]) = (if v = None then None else Some DirNode) \<and>
     (\<forall>i. if v \<noteq> None \<and> i \<in> set (the v)
          then \<exists>b. node_at E fs (path_of base [e, to_string i]) = Some (FileNode b)
          else node_at E fs (path_of base [e, to_string i]) = None)"

definition crud_inv :: "('fs, 'j) world \<Rightarrow> handler \<Rightarrow> 'fs \<times> ids \<Rightarrow> bool" where
  "crud_inv E h s \<longleftrightarrow>
     posix_files E (dir h) \<and> node_at E (fst s) (dir h) = Some DirNode \<and> ids_ok (snd s) \<and>
     (\<forall>e. valid_name e \<longrightarrow> entity_ok E (dir h) (fst s) e (map_find (snd s) e)) \<and>
     (\<forall>e. \<not> valid_name e \<longrightarrow> map_find (snd s) e = None)"

definition store_of :: "('fs, 'j) world \<Rightarrow> handler \<Rightarrow> 'fs \<times> ids \<Rightarrow> store" where
  "store_of E h s e =
     (if map_find (snd s) e = None then None
      else Some (\<lambda>i. content_at E (fst s) (path_of (dir h) [e, to_string i])))"

lemma crud_invD:
  assumes "crud_inv E h (fs, m)"
  shows "posix_files E (dir h)" and "node_at E fs (path_of (dir h) []) = Some DirNode" and "ids_ok m"
    and "valid_name e \<Longrightarrow> entity_ok E (dir h) fs e (map_find m e)"
    and "map_find m e \<noteq> None \<Longrightarrow> valid_name e"
  using assms by (auto simp: crud_inv_def)

lemma entity_absent:
  assumes "crud_inv E h (fs, m)" and "valid_name e" and "map_find m e = None"
  shows "node_at E fs (path_of (dir h) [e]) = None"
    and "node_at E fs (path_of (dir h) [e, to_string i]) = None"
  using crud_invD(4) [OF assms(1,2)] assms(3) by (simp_all add: entity_ok_def)

lemma entity_present:
  assumes "crud_inv E h (fs, m)" and "map_find m e = Some v"
  shows "valid_name e" and "node_at E fs (path_of (dir h) [e]) = Some DirNode"
    and "sorted_wrt (<) v"
    and "i \<in> set v \<Longrightarrow> \<exists>b. node_at E fs (path_of (dir h) [e, to_string i]) = Some (FileNode b)"
    and "i \<notin> set v \<Longrightarrow> node_at E fs (path_of (dir h) [e, to_string i]) = None"
proof -
  show e: "valid_name e" using crud_invD(5) [OF assms(1)] assms(2) by simp
  note ok = crud_invD(4) [OF assms(1) e, unfolded assms(2) entity_ok_def]
  show "node_at E fs (path_of (dir h) [e]) = Some DirNode" using ok by simp
  show "sorted_wrt (<) v" using ids_ok_find [OF crud_invD(3) [OF assms(1)] assms(2)] by simp
  show "\<exists>b. node_at E fs (path_of (dir h) [e, to_string i]) = Some (FileNode b)" if "i \<in> set v"
    using ok that by simp
  show "node_at E fs (path_of (dir h) [e, to_string i]) = None" if "i \<notin> set v"
    using ok that by simp
qed

lemma content_at_iff:
  assumes "crud_inv E h (fs, m)" and "map_find m e = Some v"
  shows "content_at E fs (path_of (dir h) [e, to_string i]) = None \<longleftrightarrow> i \<notin> set v"
  using entity_present(4,5) [OF assms, of i] by (cases "i \<in> set v") auto

lemma entries_of_store:
  assumes "crud_inv E h (fs, m)" and "valid_name e"
  shows "entries_of (store_of E h (fs, m)) e i = content_at E fs (path_of (dir h) [e, to_string i])"
  using entity_absent [OF assms] by (cases "map_find m e") (simp_all add: entries_of_def store_of_def)

section \<open>The effect of a file operation on invariant and store\<close>

text \<open>A new entity: its directory appears and its list of ids is empty.\<close>

lemma crud_new_entity:
  assumes inv: "crud_inv E h (fs, m)" and e: "valid_name e" "map_find m e = None"
    and fs1: "updated E (dir h) fs [e] (Some DirNode) fs1"
  shows "crud_inv E h (fs1, map_assign e [] m)"
    and "store_of E h (fs1, map_assign e [] m) = (store_of E h (fs, m))(e \<mapsto> (\<lambda>_. None))"
proof -
  have other: "node_at E fs1 (path_of (dir h) ns) = node_at E fs (path_of (dir h) ns)"
    if "valid_path ns" "ns \<noteq> [e]" for ns
    using updatedD [OF fs1 that(1)] that(2) by simp
  have root: "node_at E fs1 (dir h) = Some DirNode" using crud_invD(2) [OF inv] other [of "[]"] by simp
  have dirs: "node_at E fs1 (path_of (dir h) [e]) = Some DirNode" using updatedD [OF fs1, of "[e]"] e by simp
  have files: "node_at E fs1 (path_of (dir h) [d, to_string i]) = node_at E fs (path_of (dir h) [d, to_string i])"
    if "valid_name d" for d i using other that by simp
  have ent: "entity_ok E (dir h) fs1 d (map_find (map_assign e [] m) d)" if d: "valid_name d" for d
  proof (cases "d = e")
    case True
    then show ?thesis using dirs files [OF d] entity_absent [OF inv e] by (simp add: entity_ok_def map_find_assign)
  next
    case False
    then show ?thesis using crud_invD(4) [OF inv d] files [OF d] other [of "[d]"] d
      by (simp add: entity_ok_def map_find_assign)
  qed
  then show "crud_inv E h (fs1, map_assign e [] m)"
    using inv root e ids_ok_assign [of m "[]" e] by (simp add: crud_inv_def map_find_assign)
  show "store_of E h (fs1, map_assign e [] m) = (store_of E h (fs, m))(e \<mapsto> (\<lambda>_. None))"
  proof
    fix d
    show "store_of E h (fs1, map_assign e [] m) d = ((store_of E h (fs, m))(e \<mapsto> (\<lambda>_. None))) d"
      using files [of d] crud_invD(5) [OF inv, of d] entity_absent [OF inv e] e
      by (auto simp: store_of_def map_find_assign content_at_def)
  qed
qed

text \<open>The file of one id changes, and the ids of its entity with it.\<close>

lemma crud_file_inv:
  assumes inv: "crud_inv E h (fs, m)" and e: "map_find m e = Some v"
    and fs1: "updated E (dir h) fs [e, to_string n] (map_option FileNode x) fs1"
    and ids: "ids_ok m1" "map_find m1 e = Some v1" "\<And>d. d \<noteq> e \<Longrightarrow> map_find m1 d = map_find m d"
    and v1: "set v1 = (if x = None then set v - {n} else insert n (set v))"
  shows "crud_inv E h (fs1, m1)"
proof -
  note e_ok = entity_present [OF inv e]
  have other: "node_at E fs1 (path_of (dir h) ns) = node_at E fs (path_of (dir h) ns)"
    if "valid_path ns" "ns \<noteq> [e, to_string n]" for ns
    using updatedD [OF fs1 that(1)] that(2) by simp
  have the_file: "node_at E fs1 (path_of (dir h) [e, to_string n]) = map_option FileNode x"
    using updatedD [OF fs1, of "[e, to_string n]"] e_ok(1) by simp
  have root: "node_at E fs1 (dir h) = Some DirNode" using crud_invD(2) [OF inv] other [of "[]"] by simp
  have ent: "entity_ok E (dir h) fs1 d (map_find m1 d)" if d: "valid_name d" for d
  proof (cases "d = e")
    case True
    have "if i \<in> set v1 then \<exists>b. node_at E fs1 (path_of (dir h) [e, to_string i]) = Some (FileNode b)
        else node_at E fs1 (path_of (dir h) [e, to_string i]) = None" for i
    proof (cases "i = n")
      case True
      then show ?thesis using the_file v1 by (cases x) simp_all
    next
      case False
      then show ?thesis using e_ok(4,5) [of i] other [of "[e, to_string i]"] e_ok(1) v1 by simp
    qed
    then show ?thesis using True e_ok(1,2) other [of "[e]"] by (simp add: entity_ok_def ids(2))
  next
    case False
    then show ?thesis using crud_invD(4) [OF inv d] other [of "[d]"] other [of "[d, to_string _]"] d
      by (simp add: entity_ok_def ids(3))
  qed
  have "map_find m1 d = None" if "\<not> valid_name d" for d
    using crud_invD(5) [OF inv] that ids(3) e_ok(1) by metis
  with ent show "crud_inv E h (fs1, m1)"
    using inv root ids(1) by (simp add: crud_inv_def)
qed

lemma crud_file_store:
  assumes inv: "crud_inv E h (fs, m)" and e: "map_find m e = Some v"
    and fs1: "updated E (dir h) fs [e, to_string n] (map_option FileNode x) fs1"
    and ids: "ids_ok m1" "map_find m1 e = Some v1" "\<And>d. d \<noteq> e \<Longrightarrow> map_find m1 d = map_find m d"
    and v1: "set v1 = (if x = None then set v - {n} else insert n (set v))"
  shows "store_of E h (fs1, m1) =
      (store_of E h (fs, m))(e \<mapsto> (entries_of (store_of E h (fs, m)) e)(n := x))"
proof
  note e_ok = entity_present [OF inv e]
  have other: "node_at E fs1 (path_of (dir h) ns) = node_at E fs (path_of (dir h) ns)"
    if "valid_path ns" "ns \<noteq> [e, to_string n]" for ns
    using updatedD [OF fs1 that(1)] that(2) by simp
  have the_file: "node_at E fs1 (path_of (dir h) [e, to_string n]) = map_option FileNode x"
    using updatedD [OF fs1, of "[e, to_string n]"] e_ok(1) by simp
  fix d
  consider (same) "d = e" | (unknown) "d \<noteq> e" "map_find m d = None"
    | (known) "d \<noteq> e" "valid_name d" using crud_invD(5) [OF inv, of d] by blast
  then show "store_of E h (fs1, m1) d =
      ((store_of E h (fs, m))(e \<mapsto> (entries_of (store_of E h (fs, m)) e)(n := x))) d"
  proof cases
    case same
    have "content_at E fs1 (path_of (dir h) [e, to_string i]) =
        ((entries_of (store_of E h (fs, m)) e)(n := x)) i" for i
      using the_file other [of "[e, to_string i]"] e_ok(1)
      by (cases x; cases "i = n") (simp_all add: entries_of_store [OF inv e_ok(1)] content_at_def)
    then show ?thesis using same by (simp add: store_of_def [of _ _ "(fs1, m1)"] ids(2) fun_upd_def)
  next
    case unknown
    then show ?thesis by (simp add: store_of_def ids(3))
  next
    case known
    then show ?thesis using other [of "[d, to_string _]"] by (simp add: store_of_def ids(3) content_at_def)
  qed
qed

lemmas crud_file_change = crud_file_inv crud_file_store

section \<open>Each request is answered as the store answers it\<close>

lemma suffix_accepted:
  assumes "s \<noteq> []" and "last s \<noteq> CHR ''/''"
  shows "check_request_url h (req_target (request_to h meth s b)) False = Some s"
  using check_request_url_suffix [OF assms, of h False] by (simp add: request_to_def)

lemma entity_suffix:
  "valid_name e \<Longrightarrow> check_request_url h (req_target (request_to h meth e b)) False = Some e"
  by (rule suffix_accepted) (simp add: valid_name_def, metis last_in_set valid_name_def)

lemma file_suffix:
  "check_request_url h (req_target (request_to h meth (e @ CHR ''/'' # to_string n) b)) False =
     Some (e @ CHR ''/'' # to_string n)"
proof (rule suffix_accepted)
  have "last (to_string n) \<noteq> CHR ''/''" by (metis last_in_set to_string_no_slash to_string_not_Nil)
  then show "last (e @ CHR ''/'' # to_string n) \<noteq> CHR ''/''" by simp
qed simp

lemma request_to_sel [simp]:
  "req_method (request_to h meth s b) = meth" "req_body (request_to h meth s b) = b"
  by (simp_all add: request_to_def)

lemma split_suffix_file [simp]: "split_suffix (e @ CHR ''/'' # to_string n) = (e, to_string n)"
  by (simp add: split_suffix_def find_last_of_append_notin)

lemma free_id_eq:
  assumes "1 \<le> n" and "f n = None" and "\<And>k. 1 \<le> k \<Longrightarrow> k < n \<Longrightarrow> f k \<noteq> None"
  shows "free_id f = n"
proof -
  have "(LEAST k. 1 \<le> k \<and> f (int k) = None) = nat n"
  proof (rule Least_equality)
    show "1 \<le> nat n \<and> f (int (nat n)) = None" using assms(1,2) by simp
    show "nat n \<le> k" if "1 \<le> k \<and> f (int k) = None" for k
      using assms(3) [of "int k"] that by (cases "int k < n") auto
  qed
  then show ?thesis using assms(1) by (simp add: free_id_def)
qed

lemma get_next_id_free:
  assumes inv: "crud_inv E h (fs, m)" and e: "map_find m e = Some v" and n: "get_next_id e m = (n, m1)"
  shows "n = free_id (entries_of (store_of E h (fs, m)) e)"
proof -
  have "entries_of (store_of E h (fs, m)) e k = None \<longleftrightarrow> k \<notin> set (ids_of m e)" for k
    using content_at_iff [OF inv e] entries_of_store [OF inv entity_present(1) [OF inv e]]
    by (simp add: ids_of_def e)
  then show ?thesis using get_next_id_spec [OF crud_invD(3) [OF inv] n]
    by (metis free_id_eq)
qed

lemma response_bodies [simp]:
  "body_of (prepare_created_response n r) = ''Created entry at '' @ id_text n"
  "body_of (prepare_updated_response n r) = ''Updated entry at '' @ id_text n"
  "body_of (prepare_deleted_response e r) = ''Successfully deleted file at /'' @ e @ ''.'' @ [CHR 0x0A]"
  "body_of (prepare_not_found_response r) =
     ''<html><head><title>Not Found</title></head><body><h1>404 Not Found</h1></body></html>''"
  by (simp_all add: prepare_defs)

text \<open>What one step has to show; the rest of the section shows it request by request.\<close>

definition step_ok :: "('fs, 'j) world \<Rightarrow> handler \<Rightarrow> 'fs \<times> ids \<Rightarrow> store_op \<Rightarrow> bool" where
  "step_ok E h s x \<longleftrightarrow>
     (case crud_step E h s x of (a, s') \<Rightarrow>
        crud_inv E h s' \<and> store_of E h s' = snd (store_step (store_of E h s) x) \<and>
        answer_ok E (fst (store_step (store_of E h s) x)) a)"

lemma write_entry:
  assumes inv: "crud_inv E h (fs, m)" and e: "map_find m e = Some v" and b: "int (length b) < max_file"
    and m1: "ids_ok m1" "map_find m1 e = Some v1" "\<And>d. d \<noteq> e \<Longrightarrow> map_find m1 d = map_find m d"
      "set v1 = insert n (set v)"
  shows "\<exists>fs1. write_to_file E (dir h @ ''/'' @ e @ ''/'' @ to_string n) b fs = (True, fs1) \<and>
    crud_inv E h (fs1, m1) \<and>
    store_of E h (fs1, m1) =
      (store_of E h (fs, m))(e \<mapsto> (entries_of (store_of E h (fs, m)) e)(n \<mapsto> b))"
proof -
  note ok = entity_present [OF inv e]
  have "node_at E fs (path_of (dir h) ([e] @ [to_string n])) = None \<or>
      (\<exists>c. node_at E fs (path_of (dir h) ([e] @ [to_string n])) = Some (FileNode c))"
    using ok(4,5) [of n] by (cases "n \<in> set v") simp_all
  then obtain fs1 where w: "write_to_file E (path_of (dir h) ([e] @ [to_string n])) b fs = (True, fs1)"
      "updated E (dir h) fs ([e] @ [to_string n]) (Some (FileNode b)) fs1"
    using write_to_file_spec [OF crud_invD(1) [OF inv], of "[e]" "to_string n" fs _ b] ok(1,2) b by auto
  then have up: "updated E (dir h) fs [e, to_string n] (map_option FileNode (Some b)) fs1" by simp
  have v1: "set v1 = (if Some b = None then set v - {n} else insert n (set v))" using m1(4) by simp
  note change = crud_file_change [OF inv e up m1(1,2,3) v1]
  then show ?thesis using w(1) by (auto simp: path_of_two)
qed

lemma write_new_entity:
  assumes inv: "crud_inv E h (fs, m)" and e: "valid_name e" "map_find m e = None"
    and b: "int (length b) < max_file" and n: "0 \<le> n"
  shows "\<exists>fs1 fs2. create_dir E (dir h @ ''/'' @ e) fs = (True, fs1) \<and>
    write_to_file E (dir h @ ''/'' @ e @ ''/'' @ to_string n) b fs1 = (True, fs2) \<and>
    crud_inv E h (fs2, map_assign e [n] m) \<and>
    store_of E h (fs2, map_assign e [n] m) = (store_of E h (fs, m))(e \<mapsto> [n \<mapsto> b])"
proof -
  have "node_at E fs (path_of (dir h) ([] @ [e])) = None" using entity_absent(1) [OF inv e] by simp
  from create_dir_new [OF crud_invD(1) [OF inv] _ e(1) _ this] crud_invD(2) [OF inv]
  obtain fs1 where c: "create_dir E (dir h @ ''/'' @ e) fs = (True, fs1)"
      and up: "updated E (dir h) fs [e] (Some DirNode) fs1"
    by (auto simp: path_of_one)
  note new = crud_new_entity [OF inv e up]
  have m1: "ids_ok (map_assign e [n] m)" "map_find (map_assign e [n] m) e = Some [n]"
    "\<And>d. d \<noteq> e \<Longrightarrow> map_find (map_assign e [n] m) d = map_find (map_assign e [] m) d"
    "set [n] = insert n (set ([] :: int list))"
    using ids_ok_assign [OF crud_invD(3) [OF inv], of "[n]" e] n by (simp_all add: map_find_assign)
  have "map_find (map_assign e [] m) e = Some []" by (simp add: map_find_assign)
  from write_entry [OF new(1) this b m1] c show ?thesis by (auto simp: new(2) entries_of_def)
qed

lemma no_entries: "map_find m e = None \<Longrightarrow> entries_of (store_of E h (fs, m)) e = (\<lambda>_. None)"
  by (simp add: entries_of_def store_of_def)

lemma step_Create:
  assumes inv: "crud_inv E h (fs, m)" and ok: "op_ok (Create e b)"
  shows "step_ok E h (fs, m) (Create e b)"
proof (cases "map_find m e")
  case (Some v)
  obtain n m1 where n: "get_next_id e m = (n, m1)" by force
  have ids: "ids_of m e = v" by (simp add: ids_of_def Some)
  note spec = get_next_id_spec [OF crud_invD(3) [OF inv] n, unfolded ids]
  have "set (sort (v @ [n])) = insert n (set v)" by simp
  from write_entry [OF inv Some _ spec(5,6,7) this, of b] ok
  obtain fs1 where w: "write_to_file E (dir h @ ''/'' @ e @ ''/'' @ to_string n) b fs = (True, fs1)"
      "crud_inv E h (fs1, m1)"
      "store_of E h (fs1, m1) = (store_of E h (fs, m))(e \<mapsto> (entries_of (store_of E h (fs, m)) e)(n \<mapsto> b))"
    by auto
  then show ?thesis using ok Some n get_next_id_free [OF inv Some n]
    by (simp add: step_ok_def crud_step_def crud_handle_def handle_post_request_def entity_suffix
        Let_def answer_ok_def)
next
  case None
  have e: "valid_name e" and b: "int (length b) < max_file" using ok by simp_all
  have get: "get_next_id e m = (1, map_assign e [1] m)" by (simp add: get_next_id_def None)
  have "free_id (\<lambda>_. None) = 1" by (rule free_id_eq) simp_all
  then show ?thesis using write_new_entity [OF inv e None b, of 1] no_entries [OF None, of E h fs] e None get
    by (auto simp: step_ok_def crud_step_def crud_handle_def handle_post_request_def entity_suffix
        Let_def answer_ok_def)
qed

lemma step_Read:
  assumes inv: "crud_inv E h (fs, m)" and ok: "op_ok (Read e n)"
  shows "step_ok E h (fs, m) (Read e n)"
proof -
  have e: "valid_name e" using ok by simp
  have p: "dir h @ CHR ''/'' # e @ CHR ''/'' # to_string n = path_of (dir h) [e, to_string n]"
    by (simp add: path_of_two)
  have node: "node_at E fs (path_of (dir h) [e, to_string n]) = None \<or>
      (\<exists>b. node_at E fs (path_of (dir h) [e, to_string n]) = Some (FileNode b))"
    using entity_absent(2) [OF inv e] entity_present(4,5) [OF inv, of e _ n] by (cases "map_find m e") auto
  have store: "entries_of (store_of E h (fs, m)) e n = content_at E fs (path_of (dir h) [e, to_string n])"
    by (rule entries_of_store [OF inv e])
  from node show ?thesis
  proof (elim disjE exE)
    assume none: "node_at E fs (path_of (dir h) [e, to_string n]) = None"
    then show ?thesis using inv store
      by (simp add: step_ok_def crud_step_def crud_handle_def handle_get_request_def file_suffix
          Let_def answer_ok_def node_at_None p)
  next
    fix b assume there: "node_at E fs (path_of (dir h) [e, to_string n]) = Some (FileNode b)"
    then have "fs_exists E fs (path_of (dir h) [e, to_string n])"
      "\<not> fs_is_directory E fs (path_of (dir h) [e, to_string n])" by (simp_all add: node_at_FileNode)
    then show ?thesis using inv store there read_from_file_FileNode [OF there]
      by (simp add: step_ok_def crud_step_def crud_handle_def handle_get_request_def file_suffix
          Let_def answer_ok_def p)
  qed
qed

lemma step_List:
  assumes inv: "crud_inv E h (fs, m)" and ok: "op_ok (List_ids e)"
  shows "step_ok E h (fs, m) (List_ids e)"
proof -
  have e: "valid_name e" using ok by simp
  have p: "dir h @ CHR ''/'' # e = path_of (dir h) [e]" by (simp add: path_of_one)
  show ?thesis
  proof (cases "map_find m e")
    case None
    then show ?thesis using inv e entity_absent(1) [OF inv e None]
      by (simp add: step_ok_def crud_step_def crud_handle_def handle_get_request_def entity_suffix
          Let_def answer_ok_def node_at_None p store_of_def)
  next
    case (Some v)
    have there: "fs_exists E fs (path_of (dir h) [e])" "fs_is_directory E fs (path_of (dir h) [e])"
      using entity_present(2) [OF inv Some] by (simp_all add: node_at_DirNode)
    have "dom (\<lambda>i. content_at E fs (path_of (dir h) [e, to_string i])) = set v"
      using content_at_iff [OF inv Some] by (auto simp: dom_def)
    moreover have "sorted_list_of_set (set v) = v"
      using entity_present(3) [OF inv Some] by (simp add: strict_sorted_iff sorted_list_of_set.idem_if_sorted_distinct)
    ultimately show ?thesis using inv e there Some
      by (simp add: step_ok_def crud_step_def crud_handle_def handle_get_request_def entity_suffix
          Let_def answer_ok_def p store_of_def map_insert_def)
  qed
qed

lemma to_string_digits: "0 \<le> n \<Longrightarrow> list_all is_digit (to_string n)"
  by (simp add: to_string_def nat_str_digits)

lemma put_write_True:
  "write_to_file E path (req_body req) fs = (True, fs1) \<Longrightarrow> put_write E path req r (fs, m) = (Inr True, r, fs1, m)"
  by (simp add: put_write_def)

lemma step_Replace:
  assumes inv: "crud_inv E h (fs, m)" and ok: "op_ok (Replace e n b)"
  shows "step_ok E h (fs, m) (Replace e n b)"
proof -
  have e: "valid_name e" and b: "int (length b) < max_file" and n: "0 \<le> n"
    and num: "stoi (to_string n) = Inr n" "list_all is_digit (to_string n)"
    using ok by (simp_all add: stoi_to_string int_min_def to_string_digits)
  note unf = step_ok_def crud_step_def crud_handle_def handle_put_request_def file_suffix Let_def answer_ok_def
  show ?thesis
  proof (cases "map_find m e")
    case None
    from write_new_entity [OF inv e None b n] obtain fs1 fs2 where
      w: "create_dir E (dir h @ ''/'' @ e) fs = (True, fs1)"
        "write_to_file E (dir h @ ''/'' @ e @ ''/'' @ to_string n) b fs1 = (True, fs2)"
        "crud_inv E h (fs2, map_assign e [n] m)"
        "store_of E h (fs2, map_assign e [n] m) = (store_of E h (fs, m))(e \<mapsto> [n \<mapsto> b])" by auto
    then show ?thesis using num None no_entries [OF None, of E h fs]
      by (simp add: unf put_write_True)
  next
    case (Some v)
    have v: "sorted_wrt (<) v" "\<forall>i \<in> set v. 0 \<le> i"
      using ids_ok_find [OF crud_invD(3) [OF inv] Some] by simp_all
    have store: "entries_of (store_of E h (fs, m)) e n = None \<longleftrightarrow> n \<notin> set v"
      using content_at_iff [OF inv Some] entries_of_store [OF inv e] by simp
    define m1 where "m1 = snd (insert_to_map e n m)"
    define v1 where "v1 = (if n \<in> set v then v else sort (v @ [n]))"
    have ins: "insert_to_map e n m = (n \<notin> set v, m1)"
      and find: "map_find m1 e = Some v1" "\<And>d. d \<noteq> e \<Longrightarrow> map_find m1 d = map_find m d"
      using Some by (auto simp: m1_def v1_def insert_to_map_Some map_find_assign)
    have "ids_ok m1" using insert_to_map_ok [OF crud_invD(3) [OF inv] n] by (simp add: m1_def)
    moreover have "set v1 = insert n (set v)" by (auto simp: v1_def)
    ultimately obtain fs1 where
      w: "write_to_file E (dir h @ ''/'' @ e @ ''/'' @ to_string n) b fs = (True, fs1)"
        "crud_inv E h (fs1, m1)"
        "store_of E h (fs1, m1) = (store_of E h (fs, m))(e \<mapsto> (entries_of (store_of E h (fs, m)) e)(n \<mapsto> b))"
      using write_entry [OF inv Some b _ find] by blast
    then show ?thesis using num Some ins store
      by (cases "n \<in> set v") (simp_all add: unf put_write_True)
  qed
qed

lemma step_Remove:
  assumes inv: "crud_inv E h (fs, m)" and ok: "op_ok (Remove e n)"
  shows "step_ok E h (fs, m) (Remove e n)"
proof -
  have e: "valid_name e" and num: "stoi (to_string n) = Inr n" using ok by (simp_all add: stoi_to_string)
  have p: "dir h @ CHR ''/'' # e @ CHR ''/'' # to_string n = path_of (dir h) [e, to_string n]"
    by (simp add: path_of_two)
  note unf = step_ok_def crud_step_def crud_handle_def handle_delete_request_def file_suffix Let_def
    answer_ok_def p
  show ?thesis
  proof (cases "entries_of (store_of E h (fs, m)) e n")
    case None
    then have "node_at E fs (path_of (dir h) [e, to_string n]) = None"
      using entity_absent(2) [OF inv e] entity_present(5) [OF inv] content_at_iff [OF inv]
        entries_of_store [OF inv e, of n]
      by (cases "map_find m e") auto
    then show ?thesis using inv None by (simp add: unf node_at_None)
  next
    case (Some b)
    then obtain v where v: "map_find m e = Some v"
      using no_entries [of m e E h fs] by (cases "map_find m e") auto
    have "n \<in> set v" using Some content_at_iff [OF inv v, of n] entries_of_store [OF inv e, of n] by auto
    then obtain c where c: "node_at E fs (path_of (dir h) [e, to_string n]) = Some (FileNode c)"
      using entity_present(4) [OF inv v] by blast
    then have there: "fs_exists E fs (path_of (dir h) [e, to_string n])"
      "\<not> fs_is_directory E fs (path_of (dir h) [e, to_string n])" by (simp_all add: node_at_FileNode)
    have "node_at E fs (path_of (dir h) ([e] @ [to_string n])) = Some (FileNode c)" using c by simp
    from std_remove_spec [OF crud_invD(1) [OF inv] _ _ this] e
    obtain fs1 where rm: "fs_std_remove E fs (path_of (dir h) [e, to_string n]) = Some fs1"
      and up: "updated E (dir h) fs [e, to_string n] (map_option FileNode None) fs1" by auto
    let ?v1 = "filter (\<lambda>x. x \<noteq> n) v"
    have sorted: "sorted_wrt (<) v" "\<forall>i \<in> set v. 0 \<le> i"
      using ids_ok_find [OF crud_invD(3) [OF inv] v] by simp_all
    then have ids: "ids_ok (map_assign e ?v1 m)"
      by (intro ids_ok_assign crud_invD(3) [OF inv]) (auto simp: sorted_wrt_filter)
    have m1: "map_find (map_assign e ?v1 m) e = Some ?v1"
      "\<And>d. d \<noteq> e \<Longrightarrow> map_find (map_assign e ?v1 m) d = map_find m d"
      "set ?v1 = (if None = None then set v - {n} else insert n (set v))"
      by (auto simp: map_find_assign)
    note change = crud_file_change [OF inv v up ids m1]
    then show ?thesis using there num v rm Some by (simp add: unf)
  qed
qed

lemma step_simulates: "crud_inv E h s \<Longrightarrow> op_ok x \<Longrightarrow> step_ok E h s x"
proof -
  assume "crud_inv E h s" "op_ok x"
  moreover obtain fs m where "s = (fs, m)" by force
  ultimately show ?thesis
    by (cases x) (simp_all only: step_Create step_Replace step_Read step_List step_Remove)
qed

interpretation crud_store: refinement "crud_step E h" "crud_inv E h" op_ok store_step "store_of E h" "answer_ok E"
  for E h
proof unfold_locales
  fix s x assume "crud_inv E h s" "op_ok x"
  then have "step_ok E h s x" by (rule step_simulates)
  then show "crud_inv E h (snd (crud_step E h s x))"
    "store_of E h (snd (crud_step E h s x)) = snd (store_step (store_of E h s) x)"
    "answer_ok E (fst (store_step (store_of E h s) x)) (fst (crud_step E h s x))"
    by (simp_all add: step_ok_def case_prod_beta)
qed

lemma crud_inv_init:
  assumes "posix_files E (dir h)" and "node_at E fs (dir h) = Some DirNode"
    and "\<And>ns. valid_path ns \<Longrightarrow> ns \<noteq> [] \<Longrightarrow> node_at E fs (path_of (dir h) ns) = None"
  shows "crud_inv E h (fs, [])"
  using assms by (simp add: crud_inv_def ids_ok_empty entity_ok_def)

lemma store_of_init: "store_of E h (fs, []) = (\<lambda>_. None)"
  by (rule ext) (simp add: store_of_def)

section \<open>Requests the store does not cover\<close>

text \<open>A number that does not fit an \<open>int\<close>.\<close>

lemma put_overflow:
  assumes "req_method req = Verb_put" and "req_target req = prefix h @ ''/'' @ e @ ''/'' @ ds"
    and "e \<noteq> []" and "ds \<noteq> []" and "list_all is_digit ds" and "int_max < digits_value ds"
  shows "crud_handle E h s req r = (Inl (Uncaught OutOfRange), r, s)"
proof -
  have no: "CHR ''/'' \<notin> set ds" using assms(5) is_digit_not_sign by (auto simp: list_all_iff)
  have "last ds \<noteq> CHR ''/''" using no assms(4) by (metis last_in_set)
  then have "check_request_url h (req_target req) False = Some (e @ ''/'' @ ds)"
    unfolding assms(2) using assms(4) by (intro check_request_url_suffix) simp_all
  moreover have "split_suffix (e @ CHR ''/'' # ds) = (e, ds)"
    using no by (simp add: split_suffix_def find_last_of_append_notin)
  moreover have "stoi ds = Inl OutOfRange" using assms by (simp add: stoi_def strtol_digits)
  ultimately show ?thesis using assms(1,4,5)
    by (cases s) (simp add: crud_handle_def handle_put_request_def Let_def)
qed

text \<open>\<open>PUT\<close> of a number without an entity takes the number for both.\<close>

lemma put_number_alone:
  assumes inv: "crud_inv E h (fs, m)" and n: "0 \<le> n" "n \<le> int_max" and new: "map_find m (to_string n) = None"
  shows "\<exists>r' fs'. crud_handle E h (fs, m) (request_to h Verb_put (to_string n) b) r =
      (Inr False, r', fs', map_assign (to_string n) [n] m) \<and>
    status_of r' = Some St_not_found \<and>
    node_at E fs' (path_of (dir h) [to_string n]) = Some DirNode"
proof -
  have e: "valid_name (to_string n)" by simp
  have "node_at E fs (path_of (dir h) ([] @ [to_string n])) = None"
    using entity_absent(1) [OF inv e new] by simp
  from create_dir_new [OF crud_invD(1) [OF inv] _ e _ this] crud_invD(2) [OF inv]
  obtain fs1 where c: "create_dir E (dir h @ CHR ''/'' # to_string n) fs = (True, fs1)"
      and up: "updated E (dir h) fs [to_string n] (Some DirNode) fs1" by (auto simp: path_of_one)
  have there: "node_at E fs1 (path_of (dir h) [to_string n]) = Some DirNode"
    using updatedD [OF up, of "[to_string n]"] by simp
  have "split_suffix (to_string n) = (to_string n, to_string n)"
    using find_last_of_None_iff [of "CHR ''/''" "to_string n"] by (simp add: split_suffix_def)
  then show ?thesis
    using c there new n to_string_digits [OF n(1)] write_to_file_directory [OF there, of b]
    by (auto simp: crud_handle_def handle_put_request_def entity_suffix [OF e] Let_def stoi_to_string
        int_min_def put_write_def path_of_one)
qed

text \<open>A map that was not filled from the files: what a restarted server has.\<close>

lemma post_after_restart:
  assumes posix: "posix_files E (dir h)" and e: "valid_name e" and b: "int (length b) < max_file"
    and there: "node_at E fs (path_of (dir h) [e]) = Some DirNode"
    and old: "node_at E fs (path_of (dir h) [e, to_string 1]) = Some (FileNode c)"
  shows "\<exists>r' fs'. crud_handle E h (fs, []) (request_to h Verb_post e b) r =
      (Inr True, r', fs', [(e, [1])]) \<and> status_of r' = Some St_created \<and>
    node_at E fs' (path_of (dir h) [e, to_string 1]) = Some (FileNode b)"
proof -
  have "create_dir E (dir h @ CHR ''/'' # e) fs = (True, fs)"
    using create_dir_there [OF there] by (simp add: path_of_one)
  moreover obtain fs' where "write_to_file E (dir h @ CHR ''/'' # e @ CHR ''/'' # to_string 1) b fs = (True, fs')"
      "updated E (dir h) fs [e, to_string 1] (Some (FileNode b)) fs'"
    using write_to_file_spec [OF posix, of "[e]" "to_string 1" fs c b] e b there old by (auto simp: path_of_two)
  moreover from this(2) e have "node_at E fs' (path_of (dir h) [e, to_string 1]) = Some (FileNode b)"
    by (simp add: updatedD)
  ultimately show ?thesis
    by (simp add: crud_handle_def handle_post_request_def entity_suffix [OF e] get_next_id_def)
qed

section \<open>Properties\<close>

text \<open>A concrete server directory, for the witnesses.\<close>

definition demo_files :: mem where
  "demo_files = [''d'' \<mapsto> DirNode]"

definition demo_handler :: handler where
  "demo_handler = new_handler ''/api'' ''d''"

lemma demo_sel [simp]: "dir demo_handler = ''d''" "prefix demo_handler = ''/api''"
  by (simp_all add: demo_handler_def new_handler_def)

lemma demo_root: "node_at mem_world demo_files ''d'' = Some DirNode"
  by (simp add: demo_files_def)

lemma demo_below: "ns \<noteq> [] \<Longrightarrow> node_at mem_world demo_files (path_of ''d'' ns) = None"
  by (cases ns) (auto simp: demo_files_def path_of_def)

lemma demo_inv: "crud_inv mem_world demo_handler (demo_files, [])"
  by (rule crud_inv_init) (simp_all add: posix_mem_world demo_root demo_below)

text \<open>C3: refinement. As long as its id map and its files agree, as they do below an empty directory
  of its own, the CRUD handler answers every sequence of valid operations, one after the other,
  as an abstract store of entities does, each a map from ids to contents: the same statuses and
  bodies, afterwards the id map and the files hold what the store holds, and they still agree
  (each known entity is a directory, its ids are strictly increasing and not negative, and
  exactly they have a file in it). Valid are POST, PUT, GET and DELETE with a one-component
  entity name, an id that fits an \<open>int\<close> (in a PUT not negative) and a body that fits a file.\<close>

theorem crud_refines_store:
  assumes "crud_inv E h s" and "list_all op_ok xs"
  shows "list_all2 (answer_ok E) (fst (run_ops store_step (store_of E h s) xs)) (fst (run_ops (crud_step E h) s xs)) \<and>
    store_of E h (snd (run_ops (crud_step E h) s xs)) = snd (run_ops store_step (store_of E h s) xs) \<and>
    crud_inv E h (snd (run_ops (crud_step E h) s xs))"
  using crud_store.run_simulates [OF assms] crud_store.run_preserves [OF assms] by simp

lemma crud_refines_store_witness:
  "list_all2 (answer_ok mem_world)
     (fst (run_ops store_step (\<lambda>_. None) [Create ''Shoes'' ''a'', Remove ''Shoes'' 1, Read ''Shoes'' 1]))
     (fst (run_ops (crud_step mem_world demo_handler) (demo_files, [])
       [Create ''Shoes'' ''a'', Remove ''Shoes'' 1, Read ''Shoes'' 1]))"
  using crud_refines_store [OF demo_inv, of "[Create ''Shoes'' ''a'', Remove ''Shoes'' 1, Read ''Shoes'' 1]"]
  by (simp add: store_of_init valid_name_def max_file_def int_min_def int_max_def del: run_ops.simps)

text \<open>C27: \<open>get_next_id\<close> returns the least id from 1 on that the entity does not use, at most
  one more than the number of its ids; it adds that id to the entity, keeps its ids in
  order, and changes no other entity.\<close>

theorem get_next_id_least_free:
  assumes "ids_ok m" and "get_next_id e m = (n, m')"
  shows "1 \<le> n \<and> n \<le> 1 + int (length (ids_of m e)) \<and> n \<notin> set (ids_of m e) \<and>
    (\<forall>k. 1 \<le> k \<and> k < n \<longrightarrow> k \<in> set (ids_of m e)) \<and>
    ids_ok m' \<and> set (ids_of m' e) = insert n (set (ids_of m e)) \<and>
    (\<forall>d. d \<noteq> e \<longrightarrow> map_find m' d = map_find m d)"
  using get_next_id_spec [OF assms] by (auto simp: ids_of_def)

lemma get_next_id_least_free_witness:
  "get_next_id ''e'' [(''e'', [1, 2, 4])] = (3, [(''e'', [1, 2, 3, 4])]) \<and>
   (3 :: int) \<notin> set (ids_of [(''e'', [1, 2, 4])] ''e'')"
proof -
  have "ids_ok [(''e'', [1, 2, 4])]" by (simp add: ids_ok_def map_ok_def)
  moreover have run: "get_next_id ''e'' [(''e'', [1, 2, 4])] = (3, [(''e'', [1, 2, 3, 4])])"
    by (simp add: get_next_id_def insert_to_map_def)
  ultimately show ?thesis using get_next_id_least_free by blast
qed

text \<open>A PUT whose id is a number too large for an \<open>int\<close> leaves the handler as an uncaught
  \<open>out_of_range\<close> exception, with nothing changed.\<close>

theorem put_overflow_uncaught:
  assumes "req_method req = Verb_put" and "req_target req = prefix h @ ''/'' @ e @ ''/'' @ ds"
    and "e \<noteq> []" and "ds \<noteq> []" and "list_all is_digit ds" and "int_max < digits_value ds"
  shows "crud_handle E h s req r = (Inl (Uncaught OutOfRange), r, s)"
  using assms by (rule put_overflow)

lemma put_overflow_uncaught_witness:
  "crud_handle mem_world demo_handler (demo_files, []) (request_to demo_handler Verb_put ''Shoes/2147483648'' ''a'') [] =
     (Inl (Uncaught OutOfRange), [], demo_files, [])"
  by (rule put_overflow_uncaught [where e = "''Shoes''" and ds = "''2147483648''"])
     (simp_all add: is_digit_def digits_value_def digit_val_def int_max_def request_to_def)

text \<open>A PUT of a number without an entity is answered with not-found, yet it leaves a
  directory of that name and an entity with that id.\<close>

theorem put_number_without_entity:
  assumes "crud_inv E h (fs, m)" and "0 \<le> n" and "n \<le> int_max" and "map_find m (to_string n) = None"
  shows "\<exists>r' fs'. crud_handle E h (fs, m) (request_to h Verb_put (to_string n) b) r =
      (Inr False, r', fs', map_assign (to_string n) [n] m) \<and>
    status_of r' = Some St_not_found \<and>
    node_at E fs' (path_of (dir h) [to_string n]) = Some DirNode"
  using assms by (rule put_number_alone)

lemma put_number_without_entity_witness:
  "\<exists>r' fs'. crud_handle mem_world demo_handler (demo_files, [])
      (request_to demo_handler Verb_put (to_string 5) ''a'') [] =
        (Inr False, r', fs', map_assign (to_string 5) [5] []) \<and>
    status_of r' = Some St_not_found"
  using put_number_without_entity [OF demo_inv, of 5 "''a''" "[]"] by (auto simp: int_max_def)

text \<open>C12: lost data after a restart. The id map of a new server is empty although the files of an
  earlier run are there, so a POST to an entity with a file 1 answers that it created entry 1
  and overwrites that file.\<close>

theorem post_after_restart_overwrites:
  assumes "posix_files E (dir h)" and "valid_name e" and "int (length b) < max_file"
    and "node_at E fs (path_of (dir h) [e]) = Some DirNode"
    and "node_at E fs (path_of (dir h) [e, to_string 1]) = Some (FileNode c)"
  shows "\<exists>r' fs'. crud_handle E h (fs, []) (request_to h Verb_post e b) r =
      (Inr True, r', fs', [(e, [1])]) \<and> status_of r' = Some St_created \<and>
    node_at E fs' (path_of (dir h) [e, to_string 1]) = Some (FileNode b)"
  using assms by (rule post_after_restart)

lemma post_after_restart_overwrites_witness:
  "\<exists>r' fs'. crud_handle mem_world demo_handler
      (demo_files(''d/e'' \<mapsto> DirNode, path_of ''d'' [''e'', to_string 1] \<mapsto> FileNode ''old''), [])
      (request_to demo_handler Verb_post ''e'' ''new'') [] = (Inr True, r', fs', [(''e'', [1])]) \<and>
    node_at mem_world fs' (path_of ''d'' [''e'', to_string 1]) = Some (FileNode ''new'')"
  using post_after_restart_overwrites [of mem_world demo_handler "''e''" "''new''"
      "demo_files(''d/e'' \<mapsto> DirNode, path_of ''d'' [''e'', to_string 1] \<mapsto> FileNode ''old'')" "''old''" "[]"]
  by (auto simp: posix_mem_world valid_name_def max_file_def node_at_mem path_of_def)

end
