(* ===== verification/Text_Gen.thy ===== *)
theory Text_Gen
  imports Simple_Handlers
begin

text \<open>
  The text generation handler, \<open>src/request_handler_text_gen.cc\<close>: it checks a posted form,
  asks a third-party service for a text, and keeps the answers as files, one folder per
  client address and one file per title. libcurl, the JSON library, \<open>boost::split\<close> and the
  files are functions of the world \<open>E\<close>; \<open>key\<close> is the member \<open>api_key\<close>.
\<close>

section \<open>Messages\<close>

definition post_format_msg :: string where
  "post_format_msg = ''<h4>Bad Request</h4>Required POST request body format: title=xxx&prompt=xxx''"

definition valid_input_msg :: string where
  "valid_input_msg =
     ''<h4>Bad Request</h4><h5>Invalid title:</h5> <ul><li>at least 1 character and at most 20 characters'' @
     ''            </li> <li>only contains letters, numeric characters, special characters ('' @
     [CHR 0x22] @ ''.'' @ [CHR 0x22] @ '', '' @ [CHR 0x22] @ ''_'' @ [CHR 0x22] @ '', '' @
     [CHR 0x22] @ ''-'' @ [CHR 0x22] @ '', and '' @ [CHR 0x22] @ '' '' @ [CHR 0x22] @
     '')</li></ul><h5>Invalid text prompt:'' @
     ''            </h5> <ul><li>at least 1 character and at most 50 characters</li><li>only contains letters, numeric characters, special characters ('' @
     [CHR 0x22] @ ''?'' @ [CHR 0x22] @ '', '' @ [CHR 0x22] @ '','' @ [CHR 0x22] @ '', '' @
     [CHR 0x22] @ ''_'' @ [CHR 0x22] @ '', '' @ [CHR 0x22] @ ''-'' @ [CHR 0x22] @ '', and '' @
     [CHR 0x22] @ '' '' @ [CHR 0x22] @ '')</li></ul>''"

definition api_communication_msg :: string where
  "api_communication_msg =
     ''<h4>Bad Request</h4>Whoops, errors happen in the process: <ul>'' @
     ''            <li>communication with the text generation API</li></ul>Please wait for a moment and try again''"

definition file_system_msg :: string where
  "file_system_msg =
     ''<h4>Bad Request</h4>Whoops, errors happen in the process: <ul>'' @
     ''            <li>storing the data to server'' @ [CHR 0x27] @ ''s filesystem</li></ul>Please wait for a moment and try again''"

definition invalid_url_msg :: string where
  "invalid_url_msg = ''<h4>Bad Request</h4>The URL you entered is not valid''"

definition tg_bad_request :: "response \<Rightarrow> response" where [prepare_defs]:
  "tg_bad_request r =
     prepare_payload (set_body bad_request_msg (set_field content_type_field ''text/html'' (result St_bad_request r)))"

definition tg_not_found :: "response \<Rightarrow> response" where [prepare_defs]:
  "tg_not_found r =
     prepare_payload (set_body not_found_msg (set_field content_type_field ''text/html'' (result St_not_found r)))"

definition tg_server_error :: "response \<Rightarrow> response" where [prepare_defs]:
  "tg_server_error r =
     prepare_payload (set_field content_type_field ''text/html''
       (set_body internal_server_error_msg (result St_internal_server_error r)))"

text \<open>The three places that put their own text into a prepared answer.\<close>

definition with_body :: "string \<Rightarrow> response \<Rightarrow> response" where [prepare_defs]:
  "with_body msg r = prepare_payload (set_body msg r)"

section \<open>Checking the input\<close>

definition dot2underscore :: "string \<Rightarrow> string" where
  "dot2underscore t = map (\<lambda>c. if c = CHR ''.'' then CHR ''_'' else c) t"

definition is_letter :: "char \<Rightarrow> bool" where
  "is_letter c \<longleftrightarrow> 65 \<le> (of_char c :: nat) \<and> (of_char c :: nat) \<le> 90 \<or>
                  97 \<le> (of_char c :: nat) \<and> (of_char c :: nat) \<le> 122"

definition prompt_char :: "char \<Rightarrow> bool" where
  "prompt_char c \<longleftrightarrow> is_letter c \<or> is_digit c \<or> c = CHR ''?'' \<or> c = CHR '' '' \<or> c = CHR '','' \<or>
                    c = CHR ''_'' \<or> c = CHR ''-''"

definition title_char :: "char \<Rightarrow> bool" where
  "title_char c \<longleftrightarrow> is_letter c \<or> is_digit c \<or> c = CHR ''.'' \<or> c = CHR '' '' \<or> c = CHR ''_'' \<or> c = CHR ''-''"

definition text_prompt_max_len :: nat where "text_prompt_max_len = 50"
definition title_max_len :: nat where "title_max_len = 20"

definition check_prompts_validity :: "string \<Rightarrow> bool" where
  "check_prompts_validity t =
     (if length t \<le> 0 \<or> length t > text_prompt_max_len then False
      else t \<noteq> [] \<and> list_all prompt_char t)"

definition check_title_validity :: "string \<Rightarrow> bool" where
  "check_title_validity t =
     (if length t \<le> 0 \<or> length t > title_max_len then False
      else t \<noteq> [] \<and> list_all title_char t)"

text \<open>The pairs of a form: tokens of exactly two parts.\<close>

fun pair_of :: "string list \<Rightarrow> (string \<times> string) list" where
  "pair_of [k, v] = [(k, v)]"
| "pair_of _ = []"

definition form_pairs :: "('fs, 'j) world \<Rightarrow> string \<Rightarrow> (string \<times> string) list" where
  "form_pairs E body = concat (map (\<lambda>t. pair_of (str_split E t ''='')) (str_split E body ''&''))"

definition parse_post_body :: "('fs, 'j) world \<Rightarrow> string \<Rightarrow> string smap option" where
  "parse_post_body E body =
     (let m = fold (\<lambda>(k, v). map_insert k v) (form_pairs E body) [] in
      if str_split E body ''&'' \<noteq> [] \<and> map_find m ''title'' \<noteq> None \<and> map_find m ''prompt'' \<noteq> None
      then Some m else None)"

text \<open>\<open>%20\<close> becomes a space.\<close>

fun replace_space :: "string \<Rightarrow> string" where
  "replace_space [] = []"
| "replace_space (c # s) =
     (if is_prefix ''%20'' (c # s) then CHR '' '' # replace_space (drop 2 s) else c # replace_space s)"

section \<open>The service\<close>

definition parse_raw_output :: "('fs, 'j) world \<Rightarrow> string \<Rightarrow> string option" where
  "parse_raw_output E raw =
     (case json_parse E raw of None \<Rightarrow> None | Some j \<Rightarrow> json_get_string E j ''output'')"

text \<open>
  libcurl hands the answer to \<open>WriteCallback\<close> piece by piece. The result of the transfer is not
  looked at: what has arrived is the output.
\<close>

definition WriteCallback :: "string \<Rightarrow> string \<Rightarrow> string" where
  "WriteCallback userp contents = userp @ contents"

definition curl_api :: "('fs, 'j) world \<Rightarrow> string \<Rightarrow> string \<Rightarrow> string option" where
  "curl_api E key input =
     (case curl_post E ''https://api.deepai.org/api/text-generator'' (''api-key:'' @ key) input of
        None \<Rightarrow> None
      | Some pieces \<Rightarrow> Some (foldl WriteCallback [] pieces))"

lemma foldl_WriteCallback: "foldl WriteCallback out pieces = out @ concat pieces"
  by (induction pieces arbitrary: out) (simp_all add: WriteCallback_def)

lemma curl_api_pieces:
  "curl_api E key input =
     map_option concat (curl_post E ''https://api.deepai.org/api/text-generator'' (''api-key:'' @ key) input)"
  by (simp add: curl_api_def foldl_WriteCallback split: option.split)

section \<open>POST\<close>

definition client_folder :: "handler \<Rightarrow> string" where
  "client_folder h = dir h @ ''/'' @ dot2underscore (client_ip h)"

definition entry_json :: "('fs, 'j) world \<Rightarrow> string \<Rightarrow> string \<Rightarrow> string \<Rightarrow> 'j" where
  "entry_json E output text_prompt title =
     json_put_string E (json_put_string E (json_put_string E (json_empty E) ''output'' output)
       ''text_prompt'' text_prompt) ''title'' title"

text \<open>
  Saving an entry: \<open>Inr True\<close> when it is stored, \<open>Inr False\<close> on an error of the file
  system; \<open>dump\<close> throws on a text that is not UTF-8.
\<close>

definition save_entry ::
    "('fs, 'j) world \<Rightarrow> handler \<Rightarrow> string \<Rightarrow> string \<Rightarrow> string \<Rightarrow> 'fs \<Rightarrow> bool outcome \<times> 'fs" where
  "save_entry E h output text_prompt title fs =
     (let folder = client_folder h; (made, fs1) = create_dir E folder fs in
      if made then
        (case json_dump E (entry_json E output text_prompt title) of
           None \<Rightarrow> (Inl (Uncaught JsonError), fs1)
         | Some entry \<Rightarrow>
             (case write_to_file E (folder @ ''/'' @ title) entry fs1 of (w, fs2) \<Rightarrow> (Inr w, fs2)))
      else (Inr False, fs1))"

definition tg_failure :: "bool \<Rightarrow> response \<Rightarrow> response" where
  "tg_failure file_system_error r =
     with_body (if file_system_error then file_system_msg else api_communication_msg) (tg_server_error r)"

definition tg_post ::
    "('fs, 'j) world \<Rightarrow> handler \<Rightarrow> string \<Rightarrow> 'fs \<Rightarrow> request \<Rightarrow> response \<Rightarrow> bool outcome \<times> response \<times> 'fs" where
  "tg_post E h key fs req r =
     (case parse_post_body E (req_body req) of
        None \<Rightarrow> (Inr False, with_body post_format_msg (tg_bad_request r), fs)
      | Some m \<Rightarrow>
          (let title = the (map_find m ''title''); text_prompt = the (map_find m ''prompt'') in
           if \<not> check_prompts_validity text_prompt \<or> \<not> check_title_validity title
           then (Inr False, with_body valid_input_msg (tg_bad_request r), fs)
           else
             (case curl_api E key text_prompt of
                None \<Rightarrow> (Inr False, tg_failure False r, fs)
              | Some raw_output \<Rightarrow>
                  (case parse_raw_output E raw_output of
                     None \<Rightarrow> (Inr False, tg_failure False r, fs)
                   | Some output \<Rightarrow>
                       (let r1 = prepare_payload (set_field content_type_field ''text/plain''
                                   (set_body output (result St_ok r))) in
                        (case save_entry E h output text_prompt title fs of
                           (Inl e, fs1) \<Rightarrow> (Inl e, r1, fs1)
                         | (Inr True, fs1) \<Rightarrow> (Inr True, r1, fs1)
                         | (Inr False, fs1) \<Rightarrow> (Inr False, tg_failure True r1, fs1)))))))"

section \<open>GET and DELETE\<close>

definition get_ip_file_list ::
    "('fs, 'j) world \<Rightarrow> handler \<Rightarrow> string \<Rightarrow> 'fs \<Rightarrow> response \<Rightarrow> bool outcome \<times> response \<times> 'fs" where
  "get_ip_file_list E h path fs r =
     (if fs_exists E fs path \<and> fs_is_directory E fs path then
        (let title_list = map fst (filter snd (fs_list E fs path));
             r1 = set_field content_type_field ''application/json'' (result St_ok r);
             j = json_put_string E (json_put_string E (json_empty E) ''title list''
                   (''['' @ str_join E title_list '','' @ '']'')) ''IP'' (dot2underscore (client_ip h)) in
         (case json_dump E j of
            None \<Rightarrow> (Inl (Uncaught JsonError), r1, fs)
          | Some body \<Rightarrow> (Inr True, prepare_payload (set_body body r1), fs)))
      else (Inr False, tg_not_found r, fs))"

text \<open>The body of a found or removed entry; the field is set after the body.\<close>

definition answer_json :: "('fs, 'j) world \<Rightarrow> handler \<Rightarrow> string \<Rightarrow> string \<Rightarrow> 'j \<Rightarrow> 'j" where
  "answer_json E h status title j =
     json_put_string E (json_put_string E (json_put_string E j ''status'' status) ''title'' title)
       ''IP'' (dot2underscore (client_ip h))"

definition json_answer ::
    "('fs, 'j) world \<Rightarrow> handler \<Rightarrow> string \<Rightarrow> string \<Rightarrow> 'j \<Rightarrow> response \<Rightarrow> 'fs \<Rightarrow> bool outcome \<times> response \<times> 'fs" where
  "json_answer E h status title j r fs =
     (case json_dump E (answer_json E h status title j) of
        None \<Rightarrow> (Inl (Uncaught JsonError), r, fs)
      | Some body \<Rightarrow>
          (Inr True, prepare_payload (set_field content_type_field ''application/json'' (set_body body r)), fs))"

definition get_title_file ::
    "('fs, 'j) world \<Rightarrow> handler \<Rightarrow> string \<Rightarrow> string \<Rightarrow> bool \<Rightarrow> 'fs \<Rightarrow> response \<Rightarrow>
     bool outcome \<times> response \<times> 'fs" where
  "get_title_file E h path suffix remove fs r =
     (let titlepath = path @ ''/'' @ suffix in
      if fs_exists E fs path \<and> fs_is_directory E fs path \<and> fs_is_regular E fs titlepath then
        if remove then
          (case fs_remove E fs titlepath of
             None \<Rightarrow> (Inl (Uncaught FilesystemError), r, fs)
           | Some fs1 \<Rightarrow> json_answer E h ''removed'' suffix (json_empty E) (result St_ok r) fs1)
        else
          (case read_from_file E titlepath fs of
             Inl e \<Rightarrow> (Inl e, r, fs)
           | Inr None \<Rightarrow> (Inr False, tg_not_found r, fs)
           | Inr (Some filecontent) \<Rightarrow>
               (case json_parse E filecontent of
                  None \<Rightarrow> (Inl (Uncaught JsonError), result St_ok r, fs)
                | Some j \<Rightarrow>
                    json_answer E h ''readed'' suffix (json_put E (json_empty E) ''content'' j) (result St_ok r) fs))
      else (Inr False, tg_not_found r, fs))"

definition tg_get ::
    "('fs, 'j) world \<Rightarrow> handler \<Rightarrow> 'fs \<Rightarrow> request \<Rightarrow> response \<Rightarrow> bool outcome \<times> response \<times> 'fs" where
  "tg_get E h fs req r =
     (case check_request_url h (replace_space (req_target req)) True of
        None \<Rightarrow> (Inr False, tg_bad_request r, fs)
      | Some suffix \<Rightarrow>
          if suffix = [] then
            (case read_from_file E ''../static/static1/text.html'' fs of
               Inl e \<Rightarrow> (Inl e, r, fs)
             | Inr (Some content) \<Rightarrow>
                 (Inr True,
                  prepare_payload (set_body content
                    (set_field content_type_field ''text/html'' (result St_ok r))), fs)
             | Inr None \<Rightarrow> (Inr False, tg_server_error r, fs))
          else if suffix = ''history?'' then get_ip_file_list E h (client_folder h) fs r
          else get_title_file E h (client_folder h) suffix False fs r)"

definition tg_delete ::
    "('fs, 'j) world \<Rightarrow> handler \<Rightarrow> 'fs \<Rightarrow> request \<Rightarrow> response \<Rightarrow> bool outcome \<times> response \<times> 'fs" where
  "tg_delete E h fs req r =
     (case check_request_url h (replace_space (req_target req)) False of
        None \<Rightarrow> (Inr False, with_body invalid_url_msg (tg_bad_request r), fs)
      | Some suffix \<Rightarrow> get_title_file E h (client_folder h) suffix True fs r)"

definition tg_options :: "response \<Rightarrow> response" where
  "tg_options r =
     set_field ''Access-Control-Allow-Headers'' ''*'' (set_field ''Access-Control-Allow-Methods'' ''*''
       (set_field allow_origin_field ''*'' (result St_no_content r)))"

definition text_gen_handle ::
    "('fs, 'j) world \<Rightarrow> handler \<Rightarrow> string \<Rightarrow> 'fs \<Rightarrow> request \<Rightarrow> response \<Rightarrow> bool outcome \<times> response \<times> 'fs" where
  "text_gen_handle E h key fs req r =
     (case req_method req of
        Verb_post \<Rightarrow> tg_post E h key fs req r
      | Verb_get \<Rightarrow> tg_get E h fs req r
      | Verb_delete \<Rightarrow> tg_delete E h fs req r
      | Verb_options \<Rightarrow> (Inr True, tg_options r, fs)
      | _ \<Rightarrow> (Inr False, tg_bad_request r, fs))"

section \<open>The contract\<close>

text \<open>
  \<open>complete r r'\<close>: \<open>r'\<close> continues \<open>r\<close> as the contract of a handler asks. Every answer does but
  the one to \<open>OPTIONS\<close>, which sets neither body nor length.
\<close>

definition complete :: "response \<Rightarrow> response \<Rightarrow> bool" where
  "complete r r' \<longleftrightarrow>
     status_of r' \<noteq> None \<and> prepared r' \<and>
     (field_of allow_origin_field r = Some ''*'' \<longrightarrow> field_of allow_origin_field r' = Some ''*'')"

lemma complete_responses [simp]:
  "complete r (tg_bad_request r)" "complete r (tg_not_found r)" "complete r (tg_server_error r)"
  "complete r (with_body msg (tg_bad_request r))"
  by (simp_all add: complete_def prepare_defs)

lemma complete_failure [simp]: "complete r (tg_failure b r1)"
  if "field_of allow_origin_field r1 = field_of allow_origin_field r"
  using that by (simp add: complete_def tg_failure_def prepare_defs)

lemma complete_json_answer:
  "json_answer E h st t j (result St_ok r) fs = (Inr b, r', fs') \<Longrightarrow> complete r r'"
  by (auto simp: json_answer_def complete_def Let_def split: option.splits)

lemma complete_title_file:
  "get_title_file E h path suffix rm fs r = (Inr b, r', fs') \<Longrightarrow> complete r r'"
  by (auto simp: get_title_file_def Let_def split: if_splits option.splits sum.splits
      dest: complete_json_answer)

lemma complete_file_list:
  "get_ip_file_list E h path fs r = (Inr b, r', fs') \<Longrightarrow> complete r r'"
  by (auto simp: get_ip_file_list_def Let_def split: if_splits option.splits) (simp add: complete_def)

lemma complete_get: "tg_get E h fs req r = (Inr b, r', fs') \<Longrightarrow> complete r r'"
proof -
  have "complete r (prepare_payload (set_body c (set_field content_type_field t (result St_ok r))))" for c t
    by (simp add: complete_def)
  then show "tg_get E h fs req r = (Inr b, r', fs') \<Longrightarrow> complete r r'"
    by (auto simp: tg_get_def split: if_splits option.splits sum.splits
        dest: complete_title_file complete_file_list)
qed

lemma complete_delete: "tg_delete E h fs req r = (Inr b, r', fs') \<Longrightarrow> complete r r'"
  by (auto simp: tg_delete_def split: option.splits dest: complete_title_file)

lemma complete_post: "tg_post E h key fs req r = (Inr b, r', fs') \<Longrightarrow> complete r r'"
proof -
  have "complete r (prepare_payload (set_field content_type_field t (set_body c (result St_ok r))))" for c t
    by (simp add: complete_def)
  then show "tg_post E h key fs req r = (Inr b, r', fs') \<Longrightarrow> complete r r'"
    by (auto simp: tg_post_def Let_def split: if_splits option.splits sum.splits prod.splits bool.splits)
qed

lemma options_response [simp]:
  "status_of (tg_options r) = Some St_no_content" "bodyless (tg_options r) \<longleftrightarrow> bodyless r"
  "field_of allow_origin_field (tg_options r) = Some ''*''"
  by (simp_all add: tg_options_def)

lemma complete_text_gen:
  "text_gen_handle E h key fs req r = (Inr b, r', fs') \<Longrightarrow>
     complete r r' \<or> req_method req = Verb_options \<and> r' = tg_options r"
  by (auto simp: text_gen_handle_def split: verb.splits dest: complete_get complete_post complete_delete)

interpretation text_gen: handler_contract "text_gen_handle E h key" for E h key
  by unfold_locales (auto dest!: complete_text_gen simp: complete_def)

section \<open>Forms\<close>

lemma parse_post_bodyI:
  assumes "map_of (form_pairs E body) ''title'' = Some t" and "map_of (form_pairs E body) ''prompt'' = Some p"
  shows "\<exists>m. parse_post_body E body = Some m \<and> map_find m ''title'' = Some t \<and> map_find m ''prompt'' = Some p"
proof -
  have "map_find (fold (\<lambda>(k, v). map_insert k v) (form_pairs E body) []) k = map_of (form_pairs E body) k" for k
    using sm.fold_emplace [of "[]" "form_pairs E body" k] by simp
  moreover have "str_split E body ''&'' \<noteq> []" using assms(1) by (auto simp: form_pairs_def)
  ultimately show ?thesis using assms by (simp add: parse_post_body_def Let_def)
qed

section \<open>Titles and targets\<close>

lemma title_char_not: "title_char c \<Longrightarrow> c \<noteq> CHR ''/'' \<and> c \<noteq> CHR ''%'' \<and> c \<noteq> CHR ''?''"
  by (auto simp: title_char_def is_letter_def is_digit_def)

lemma title_chars:
  assumes "check_title_validity t"
  shows "t \<noteq> []" and "length t \<le> 20" and "CHR ''/'' \<notin> set t" and "CHR ''%'' \<notin> set t" and "CHR ''?'' \<notin> set t"
  using assms title_char_not
  by (auto simp: check_title_validity_def title_max_len_def list_all_iff split: if_splits)

lemma valid_title_name:
  "check_title_validity t \<Longrightarrow> t \<noteq> ''.'' \<Longrightarrow> t \<noteq> ''..'' \<Longrightarrow> valid_name t"
  using title_chars [of t] by (simp add: valid_name_def)

lemma replace_space_id: "CHR ''%'' \<notin> set s \<Longrightarrow> replace_space s = s"
  by (induction s rule: replace_space.induct) auto

text \<open>The target a client writes for a title: each space as \<open>%20\<close>.\<close>

definition write_space :: "string \<Rightarrow> string" where
  "write_space s = concat (map (\<lambda>c. if c = CHR '' '' then ''%20'' else [c]) s)"

lemma replace_space_write:
  "CHR ''%'' \<notin> set s \<Longrightarrow> replace_space (write_space s) = s"
  by (induction s) (auto simp: write_space_def)

lemma title_target:
  assumes "CHR ''%'' \<notin> set (prefix h)" and "s \<noteq> []" and "CHR ''%'' \<notin> set s" and "last s \<noteq> CHR ''/''"
  shows "check_request_url h (replace_space (write_space (prefix h @ ''/'' @ s))) g = Some s"
proof -
  have "replace_space (write_space (prefix h @ ''/'' @ s)) = prefix h @ ''/'' @ s"
    using assms by (intro replace_space_write) auto
  then show ?thesis using check_request_url_suffix [OF assms(2,4)] by simp
qed

end
