(* ===== verification/Factory.thy ===== *)
theory Factory
  imports Config_Parser Crud Text_Gen
begin

text \<open>
  The handler factories, \<open>src/request_handler_factory.cc\<close>. A route owns a factory for as
  long as the server runs; the factory makes a fresh handler for every request. What a
  handler keeps between requests is in its factory: only the CRUD factory has such a state,
  the map \<open>file_to_id\<close> its handlers share.
\<close>

section \<open>Factories\<close>

datatype handler_kind = StaticHandler | EchoHandler | NotFoundHandler | CrudHandler | BlockHandler
  | HealthHandler | TextGenHandler

record factory =
  fkind :: handler_kind
  farg :: config_arg
  file_to_id :: ids

text \<open>
  The CRUD constructor and the text generation \<open>create\<close> make the root directory when it is
  not there, and end the process when they cannot.
\<close>

definition make_root :: "('fs, 'j) world \<Rightarrow> string \<Rightarrow> 'fs \<Rightarrow> unit outcome \<times> 'fs" where
  "make_root E rt fs =
     (if \<not> (fs_exists E fs rt \<and> fs_is_directory E fs rt) then
        (case fs_create_directory E fs rt of
           None \<Rightarrow> (Inl (Exit 1), fs)
         | Some fs1 \<Rightarrow> (Inr (), fs1))
      else (Inr (), fs))"

definition new_factory ::
    "('fs, 'j) world \<Rightarrow> handler_kind \<Rightarrow> config_arg \<Rightarrow> 'fs \<Rightarrow> factory outcome \<times> 'fs" where
  "new_factory E k arg fs =
     (let f = \<lparr>fkind = k, farg = arg, file_to_id = []\<rparr> in
      if k = CrudHandler then
        (case make_root E (root arg) fs of
           (Inl e, fs1) \<Rightarrow> (Inl e, fs1)
         | (Inr _, fs1) \<Rightarrow> (Inr f, fs1))
      else (Inr f, fs))"

definition create_handler :: "('fs, 'j) world \<Rightarrow> factory \<Rightarrow> 'fs \<Rightarrow> handler outcome \<times> 'fs" where
  "create_handler E f fs =
     (let h = new_handler (location (farg f)) (root (farg f)) in
      if fkind f = TextGenHandler then
        (case make_root E (root (farg f)) fs of
           (Inl e, fs1) \<Rightarrow> (Inl e, fs1)
         | (Inr _, fs1) \<Rightarrow> (Inr h, fs1))
      else (Inr h, fs))"

section \<open>The virtual call\<close>

text \<open>\<open>handle_request\<close> of the handler the factory made: the files and the factory's map change.\<close>

definition with_ids :: "'b \<Rightarrow> bool outcome \<times> response \<times> 'fs \<Rightarrow> bool outcome \<times> response \<times> 'fs \<times> 'b" where
  "with_ids m a = (case a of (b, r, fs) \<Rightarrow> (b, r, fs, m))"

definition handle_request ::
    "('fs, 'j) world \<Rightarrow> factory \<Rightarrow> handler \<Rightarrow> 'fs \<times> ids \<Rightarrow> request \<Rightarrow> response \<Rightarrow>
     bool outcome \<times> response \<times> 'fs \<times> ids" where
  "handle_request E f h s req r =
     (case s of (fs, m) \<Rightarrow>
        case fkind f of
          StaticHandler \<Rightarrow> with_ids m (static_handle E h fs req r)
        | EchoHandler \<Rightarrow> with_ids m (echo_handle E h fs req r)
        | NotFoundHandler \<Rightarrow> with_ids m (not_found_handle h fs req r)
        | BlockHandler \<Rightarrow> with_ids m (block_handle h fs req r)
        | HealthHandler \<Rightarrow> with_ids m (health_handle h fs req r)
        | TextGenHandler \<Rightarrow> with_ids m (text_gen_handle E h (api_key (farg f)) fs req r)
        | CrudHandler \<Rightarrow> crud_handle E h (fs, m) req r)"

section \<open>The contract of the virtual call\<close>

lemma with_ids_eq: "with_ids m a = (b, r, s) \<longleftrightarrow> (\<exists>fs. a = (b, r, fs) \<and> s = (fs, m))"
  by (cases a) (auto simp: with_ids_def)

lemmas contract_laws =
  static.has_status echo.has_status not_found.has_status block.has_status health.has_status
  text_gen.has_status crud.has_status
  static.sets_length echo.sets_length not_found.sets_length block.sets_length
  health.sets_length text_gen.sets_length crud.sets_length
  static.keeps_origin echo.keeps_origin not_found.keeps_origin block.keeps_origin
  health.keeps_origin text_gen.keeps_origin crud.keeps_origin

interpretation any_handler: handler_contract "handle_request E f h" for E f h
  by unfold_locales
     (auto simp: handle_request_def with_ids_eq split: handler_kind.splits prod.splits dest: contract_laws)

section \<open>The map of ids through any request\<close>

lemma digits_value_nonneg: "0 \<le> digits_value ds"
proof -
  have "0 \<le> foldl (\<lambda>a c. 10 * a + int (digit_val c)) k ds" if "0 \<le> k" for k
    using that by (induction ds arbitrary: k) simp_all
  then show ?thesis by (simp add: digits_value_def)
qed

lemma stoi_digits_nonneg: "ds \<noteq> [] \<Longrightarrow> list_all is_digit ds \<Longrightarrow> stoi ds = Inr n \<Longrightarrow> 0 \<le> n"
  using digits_value_nonneg [of ds] by (auto simp: stoi_def strtol_digits split: if_splits)

lemma ids_ok_filter:
  assumes "ids_ok m" and "map_find m e = Some v"
  shows "ids_ok (map_assign e (filter P v) m)"
  using ids_ok_find [OF assms] by (intro ids_ok_assign assms(1)) (auto simp: sorted_wrt_filter)

lemma put_write_ids: "snd (snd (snd (put_write E path req r (fs, m)))) = m"
  by (simp add: put_write_def split: prod.split)

lemma put_ids:
  assumes "ids_ok m"
  shows "ids_ok (snd (snd (snd (handle_put_request E h suffix req r (fs, m)))))"
proof -
  have "ids_ok (snd (insert_to_map e n m))" "ids_ok (map_assign e [n] m)" if "0 \<le> n" for e n
    using assms that insert_to_map_ok ids_ok_assign [of m "[n]" e] by simp_all
  then show ?thesis using assms stoi_digits_nonneg
    by (auto simp: handle_put_request_def Let_def put_write_ids
        split: prod.split sum.split bool.split) (metis snd_conv)+
qed

lemma crud_ids:
  assumes "ids_ok m"
  shows "ids_ok (snd (snd (snd (crud_handle E h (fs, m) req r))))"
proof -
  have "ids_ok (snd (snd (snd (handle_post_request E h s req r (fs, m)))))" for s
    using get_next_id_spec(5) [OF assms] assms
    by (auto simp: handle_post_request_def Let_def split: prod.split)
  moreover have "ids_ok (snd (snd (snd (handle_get_request E h s r (fs, m)))))" for s
    using assms ids_ok_insert
    by (auto simp: handle_get_request_def Let_def split: option.split sum.split)
  moreover have "ids_ok (snd (snd (snd (handle_delete_request E h s r (fs, m)))))" for s
    using assms ids_ok_filter
    by (auto simp: handle_delete_request_def Let_def split: option.split sum.split prod.split)
  ultimately show ?thesis using assms put_ids [OF assms, of E h]
    by (simp add: crud_handle_def split: option.split verb.split)
qed

lemma handle_request_ids:
  assumes "ids_ok m"
  shows "ids_ok (snd (snd (snd (handle_request E f h (fs, m) req r))))"
  using assms crud_ids [OF assms, of E h fs req r]
  by (simp add: handle_request_def with_ids_def split: handler_kind.split prod.split)

end
