(* ===== verification/Session.thy ===== *)
theory Session
  imports Factory
begin

text \<open>
  One connection, \<open>src/session.cc\<close>: from the bytes in the buffer to the reply that is
  written back. What all sessions share is the files and the factories of the routes (the
  sessions copy the map of routes, but its values are shared pointers).
\<close>

section \<open>Shared state\<close>

type_synonym routes = "factory smap"

type_synonym 'fs shared = "'fs \<times> routes"

section \<open>Finding the route\<close>

text \<open>
  \<open>search_addr_binding\<close>: the parts of the url before its slashes, the longest first; the
  slash at the very beginning stands for the location \<open>/\<close>.
\<close>

function search_addr_binding :: "routes \<Rightarrow> string \<Rightarrow> string option" where
  "search_addr_binding R url =
     (case find_last_of (CHR ''/'') url of
        None \<Rightarrow> None
      | Some pos \<Rightarrow>
          if pos \<noteq> 0 then
            (let sub_url = take pos url in
             if map_find R sub_url \<noteq> None then Some sub_url else search_addr_binding R sub_url)
          else if map_find R ''/'' \<noteq> None then Some ''/''
          else None)"
  by pat_completeness auto
termination
  by (relation "measure (\<lambda>(R, url). length url)") (auto dest: find_last_of_Some_less)

declare search_addr_binding.simps [simp del]

section \<open>Parsing the request\<close>

definition max_length :: nat where "max_length = 1024"

text \<open>
  \<open>std::string(request_data)\<close> reads up to the first NUL; without one in the buffer the read
  goes past its end.
\<close>

definition c_string :: "string \<Rightarrow> string outcome" where
  "c_string data =
     (if CHR 0x00 \<in> set data then Inr (takeWhile (\<lambda>c. c \<noteq> CHR 0x00) data) else Inl Undefined)"

text \<open>\<open>None\<close>: the request is not valid.\<close>

definition parse_request ::
    "('fs, 'j) world \<Rightarrow> string \<Rightarrow> int \<Rightarrow> request option outcome" where
  "parse_request E request_data data_len =
     (if data_len < 0 \<or> data_len > int max_length then Inr None
      else
        (case c_string request_data of
           Inl e \<Rightarrow> Inl e
         | Inr s \<Rightarrow> Inr (parse_http E s)))"

section \<open>The response\<close>

definition dispatch ::
    "('fs, 'j) world \<Rightarrow> string \<Rightarrow> string \<Rightarrow> factory \<Rightarrow> request \<Rightarrow> response \<Rightarrow> 'fs shared \<Rightarrow>
     response outcome \<times> 'fs shared" where
  "dispatch E ip loc f req r s =
     (case s of (fs, R) \<Rightarrow>
        (case create_handler E f fs of
           (Inl e, fs1) \<Rightarrow> (Inl e, fs1, R)
         | (Inr h, fs1) \<Rightarrow>
             (case handle_request E f (set_client_ip ip h) (fs1, file_to_id f) req r of
                (b, r1, fs2, m) \<Rightarrow>
                  (case b of Inl e \<Rightarrow> Inl e | Inr _ \<Rightarrow> Inr r1, fs2,
                   map_assign loc (f\<lparr>file_to_id := m\<rparr>) R))))"

definition generate_response ::
    "('fs, 'j) world \<Rightarrow> string \<Rightarrow> string \<Rightarrow> int \<Rightarrow> 'fs shared \<Rightarrow> response outcome \<times> 'fs shared" where
  "generate_response E ip request_data data_len s =
     (let r = set_field allow_origin_field ''*'' [] in
      case parse_request E request_data data_len of
        Inl e \<Rightarrow> (Inl e, s)
      | Inr None \<Rightarrow> (Inr (result St_bad_request r), s)
      | Inr (Some req) \<Rightarrow>
          (case search_addr_binding (snd s) (req_target req @ ''/'') of
             None \<Rightarrow> (Inr (result St_bad_request r), s)
           | Some loc \<Rightarrow>
               (case map_find (snd s) loc of
                  None \<Rightarrow> (Inl Undefined, s)
                | Some f \<Rightarrow> dispatch E ip loc f req r s)))"

definition get_reply ::
    "('fs, 'j) world \<Rightarrow> string \<Rightarrow> string \<Rightarrow> int \<Rightarrow> 'fs shared \<Rightarrow> string outcome \<times> 'fs shared" where
  "get_reply E ip request_data data_len s =
     (case generate_response E ip request_data data_len s of
        (Inl e, s1) \<Rightarrow> (Inl e, s1)
      | (Inr r, s1) \<Rightarrow> (Inr (print_response E r), s1))"

section \<open>The connection\<close>

text \<open>
  The members of a session and the asynchronous operation it waits for. \<open>handle_read\<close> and
  \<open>handle_write\<close> are called when that operation ends; \<open>None\<close> for a session that has
  deleted itself.
\<close>

datatype pending = Pending_read | Pending_write

record session =
  peer_ip :: string
  in_data :: string
  rep :: string
  waits_for :: pending

definition zero_buffer :: string where
  "zero_buffer = replicate max_length (CHR 0x00)"

definition new_session :: session where
  "new_session = \<lparr>peer_ip = [], in_data = zero_buffer, rep = [], waits_for = Pending_read\<rparr>"

text \<open>\<open>remote_endpoint()\<close> throws when the peer is no longer connected: \<open>remote\<close> is \<open>None\<close>.\<close>

definition start :: "string option \<Rightarrow> session \<Rightarrow> session outcome" where
  "start remote c =
     (case remote of
        None \<Rightarrow> Inl (Uncaught SystemError)
      | Some ip \<Rightarrow> Inr (c\<lparr>peer_ip := ip, waits_for := Pending_read\<rparr>))"

text \<open>\<open>read\<close> starts to write the reply; \<open>recycle\<close> deletes the session.\<close>

definition read :: "session \<Rightarrow> session" where
  [simp]: "read c = c\<lparr>waits_for := Pending_write\<rparr>"

definition recycle :: "session option" where
  [simp]: "recycle = None"

text \<open>What a read puts into the buffer: at most its size, from its beginning.\<close>

definition fill :: "string \<Rightarrow> string \<Rightarrow> string" where
  "fill bytes buf = bytes @ drop (length bytes) buf"

definition handle_read ::
    "('fs, 'j) world \<Rightarrow> bool \<Rightarrow> nat \<Rightarrow> session \<Rightarrow> 'fs shared \<Rightarrow> session option outcome \<times> 'fs shared" where
  "handle_read E error bytes_transferred c s =
     (if \<not> error then
        (case get_reply E (peer_ip c) (in_data c) (int bytes_transferred) s of
           (Inl e, s1) \<Rightarrow> (Inl e, s1)
         | (Inr reply, s1) \<Rightarrow>
             (Inr (Some (read (c\<lparr>rep := reply, in_data := zero_buffer\<rparr>))), s1))
      else (Inr recycle, s))"

definition handle_write :: "bool \<Rightarrow> string option \<Rightarrow> session \<Rightarrow> session option outcome" where
  "handle_write error remote c =
     (if \<not> error then (case start remote c of Inl e \<Rightarrow> Inl e | Inr c' \<Rightarrow> Inr (Some c')) else Inr recycle)"

section \<open>The route that is found\<close>

text \<open>The locations a url stands for: its parts before a slash.\<close>

definition candidates :: "string \<Rightarrow> string set" where
  "candidates url =
     {take p url | p. 0 < p \<and> p < length url \<and> url ! p = CHR ''/''} \<union>
     (if url \<noteq> [] \<and> hd url = CHR ''/'' then {''/''} else {})"

definition longest_route :: "routes \<Rightarrow> string \<Rightarrow> string \<Rightarrow> bool" where
  "longest_route R url loc \<longleftrightarrow>
     loc \<in> candidates url \<and> map_find R loc \<noteq> None \<and>
     (\<forall>l \<in> candidates url. map_find R l \<noteq> None \<longrightarrow> length l \<le> length loc)"

lemma candidates_none: "CHR ''/'' \<notin> set url \<Longrightarrow> candidates url = {}"
proof -
  assume no: "CHR ''/'' \<notin> set url"
  have "url ! p \<noteq> CHR ''/''" if "p < length url" for p using no nth_mem [OF that] by auto
  moreover have "hd url \<noteq> CHR ''/''" if "url \<noteq> []" using no hd_in_set [OF that] by auto
  ultimately show ?thesis by (auto simp: candidates_def)
qed

lemma candidates_step:
  assumes pos: "find_last_of (CHR ''/'') url = Some pos" and "pos \<noteq> 0"
  shows "candidates url = insert (take pos url) (candidates (take pos url))"
proof -
  note last = find_last_of_SomeD [OF pos]
  have later: "url ! p \<noteq> CHR ''/''" if "pos < p" "p < length url" for p
  proof -
    have "drop (Suc pos) url ! (p - Suc pos) \<in> set (drop (Suc pos) url)" using that by (intro nth_mem) simp
    then have "url ! p \<in> set (drop (Suc pos) url)" using that by simp
    then show ?thesis using last by metis
  qed
  have "{take p url | p. 0 < p \<and> p < length url \<and> url ! p = CHR ''/''} =
      insert (take pos url) {take p (take pos url) | p. 0 < p \<and> p < length (take pos url) \<and> take pos url ! p = CHR ''/''}"
    (is "?A = insert _ ?B")
  proof (intro set_eqI iffI)
    fix l assume "l \<in> ?A"
    then obtain p where p: "l = take p url" "0 < p" "p < length url" "url ! p = CHR ''/''" by blast
    then have "p \<le> pos" using later by (meson not_le)
    then consider "p = pos" | "p < pos" by linarith
    then show "l \<in> insert (take pos url) ?B"
    proof cases
      case 2
      then have "l = take p (take pos url)" "take pos url ! p = CHR ''/''" using p by (simp_all add: min_def)
      then show ?thesis using p 2 last by fastforce
    qed (use p in simp)
  next
    fix l assume "l \<in> insert (take pos url) ?B"
    then show "l \<in> ?A" using last assms(2) by (auto simp: min_def)
  qed
  moreover have "url \<noteq> [] \<and> hd url = CHR ''/'' \<longleftrightarrow> take pos url \<noteq> [] \<and> hd (take pos url) = CHR ''/''"
    using assms(2) last by (cases url) auto
  ultimately show ?thesis by (simp add: candidates_def)
qed

lemma candidates_first:
  assumes "find_last_of (CHR ''/'') url = Some 0"
  shows "candidates url = {''/''}"
proof -
  note last = find_last_of_SomeD [OF assms]
  then obtain r where url: "url = CHR ''/'' # r" "CHR ''/'' \<notin> set r" by (cases url) auto
  have "url ! p \<noteq> CHR ''/''" if "0 < p" "p < length url" for p
    using url that by (cases p) (auto dest: nth_mem)
  then show ?thesis using url(1) by (auto simp: candidates_def)
qed

lemma candidates_length: "l \<in> candidates url \<Longrightarrow> length l \<le> length url"
  by (cases url) (auto simp: candidates_def split: if_splits)

lemma candidates_take: "l \<in> candidates url \<Longrightarrow> l = take (length l) url"
  by (cases url) (auto simp: candidates_def split: if_splits)

lemma search_longest:
  "case search_addr_binding R url of
     None \<Rightarrow> \<forall>l \<in> candidates url. map_find R l = None
   | Some loc \<Rightarrow> longest_route R url loc"
proof (induction R url rule: search_addr_binding.induct)
  case (1 R url)
  show ?case
  proof (cases "find_last_of (CHR ''/'') url")
    case None
    then have "candidates url = {}" using candidates_none find_last_of_None_iff by blast
    then show ?thesis using None by (subst search_addr_binding.simps) simp
  next
    case (Some pos)
    show ?thesis
    proof (cases "pos = 0")
      case True
      then show ?thesis using Some candidates_first [of url]
        by (subst search_addr_binding.simps) (auto simp: longest_route_def)
    next
      case False
      note step = candidates_step [OF Some False]
      show ?thesis
      proof (cases "map_find R (take pos url)")
        case None
        then have "search_addr_binding R url = search_addr_binding R (take pos url)"
          using Some False by (subst search_addr_binding.simps) simp
        then show ?thesis using "1.IH" [OF Some False refl] None
          by (auto simp: step longest_route_def split: option.splits)
      next
        case found: (Some f)
        then have "search_addr_binding R url = Some (take pos url)"
          using Some False by (subst search_addr_binding.simps) simp
        then show ?thesis using found candidates_length [of _ "take pos url"]
          by (auto simp: step longest_route_def)
      qed
    qed
  qed
qed

section \<open>What is read from the buffer\<close>

lemma c_string_fill:
  assumes "length bytes \<le> max_length"
  shows "c_string (fill bytes zero_buffer) =
    (if CHR 0x00 \<in> set bytes \<or> length bytes < max_length
     then Inr (takeWhile (\<lambda>c. c \<noteq> CHR 0x00) bytes) else Inl Undefined)"
proof -
  have buf: "fill bytes zero_buffer = bytes @ replicate (max_length - length bytes) (CHR 0x00)"
    by (simp add: fill_def zero_buffer_def)
  have "takeWhile (\<lambda>c. c \<noteq> CHR 0x00) (bytes @ replicate n (CHR 0x00)) = takeWhile (\<lambda>c. c \<noteq> CHR 0x00) bytes"
    for n by (induction bytes) (simp_all add: takeWhile_eq_Nil_iff hd_replicate)
  then show ?thesis using assms by (auto simp: c_string_def buf)
qed

lemma parse_request_fill:
  assumes "length bytes \<le> max_length" and "CHR 0x00 \<in> set bytes \<or> length bytes < max_length"
  shows "parse_request E (fill bytes zero_buffer) (int (length bytes)) =
    Inr (parse_http E (takeWhile (\<lambda>c. c \<noteq> CHR 0x00) bytes))"
  using assms by (simp add: parse_request_def c_string_fill)

section \<open>Every response is complete\<close>

definition answer_complete :: "response \<Rightarrow> bool" where
  "answer_complete r \<longleftrightarrow>
     status_of r \<noteq> None \<and> length_fits r \<and> field_of allow_origin_field r = Some ''*''"

lemma bad_request_complete: "answer_complete (result St_bad_request (set_field allow_origin_field ''*'' []))"
  by (simp add: answer_complete_def length_fits_def)

lemma dispatch_complete:
  assumes "dispatch E ip loc f req (set_field allow_origin_field ''*'' []) s = (Inr r, s')"
  shows "answer_complete r"
  using assms
  by (auto simp: dispatch_def answer_complete_def split: prod.splits sum.splits
      dest: any_handler.answer_complete(1))

lemma dispatch_prepared:
  assumes "dispatch E ip loc f req (set_field allow_origin_field ''*'' []) s = (Inr r, s')" and "req_method req \<noteq> Verb_options"
  shows "prepared r"
  using assms
  by (auto simp: dispatch_def split: prod.splits sum.splits dest: any_handler.answer_complete(2))

lemma generate_response_complete:
  assumes "generate_response E ip data n s = (Inr r, s')"
  shows "answer_complete r"
  using assms bad_request_complete
  by (auto simp: generate_response_def Let_def split: sum.splits option.splits dest: dispatch_complete)

section \<open>The routes through a request\<close>

definition routes_ok :: "routes \<Rightarrow> bool" where
  "routes_ok R \<longleftrightarrow> (\<forall>loc f. map_find R loc = Some f \<longrightarrow> ids_ok (file_to_id f))"

text \<open>Two maps of routes with the same locations, handlers and arguments.\<close>

definition same_routes :: "routes \<Rightarrow> routes \<Rightarrow> bool" where
  "same_routes R R' \<longleftrightarrow>
     (\<forall>loc. map_option (\<lambda>f. (fkind f, farg f)) (map_find R loc) =
            map_option (\<lambda>f. (fkind f, farg f)) (map_find R' loc))"

lemma same_routes_refl [simp]: "same_routes R R"
  by (simp add: same_routes_def)

lemma same_routes_trans: "same_routes R S \<Longrightarrow> same_routes S T \<Longrightarrow> same_routes R T"
  by (simp add: same_routes_def)

text \<open>What a dispatch does to the routes: nothing, or the handler's call on the map of the factory.\<close>

lemma dispatch_factory:
  assumes "dispatch E ip loc f req r (fs, R) = (a, fs', R')"
  shows "R' = R \<or>
    (\<exists>h fs1. R' = map_assign loc
       (f\<lparr>file_to_id := snd (snd (snd (handle_request E f h (fs1, file_to_id f) req r)))\<rparr>) R)"
proof (cases "create_handler E f fs")
  case (Pair c fs1)
  show ?thesis
  proof (cases c)
    case (Inr h)
    have "R' = map_assign loc (f\<lparr>file_to_id :=
        snd (snd (snd (handle_request E f (set_client_ip ip h) (fs1, file_to_id f) req r)))\<rparr>) R"
      using assms Pair Inr by (simp add: dispatch_def split: prod.splits)
    then show ?thesis by blast
  qed (use assms Pair in \<open>simp add: dispatch_def\<close>)
qed

lemma dispatch_routes:
  assumes "map_find R loc = Some f" and "routes_ok R"
    and "dispatch E ip loc f req r (fs, R) = (a, fs', R')"
  shows "routes_ok R' \<and> same_routes R R'"
proof -
  have "ids_ok (file_to_id f)" using assms(1,2) by (simp add: routes_ok_def)
  note ids = handle_request_ids [OF this]
  from dispatch_factory [OF assms(3)] show ?thesis
    using assms(1,2) ids by (auto simp: routes_ok_def same_routes_def map_find_assign split: if_splits)
qed

lemma generate_response_routes:
  assumes "routes_ok R" and "generate_response E ip data n (fs, R) = (a, fs', R')"
  shows "routes_ok R' \<and> same_routes R R'"
  using assms
  by (auto simp: generate_response_def Let_def split: sum.splits option.splits
      dest: dispatch_routes [OF _ assms(1)])

lemma get_reply_routes:
  assumes "routes_ok R" and "get_reply E ip data n (fs, R) = (a, fs', R')"
  shows "routes_ok R' \<and> same_routes R R'"
  using assms
  by (auto simp: get_reply_def split: prod.splits sum.splits dest: generate_response_routes [OF assms(1)])

lemma get_reply_complete:
  assumes "get_reply E ip data n s = (Inr reply, s')"
  shows "\<exists>r. reply = print_response E r \<and> answer_complete r"
  using assms
  by (auto simp: get_reply_def split: prod.splits sum.splits dest: generate_response_complete)

text \<open>A request a route is found for is handled by the handler of that route.\<close>

lemma generate_response_route:
  assumes "parse_request E data n = Inr (Some req)"
    and "longest_route R (req_target req @ ''/'') loc" and "map_find R loc = Some f"
  shows "generate_response E ip data n (fs, R) =
    dispatch E ip loc f req (set_field allow_origin_field ''*'' []) (fs, R)"
proof -
  let ?url = "req_target req @ ''/''"
  have "l = loc" if "longest_route R ?url l" for l
  proof -
    have len: "length l = length loc"
      using that assms(2) unfolding longest_route_def by (meson le_antisym)
    have "l = take (length l) ?url" "loc = take (length loc) ?url"
      using that assms(2) candidates_take unfolding longest_route_def by blast+
    then show ?thesis using len by metis
  qed
  moreover have "search_addr_binding R ?url \<noteq> None"
    using search_longest [where R = R and url = ?url] assms(2) by (auto simp: longest_route_def split: option.splits)
  ultimately have "search_addr_binding R ?url = Some loc"
    using search_longest [where R = R and url = ?url] by (auto split: option.splits)
  then show ?thesis using assms(1,3) by (simp add: generate_response_def)
qed

section \<open>From a request to its reply\<close>

lemma candidates_below:
  assumes "loc \<noteq> []"
  shows "loc \<in> candidates ((loc @ ''/'' @ x) @ ''/'')"
proof -
  have "loc = take (length loc) ((loc @ ''/'' @ x) @ ''/'')" by simp
  moreover have "((loc @ ''/'' @ x) @ ''/'') ! length loc = CHR ''/''" by (simp add: nth_append)
  moreover have "0 < length loc" "length loc < length ((loc @ ''/'' @ x) @ ''/'')" using assms by simp_all
  ultimately show ?thesis unfolding candidates_def by blast
qed

lemma reply_of_request:
  assumes "length bytes < max_length" and "CHR 0x00 \<notin> set bytes" and "parse_http E bytes = Some req"
    and "longest_route R (req_target req @ ''/'') loc" and "map_find R loc = Some f"
    and "dispatch E ip loc f req (set_field allow_origin_field ''*'' []) (fs, R) = (a, s')"
  shows "get_reply E ip (fill bytes zero_buffer) (int (length bytes)) (fs, R) =
    (case a of Inl e \<Rightarrow> Inl e | Inr r \<Rightarrow> Inr (print_response E r), s')"
proof -
  have "takeWhile (\<lambda>c. c \<noteq> CHR 0x00) bytes = bytes"
    by (rule takeWhile_eq_all_conv [THEN iffD2]) (use assms(2) in auto)
  then have "parse_request E (fill bytes zero_buffer) (int (length bytes)) = Inr (parse_http E bytes)"
    using parse_request_fill [of bytes E] assms(1) by (simp only: less_imp_le) simp
  then have "parse_request E (fill bytes zero_buffer) (int (length bytes)) = Inr (Some req)"
    by (simp only: assms(3))
  from generate_response_route [OF this assms(4,5)] show ?thesis
    by (simp add: get_reply_def assms(6) split: sum.split)
qed

section \<open>Locations with a slash at the end\<close>

lemma trailing_slash_not_candidate:
  assumes "p \<noteq> []" and "x \<noteq> []" and "hd x \<noteq> CHR ''/''"
  shows "p @ ''/'' \<notin> candidates (p @ ''/'' @ x @ ''/'')"
proof
  assume "p @ ''/'' \<in> candidates (p @ ''/'' @ x @ ''/'')"
  moreover have "p @ ''/'' \<noteq> ''/''" using assms(1) by simp
  ultimately obtain q where q: "p @ ''/'' = take q (p @ ''/'' @ x @ ''/'')"
      "q < length (p @ ''/'' @ x @ ''/'')" "(p @ ''/'' @ x @ ''/'') ! q = CHR ''/''"
    by (auto simp: candidates_def split: if_splits)
  have "q = length p + 1" using arg_cong [OF q(1), of length] q(2) by simp
  then have "(p @ ''/'' @ x @ ''/'') ! q = hd x" using assms(2) by (simp add: nth_append hd_conv_nth)
  then show False using q(3) assms(3) by simp
qed

section \<open>Properties\<close>

text \<open>A factory for the witnesses.\<close>

definition demo_factory :: factory where
  "demo_factory = \<lparr>fkind = StaticHandler, farg = default_arg, file_to_id = []\<rparr>"

text \<open>C17: routing. A url is bound to the longest registered location among its parts before a
  slash (and \<open>/\<close> for a url that begins with one), and to none when none of them is
  registered.\<close>

theorem route_is_longest:
  "case search_addr_binding R url of
     None \<Rightarrow> \<forall>l. l \<in> candidates url \<longrightarrow> map_find R l = None
   | Some loc \<Rightarrow> longest_route R url loc"
  using search_longest [where R = R and url = url] by (simp split: option.splits)

lemma route_is_longest_witness:
  "search_addr_binding [(''/'', demo_factory), (''/api'', demo_factory)] ''/api/x/'' = Some ''/api'' \<and>
   longest_route [(''/'', demo_factory), (''/api'', demo_factory)] ''/api/x/'' ''/api''"
proof -
  have "search_addr_binding [(''/'', demo_factory), (''/api'', demo_factory)] ''/api/x/'' = Some ''/api''"
    by (subst search_addr_binding.simps, simp, subst search_addr_binding.simps) simp
  then show ?thesis using route_is_longest [where R = "[(''/'', demo_factory), (''/api'', demo_factory)]" and url = "''/api/x/''"] by simp
qed

text \<open>A location written with a slash at the end is not found for the targets below it.\<close>

theorem trailing_slash_location_unused:
  assumes "p \<noteq> []" and "x \<noteq> []" and "hd x \<noteq> CHR ''/''"
  shows "search_addr_binding R ((p @ ''/'' @ x) @ ''/'') \<noteq> Some (p @ ''/'')"
  using search_longest [where R = R and url = "p @ ''/'' @ x @ ''/''"] trailing_slash_not_candidate [OF assms]
  by (auto simp: longest_route_def)

lemma trailing_slash_location_unused_witness:
  "search_addr_binding [(''/api/'', demo_factory)] ''/api/x/'' \<noteq> Some ''/api/''"
  using trailing_slash_location_unused [of "''/api''" "''x''" "[(''/api/'', demo_factory)]"] by simp

text \<open>C20: every response has a status and allows every origin. The response of a handler has its
  length computed from the body it is sent with, except that to an \<open>OPTIONS\<close> request, which may
  have neither. The response to bytes that are no request or that no route is found for is
  status 400 without a body, and no length is computed for it.\<close>

theorem responses_complete:
  assumes "generate_response E ip data n s = (Inr r, s')"
  shows "status_of r \<noteq> None \<and> field_of allow_origin_field r = Some ''*'' \<and>
    (case parse_request E data n of
       Inl e \<Rightarrow> False
     | Inr None \<Rightarrow> status_of r = Some St_bad_request \<and> bodyless r \<and> \<not> prepared r
     | Inr (Some req) \<Rightarrow>
         if search_addr_binding (snd s) (req_target req @ ''/'') = None
         then status_of r = Some St_bad_request \<and> bodyless r \<and> \<not> prepared r
         else prepared r \<or> req_method req = Verb_options \<and> bodyless r)"
proof -
  have refused: "\<not> prepared (result St_bad_request (set_field allow_origin_field ''*'' []))"
    "bodyless (result St_bad_request (set_field allow_origin_field ''*'' []))" by simp_all
  have "prepared r \<or> req_method req = Verb_options \<and> bodyless r"
    if "dispatch E ip loc f req (set_field allow_origin_field ''*'' []) s = (Inr r, s')" for loc f req
    using dispatch_prepared [OF that] dispatch_complete [OF that] by (auto simp: answer_complete_def length_fits_def)
  then show ?thesis
    using generate_response_complete [OF assms] assms refused
    by (auto simp: answer_complete_def generate_response_def Let_def split: sum.splits option.splits)
qed

lemma responses_complete_witness:
  "\<exists>r. generate_response mem_world ''1.2.3.4'' (fill ''nonsense'' zero_buffer) 8 (\<lambda>_. None, []) =
      (Inr r, (\<lambda>_. None, [])) \<and> status_of r = Some St_bad_request \<and> \<not> prepared r"
proof -
  have "parse_request mem_world (fill ''nonsense'' zero_buffer) (int (length ''nonsense'')) =
      Inr (parse_http mem_world (takeWhile (\<lambda>c. c \<noteq> CHR 0x00) ''nonsense''))"
    by (rule parse_request_fill) (simp_all add: max_length_def)
  then have parsed: "parse_request mem_world (fill ''nonsense'' zero_buffer) 8 = Inr None"
    by (simp add: mem_world_def mem_parse_http_def)
  then have "generate_response mem_world ''1.2.3.4'' (fill ''nonsense'' zero_buffer) 8 (\<lambda>_. None, []) =
      (Inr (result St_bad_request (set_field allow_origin_field ''*'' [])), (\<lambda>_. None, []))"
    by (simp add: generate_response_def parsed)
  from responses_complete [OF this] this parsed show ?thesis by auto
qed

text \<open>A request of fewer bytes than the buffer, or with a NUL in it, is parsed from its
  bytes up to the first NUL and from nothing else.\<close>

theorem request_bytes_parsed:
  assumes "length bytes \<le> max_length" and "CHR 0x00 \<in> set bytes \<or> length bytes < max_length"
  shows "parse_request E (fill bytes zero_buffer) (int (length bytes)) =
    Inr (parse_http E (takeWhile (\<lambda>c. c \<noteq> CHR 0x00) bytes))"
  using assms by (rule parse_request_fill)

lemma request_bytes_parsed_witness:
  "parse_request mem_world (fill ''ab'' zero_buffer) (int (length ''ab'')) = Inr (parse_http mem_world ''ab'')"
  using request_bytes_parsed [of "''ab''" mem_world] by (simp add: max_length_def)

text \<open>C36: when a read fills the buffer with bytes other than NUL, building the string from it
  reads past the buffer.\<close>

theorem full_buffer_overread:
  assumes "length bytes = max_length" and "CHR 0x00 \<notin> set bytes" and "in_data c = fill bytes zero_buffer"
  shows "handle_read E False (length bytes) c s = (Inl Undefined, s)"
  using assms c_string_fill [of bytes]
  by (simp add: handle_read_def get_reply_def generate_response_def parse_request_def)

lemma full_buffer_overread_witness:
  "handle_read mem_world False (length (replicate max_length (CHR ''a'')))
     (new_session\<lparr>in_data := fill (replicate max_length (CHR ''a'')) zero_buffer\<rparr>) (\<lambda>_. None, []) =
   (Inl Undefined, (\<lambda>_. None, []))"
  by (rule full_buffer_overread) simp_all

end
