(* ===== verification/Server.thy ===== *)
theory Server
  imports Session
begin

text \<open>
  The server, \<open>src/server.cc\<close> and \<open>src/server_main.cc\<close>: the dispatcher it builds from the
  address map, the connections it accepts, and \<open>main\<close>. The asynchronous operations end in
  any order; a relation says which completions are possible and what the completion handler
  does when the handlers run one after the other, as on a single thread. What the threads of
  the pool make of it is in \<open>Server_Pool\<close>.
\<close>

section \<open>The dispatcher\<close>

definition kind_of :: "string \<Rightarrow> handler_kind" where
  "kind_of t =
     (if t = ''StaticHandler'' then StaticHandler
      else if t = ''EchoHandler'' then EchoHandler
      else if t = ''CrudHandler'' then CrudHandler
      else if t = ''BlockHandler'' then BlockHandler
      else if t = ''HealthHandler'' then HealthHandler
      else if t = ''TextGenHandler'' then TextGenHandler
      else NotFoundHandler)"

fun create_dispatcher ::
    "('fs, 'j) world \<Rightarrow> (string \<times> config_arg) list \<Rightarrow> 'fs shared \<Rightarrow> unit outcome \<times> 'fs shared" where
  "create_dispatcher E [] s = (Inr (), s)"
| "create_dispatcher E ((loc, arg) # m) (fs, R) =
     (case new_factory E (kind_of (handler_type arg)) arg fs of
        (Inl e, fs1) \<Rightarrow> (Inl e, fs1, R)
      | (Inr f, fs1) \<Rightarrow> create_dispatcher E m (fs1, map_assign loc f R))"

section \<open>State and handlers\<close>

text \<open>
  \<open>next_session\<close> is the session that \<open>start_accept\<close> made for the next connection, \<open>accepting\<close>
  says whether an \<open>async_accept\<close> is outstanding. Only \<open>start_accept\<close> starts one, and its
  completion ends it.
\<close>

record 'fs server =
  files :: 'fs
  routes :: routes
  sessions :: "nat \<Rightarrow> session option"
  next_session :: session
  accepting :: bool

definition start_accept :: "'fs server \<Rightarrow> 'fs server" where
  "start_accept s = s\<lparr>next_session := new_session, accepting := True\<rparr>"

definition accept_completed :: "'fs server \<Rightarrow> 'fs server" where
  "accept_completed s = s\<lparr>accepting := False\<rparr>"

definition handle_accept :: "bool \<Rightarrow> string option \<Rightarrow> nat \<Rightarrow> 'fs server \<Rightarrow> 'fs server outcome" where
  "handle_accept error remote i s =
     (if \<not> error then
        (case start remote (next_session s) of
           Inl e \<Rightarrow> Inl e
         | Inr c \<Rightarrow> Inr (start_accept (s\<lparr>sessions := (sessions s)(i \<mapsto> c)\<rparr>)))
      else Inr (start_accept s))"

text \<open>The constructor, after the acceptor is bound.\<close>

definition new_server :: "('fs, 'j) world \<Rightarrow> addrmap \<Rightarrow> 'fs \<Rightarrow> 'fs server outcome \<times> 'fs" where
  "new_server E m fs =
     (case create_dispatcher E m (fs, []) of
        (Inl e, fs1, R) \<Rightarrow> (Inl e, fs1)
      | (Inr _, fs1, R) \<Rightarrow>
          (Inr (start_accept \<lparr>files = fs1, routes = R, sessions = \<lambda>_. None, next_session = new_session,
             accepting = False\<rparr>), fs1))"

section \<open>Completions\<close>

text \<open>
  A step is the completion of one pending operation: the accept, or the read or write the
  session \<open>i\<close> waits for, handled to its end. A stop in a handler ends the process, as no thread
  of the pool catches anything.
\<close>

definition finish ::
    "nat \<Rightarrow> 'fs server \<Rightarrow> session option outcome \<times> 'fs shared \<Rightarrow> 'fs server outcome" where
  "finish i s a =
     (case a of
        (Inl e, _) \<Rightarrow> Inl e
      | (Inr c, fs, R) \<Rightarrow> Inr (s\<lparr>files := fs, routes := R, sessions := (sessions s)(i := c)\<rparr>))"

inductive server_step :: "('fs, 'j) world \<Rightarrow> 'fs server \<Rightarrow> 'fs server outcome \<Rightarrow> bool"
  for E where
  accept_done: "accepting s \<Longrightarrow> sessions s i = None \<Longrightarrow>
    server_step E s (handle_accept error remote i (accept_completed s))"
| read_done: "sessions s i = Some c \<Longrightarrow> waits_for c = Pending_read \<Longrightarrow> length bytes \<le> max_length \<Longrightarrow>
    server_step E s (finish i s
      (handle_read E error (length bytes) (c\<lparr>in_data := fill bytes (in_data c)\<rparr>) (files s, routes s)))"
| write_done: "sessions s i = Some c \<Longrightarrow> waits_for c = Pending_write \<Longrightarrow>
    server_step E s (finish i s (handle_write error remote c, files s, routes s))"


inductive reachable :: "('fs, 'j) world \<Rightarrow> 'fs server \<Rightarrow> 'fs server \<Rightarrow> bool"
  for E s0 where
  reach_start: "reachable E s0 s0"
| reach_step: "reachable E s0 s \<Longrightarrow> server_step E s (Inr s') \<Longrightarrow> reachable E s0 s'"

section \<open>What \<open>main\<close> does\<close>

text \<open>
  The port is passed as a \<open>short\<close> and then taken as the \<open>unsigned short\<close> of an endpoint.
\<close>

definition endpoint_port :: "int \<Rightarrow> int" where
  "endpoint_port p = uint (word_of_int (sint (word_of_int p :: 16 word)) :: 16 word)"

definition valid_handlers :: "addrmap \<Rightarrow> bool" where
  "valid_handlers m \<longleftrightarrow> list_all (\<lambda>(loc, a). handler_type a \<in> set valid_handler_types) m"

text \<open>
  \<open>main\<close> returns a code, or the server runs on a port. \<open>binds port\<close> says whether the
  acceptor can be bound; if not, its exception is caught and \<open>main\<close> returns 0.
\<close>

datatype 'fs main_result = Returned int | Serving int "'fs server"

definition main :: "('fs, 'j) world \<Rightarrow> (int \<Rightarrow> bool) \<Rightarrow> string list \<Rightarrow> 'fs \<Rightarrow> 'fs main_result outcome \<times> 'fs" where
  "main E binds argv fs =
     (if length argv \<noteq> 2 then (Inr (Returned 1), fs)
      else
        (let file = argv ! 1;
             contents = (if fs_opens E fs file then Some (fs_bytes E fs file) else None) in
         case Parse_file contents (Config []) (-1) [] of
           (Inl e, config, port, m) \<Rightarrow> (Inl e, fs)
         | (Inr _, config, port, m) \<Rightarrow>
             if \<not> valid_handlers m then (Inr (Returned 1), fs)
             else if \<not> binds (endpoint_port port) then (Inr (Returned 0), fs)
             else (case new_server E m fs of
                     (Inl e, fs1) \<Rightarrow> (Inl e, fs1)
                   | (Inr s, fs1) \<Rightarrow> (Inr (Serving (endpoint_port port) s), fs1))))"

section \<open>The port\<close>

lemma endpoint_port_mod: "endpoint_port p = p mod 2 ^ 16"
proof -
  have "(word_of_int (sint (word_of_int p :: 16 word)) :: 16 word) = word_of_int p" by simp
  then show ?thesis by (simp add: endpoint_port_def uint_word_of_int)
qed

section \<open>The invariant\<close>

definition session_ok :: "('fs, 'j) world \<Rightarrow> session \<Rightarrow> bool" where
  "session_ok E c \<longleftrightarrow>
     in_data c = zero_buffer \<and>
     (waits_for c = Pending_write \<longrightarrow> (\<exists>r. rep c = print_response E r \<and> answer_complete r))"

definition server_inv :: "('fs, 'j) world \<Rightarrow> routes \<Rightarrow> 'fs server \<Rightarrow> bool" where
  "server_inv E R0 s \<longleftrightarrow>
     (\<forall>i c. sessions s i = Some c \<longrightarrow> session_ok E c) \<and>
     next_session s = new_session \<and> accepting s \<and> routes_ok (routes s) \<and> same_routes R0 (routes s)"

lemma session_ok_start: "in_data c = zero_buffer \<Longrightarrow> start remote c = Inr c' \<Longrightarrow> session_ok E c'"
  by (auto simp: session_ok_def start_def split: option.splits)

lemma session_ok_write:
  "session_ok E c \<Longrightarrow> handle_write error remote c = Inr (Some c') \<Longrightarrow> session_ok E c'"
  by (auto simp: handle_write_def session_ok_def start_def split: if_splits option.splits)

lemma handle_read_ok:
  assumes "handle_read E error n c (fs, R) = (Inr (Some c'), s')"
  shows "session_ok E c'"
  using assms
  by (auto simp: handle_read_def session_ok_def split: if_splits prod.splits sum.splits dest: get_reply_complete)

lemma handle_read_routes:
  assumes "routes_ok R" and "handle_read E error n c (fs, R) = (a, fs', R')"
  shows "routes_ok R' \<and> same_routes R R'"
  using assms
  by (auto simp: handle_read_def split: if_splits prod.splits sum.splits dest: get_reply_routes [OF assms(1)])

lemma server_inv_accept:
  assumes inv: "server_inv E R0 s" and run: "handle_accept error remote i (accept_completed s) = Inr s'"
  shows "server_inv E R0 s'"
proof -
  have "session_ok E c" if "start remote (next_session s) = Inr c" for c
    using inv that session_ok_start [OF _ that] by (simp add: server_inv_def new_session_def)
  then show ?thesis using inv run
    by (auto simp: server_inv_def handle_accept_def start_accept_def accept_completed_def split: if_splits sum.splits)
qed

lemma server_inv_finish:
  assumes inv: "server_inv E R0 s" and run: "finish i s (a, fs, R) = Inr s'"
    and c: "\<And>c. a = Inr (Some c) \<Longrightarrow> session_ok E c" and R: "routes_ok R \<and> same_routes (routes s) R"
  shows "server_inv E R0 s'"
  using inv run c R same_routes_trans
  by (auto simp: server_inv_def finish_def split: sum.splits if_splits)

lemma server_inv_step:
  assumes inv: "server_inv E R0 s" and step: "server_step E s a"
  shows "a = Inr s' \<Longrightarrow> server_inv E R0 s'"
  using step
proof (cases rule: server_step.cases)
  case (accept_done i error remote)
  then show "a = Inr s' \<Longrightarrow> server_inv E R0 s'" using server_inv_accept [OF inv] by simp
next
  case (read_done i c bytes error)
  obtain b fs R where run: "handle_read E error (length bytes) (c\<lparr>in_data := fill bytes (in_data c)\<rparr>)
      (files s, routes s) = (b, fs, R)" by (metis prod_cases3)
  have "session_ok E d" if "b = Inr (Some d)" for d by (rule handle_read_ok [OF run [unfolded that]])
  moreover have "routes_ok R \<and> same_routes (routes s) R"
    using inv handle_read_routes [OF _ run] by (simp add: server_inv_def)
  ultimately show "a = Inr s' \<Longrightarrow> server_inv E R0 s'"
    using server_inv_finish [OF inv, of i b fs R s'] read_done(1) run by simp
next
  case (write_done i c error remote)
  have "session_ok E c" using inv write_done(2) by (auto simp: server_inv_def)
  then have "session_ok E d" if "handle_write error remote c = Inr (Some d)" for d
    using session_ok_write that by blast
  moreover have "routes_ok (routes s) \<and> same_routes (routes s) (routes s)"
    using inv by (simp add: server_inv_def)
  ultimately show "a = Inr s' \<Longrightarrow> server_inv E R0 s'"
    using server_inv_finish [OF inv, of i "handle_write error remote c" "files s" "routes s" s'] write_done(1)
    by simp
qed

lemma server_inv_reachable: "reachable E s0 s \<Longrightarrow> server_inv E R0 s0 \<Longrightarrow> server_inv E R0 s"
  by (induction rule: reachable.induct) (auto intro: server_inv_step)

section \<open>The routes of a new server\<close>

lemma new_factory_Inr:
  "new_factory E k arg fs = (Inr f, fs1) \<Longrightarrow> f = \<lparr>fkind = k, farg = arg, file_to_id = []\<rparr>"
  by (auto simp: new_factory_def Let_def split: if_splits prod.splits sum.splits)

lemma create_dispatcher_routes:
  assumes "create_dispatcher E m (fs, R) = (Inr (), fs', R')" and "distinct (map fst m)"
  shows "map_find R' loc =
    (case map_of m loc of
       Some arg \<Rightarrow> Some \<lparr>fkind = kind_of (handler_type arg), farg = arg, file_to_id = []\<rparr>
     | None \<Rightarrow> map_find R loc)"
  using assms
proof (induction m arbitrary: fs R)
  case (Cons e m)
  obtain l arg where e: "e = (l, arg)" by force
  obtain f fs1 where f: "new_factory E (kind_of (handler_type arg)) arg fs = (Inr f, fs1)"
    using Cons.prems(1) by (auto simp: e split: prod.splits sum.splits)
  have "create_dispatcher E m (fs1, map_assign l f R) = (Inr (), fs', R')"
    using Cons.prems(1) by (simp add: e f)
  note IH = Cons.IH [OF this]
  have "map_of m l = None" "distinct (map fst m)"
    using Cons.prems(2) by (simp_all add: e map_of_eq_None_iff)
  then show ?case using IH
    by (cases "loc = l") (simp_all add: e map_find_assign new_factory_Inr [OF f] split: option.split)
qed simp

lemma new_server_routes:
  assumes "new_server E m fs = (Inr s, fs1)" and "map_ok m"
  shows "map_find (routes s) loc =
      map_option (\<lambda>arg. \<lparr>fkind = kind_of (handler_type arg), farg = arg, file_to_id = []\<rparr>) (map_find m loc)"
    and "sessions s = (\<lambda>_. None)" and "next_session s = new_session" and "accepting s" and "files s = fs1"
proof -
  obtain R where d: "create_dispatcher E m (fs, []) = (Inr (), fs1, R)" and s: "routes s = R"
      "sessions s = (\<lambda>_. None)" "next_session s = new_session" "accepting s" "files s = fs1"
    using assms(1) by (auto simp: new_server_def start_accept_def split: prod.splits sum.splits)
  show "map_find (routes s) loc =
      map_option (\<lambda>arg. \<lparr>fkind = kind_of (handler_type arg), farg = arg, file_to_id = []\<rparr>) (map_find m loc)"
    using create_dispatcher_routes [OF d map_ok_distinct [OF assms(2)], of loc] s
    by (simp split: option.splits)
  show "sessions s = (\<lambda>_. None)" "next_session s = new_session" "accepting s" "files s = fs1" using s by simp_all
qed

lemma new_server_inv:
  assumes "new_server E m fs = (Inr s, fs1)" and "map_ok m"
  shows "server_inv E (routes s) s"
  using new_server_routes [OF assms]
  by (auto simp: server_inv_def routes_ok_def ids_ok_empty)

section \<open>Properties\<close>

text \<open>The port a configuration gives is the port the server listens on, and a configuration
  without a valid one makes it listen on 65535.\<close>

theorem listening_port:
  assumes "-1 \<le> p" and "p \<le> 65535"
  shows "endpoint_port p = (if p = -1 then 65535 else p)"
  using assms by (simp add: endpoint_port_mod)

lemma listening_port_witness: "endpoint_port (-1) = 65535 \<and> endpoint_port 40000 = 40000"
  using listening_port [of "-1"] listening_port [of 40000] by simp

text \<open>A configuration file that cannot be opened does not stop \<open>main\<close>: it serves, without a
  route, on port 65535.\<close>

theorem unreadable_config_served:
  assumes "\<not> fs_opens E fs file" and "binds 65535"
  shows "\<exists>s. main E binds [program, file] fs = (Inr (Serving 65535 s), fs) \<and> routes s = []"
  using assms
  by (simp add: main_def Parse_file_def valid_handlers_def endpoint_port_mod new_server_def start_accept_def)

lemma unreadable_config_served_witness:
  "\<exists>s. main mem_world (\<lambda>_. True) [''server'', ''conf''] (\<lambda>_. None) = (Inr (Serving 65535 s), \<lambda>_. None) \<and> routes s = []"
  by (rule unreadable_config_served) (simp_all add: mem_world_def is_file_node_def)

text \<open>A peer that has disconnected again before the accept completes stops the server.\<close>

theorem peer_gone_stops_server:
  assumes "accepting s" and "sessions s i = None"
  shows "server_step E s (Inl (Uncaught SystemError))"
  using accept_done [OF assms, of E False None] by (simp add: handle_accept_def start_def)

lemma peer_gone_stops_server_witness:
  "server_step mem_world \<lparr>files = \<lambda>_. None, routes = [], sessions = \<lambda>_. None, next_session = new_session,
      accepting = True\<rparr>
     (Inl (Uncaught SystemError))"
  by (rule peer_gone_stops_server [where i = 0]) simp_all

end
