(* ===== verification/Server_Pool.thy ===== *)
theory Server_Pool
  imports Server
begin

text \<open>
  The process around the server: the pool of threads that \<open>server::start\<close> makes
  (\<open>src/server.cc\<close>), \<open>stop\<close> and the destructor, and the ways in which the process of
  \<open>src/server_main.cc\<close> ends. Every thread runs \<open>io_service::run\<close>, which hands it one completed
  operation after the other and returns when the service is stopped or has no work left.

  A thread that has taken a completion is busy until its handler ends. The handlers of accepts,
  writes and failed reads touch one session only. The handlers of requests share the files and
  the id maps, and nothing locks them. A handler that no other handler of a request overlaps
  has the effect \<open>perform\<close> gives, wherever in its execution that takes place. As soon as two
  of them have overlapped, the model says nothing about them any more: \<open>overlapped\<close> is set, and
  from then on a request leaves any files, any routes and any session, or ends the process in
  any way. (What overlapping CRUD requests do is in \<open>Crud_Threads\<close> and \<open>Crud_Races\<close>.)
\<close>

section \<open>Completions as jobs\<close>

datatype job =
    Accept_job nat bool "string option"
  | Read_job nat bool string
  | Write_job nat bool "string option"

text \<open>The operation a job completes: the accept, or the one a session waits for.\<close>

fun job_op :: "job \<Rightarrow> nat option" where
  "job_op (Accept_job i error remote) = None"
| "job_op (Read_job i error bytes) = Some i"
| "job_op (Write_job i error remote) = Some i"

fun job_pending :: "'fs server \<Rightarrow> job \<Rightarrow> bool" where
  "job_pending s (Accept_job i error remote) \<longleftrightarrow> accepting s \<and> sessions s i = None"
| "job_pending s (Read_job i error bytes) \<longleftrightarrow>
     length bytes \<le> max_length \<and>
     (case sessions s i of None \<Rightarrow> False | Some c \<Rightarrow> waits_for c = Pending_read)"
| "job_pending s (Write_job i error remote) \<longleftrightarrow>
     (case sessions s i of None \<Rightarrow> False | Some c \<Rightarrow> waits_for c = Pending_write)"

fun perform :: "('fs, 'j) world \<Rightarrow> job \<Rightarrow> 'fs server \<Rightarrow> 'fs server outcome" where
  "perform E (Accept_job i error remote) s = handle_accept error remote i (accept_completed s)"
| "perform E (Read_job i error bytes) s =
     (case sessions s i of
        None \<Rightarrow> Inl Undefined
      | Some c \<Rightarrow> finish i s
          (handle_read E error (length bytes) (c\<lparr>in_data := fill bytes (in_data c)\<rparr>) (files s, routes s)))"
| "perform E (Write_job i error remote) s =
     (case sessions s i of
        None \<Rightarrow> Inl Undefined
      | Some c \<Rightarrow> finish i s (handle_write error remote c, files s, routes s))"

text \<open>The steps of the server are the pending jobs.\<close>

lemma server_step_job: "server_step E s a \<longleftrightarrow> (\<exists>j. job_pending s j \<and> a = perform E j s)"
proof
  assume "server_step E s a"
  then show "\<exists>j. job_pending s j \<and> a = perform E j s"
  proof (cases rule: server_step.cases)
    case (accept_done i error remote)
    then show ?thesis by (intro exI [of _ "Accept_job i error remote"]) simp
  next
    case (read_done i c bytes error)
    then show ?thesis by (intro exI [of _ "Read_job i error bytes"]) simp
  next
    case (write_done i c error remote)
    then show ?thesis by (intro exI [of _ "Write_job i error remote"]) simp
  qed
next
  assume "\<exists>j. job_pending s j \<and> a = perform E j s"
  then obtain j where j: "job_pending s j" "a = perform E j s" by blast
  then show "server_step E s a"
    by (cases j) (auto split: option.splits intro: server_step.intros)
qed

text \<open>What a job does to the sessions: nothing, to the sessions it is not about.\<close>

definition job_session :: "job \<Rightarrow> nat" where
  "job_session j = (case j of Accept_job i _ _ \<Rightarrow> i | Read_job i _ _ \<Rightarrow> i | Write_job i _ _ \<Rightarrow> i)"

lemma finish_sessions: "finish i s a = Inr s' \<Longrightarrow> k \<noteq> i \<Longrightarrow> sessions s' k = sessions s k"
  by (auto simp: finish_def split: prod.splits sum.splits)

lemma perform_others: "perform E j s = Inr s' \<Longrightarrow> k \<noteq> job_session j \<Longrightarrow> sessions s' k = sessions s k"
  by (cases j) (auto simp: job_session_def handle_accept_def start_accept_def accept_completed_def
      split: if_splits sum.splits option.splits dest: finish_sessions)

lemma pending_sessions:
  "sessions s' (job_session j) = sessions s (job_session j) \<Longrightarrow> (job_op j = None \<Longrightarrow> accepting s' = accepting s) \<Longrightarrow>
     job_pending s' j \<longleftrightarrow> job_pending s j"
  by (cases j) (auto simp: job_session_def)

text \<open>Only the completion of an accept ends an accept, and its handler starts the next one.\<close>

lemma perform_accepting: "perform E j s = Inr s' \<Longrightarrow> accepting s \<Longrightarrow> accepting s'"
  by (cases j)
     (auto simp: handle_accept_def start_accept_def finish_def split: if_splits option.splits sum.splits prod.splits)

lemma perform_finite:
  assumes "perform E j s = Inr s'" and "finite (dom (sessions s))"
  shows "finite (dom (sessions s'))"
proof -
  have "dom (sessions s') \<subseteq> insert (job_session j) (dom (sessions s))"
    using perform_others [OF assms(1)] by fastforce
  then show ?thesis using assms(2) finite_subset by blast
qed

section \<open>The pool\<close>

text \<open>
  \<open>n_threads\<close> is compared with a counter of type \<open>size_t\<close>, so a negative number would count
  as a huge one.
\<close>

definition pool_size :: "int \<Rightarrow> nat" where
  "pool_size n_threads = unat (word_of_int n_threads :: 64 word)"

datatype worker = Idle | Busy job | Left

record 'fs pool =
  srv :: "'fs server"
  stopped :: bool
  workers :: "worker list"
  overlapped :: bool

text \<open>\<open>boost::thread::hardware_concurrency()\<close> is \<open>unsigned\<close>; the parameter of \<open>start\<close> is an \<open>int\<close>.\<close>

definition concurrency_arg :: "nat \<Rightarrow> int" where
  "concurrency_arg c = sint (word_of_nat c :: 32 word)"

definition start_pool :: "int \<Rightarrow> 'fs server \<Rightarrow> 'fs pool" where
  "start_pool n_threads s =
     \<lparr>srv = s, stopped = False, workers = replicate (pool_size n_threads) Idle, overlapped = False\<rparr>"

definition stop_server :: "'fs pool \<Rightarrow> 'fs pool" where
  "stop_server p = p\<lparr>stopped := True\<rparr>"

text \<open>
  How the process ends: with a status (from \<open>exit\<close> or from \<open>main\<close>), by \<open>std::terminate\<close>
  after an exception in a thread, by a signal, or in undefined behaviour.
\<close>

datatype ending = Exited int | Terminated exn | Killed int | Unpredictable

fun ending_of :: "stop \<Rightarrow> ending" where
  "ending_of (Uncaught e) = Terminated e"
| "ending_of (Exit n) = Exited n"
| "ending_of Undefined = Unpredictable"

text \<open>
  The signals \<open>main\<close> installs \<open>signalHandler\<close> for, with their numbers on Linux. Any other
  signal may kill the process.
\<close>

definition handled_signals :: "int list" where
  "handled_signals = [2, 14, 15]"

definition signalHandler :: "int \<Rightarrow> stop" where
  "signalHandler signum = Exit signum"

text \<open>
  After the threads have been joined \<open>start\<close> returns, the server goes out of scope, its
  destructor calls \<open>stop\<close>, and \<open>main\<close> returns 0.
\<close>

definition destroy_server :: "'fs pool \<Rightarrow> 'fs pool" where
  "destroy_server p = stop_server p"

definition main_end :: "'fs pool \<Rightarrow> 'fs pool \<times> ending" where
  "main_end p = (destroy_server p, Exited 0)"

text \<open>
  The service has no work when no accept is outstanding and no session waits for anything;
  a completion that was taken counts as work until its handler returns.
\<close>

definition no_work :: "'fs server \<Rightarrow> bool" where
  "no_work s \<longleftrightarrow> \<not> accepting s \<and> sessions s = (\<lambda>_. None)"

definition handles_request :: "job \<Rightarrow> bool" where
  "handles_request j \<longleftrightarrow> (case j of Read_job i error bytes \<Rightarrow> \<not> error | _ \<Rightarrow> False)"

text \<open>Taking \<open>j\<close> makes two handlers of requests run at the same time.\<close>

definition meets :: "'fs pool \<Rightarrow> job \<Rightarrow> bool" where
  "meets p j \<longleftrightarrow> handles_request j \<and> (\<exists>j'. Busy j' \<in> set (workers p) \<and> handles_request j')"

definition disturbed :: "'fs pool \<Rightarrow> job \<Rightarrow> bool" where
  "disturbed p j \<longleftrightarrow> overlapped p \<and> handles_request j"

inductive pool_step :: "('fs, 'j) world \<Rightarrow> 'fs pool \<Rightarrow> 'fs pool + ending \<Rightarrow> bool"
  for E where
  take_job: "k < length (workers p) \<Longrightarrow> workers p ! k = Idle \<Longrightarrow> \<not> stopped p \<Longrightarrow> job_pending (srv p) j \<Longrightarrow>
    \<forall>i < length (workers p). \<forall>j'. workers p ! i = Busy j' \<longrightarrow> job_op j' \<noteq> job_op j \<Longrightarrow>
    pool_step E p (Inl (p\<lparr>workers := (workers p)[k := Busy j], overlapped := overlapped p \<or> meets p j\<rparr>))"
| job_done: "k < length (workers p) \<Longrightarrow> workers p ! k = Busy j \<Longrightarrow> \<not> disturbed p j \<Longrightarrow>
    perform E j (srv p) = Inr s \<Longrightarrow>
    pool_step E p (Inl (p\<lparr>srv := s, workers := (workers p)[k := Idle]\<rparr>))"
| job_stops: "k < length (workers p) \<Longrightarrow> workers p ! k = Busy j \<Longrightarrow> \<not> disturbed p j \<Longrightarrow>
    perform E j (srv p) = Inl e \<Longrightarrow>
    pool_step E p (Inr (ending_of e))"
| job_disturbed: "k < length (workers p) \<Longrightarrow> workers p ! k = Busy j \<Longrightarrow> disturbed p j \<Longrightarrow>
    pool_step E p (Inl (p\<lparr>srv := (srv p)\<lparr>files := fs, routes := R, sessions := (sessions (srv p))(job_session j := c)\<rparr>,
      workers := (workers p)[k := Idle]\<rparr>))"
| disturbed_stops: "k < length (workers p) \<Longrightarrow> workers p ! k = Busy j \<Longrightarrow> disturbed p j \<Longrightarrow>
    pool_step E p (Inr (ending_of e))"
| leave: "k < length (workers p) \<Longrightarrow> workers p ! k = Idle \<Longrightarrow> stopped p \<or> no_work (srv p) \<Longrightarrow>
    pool_step E p (Inl (p\<lparr>workers := (workers p)[k := Left]\<rparr>))"
| joined: "list_all (\<lambda>w. w = Left) (workers p) \<Longrightarrow> pool_step E p (Inr (snd (main_end p)))"
| signalled: "signum \<in> set handled_signals \<Longrightarrow> pool_step E p (Inr (ending_of (signalHandler signum)))"
| killed: "signum \<notin> set handled_signals \<Longrightarrow> pool_step E p (Inr (Killed signum))"

inductive_cases pool_stepE: "pool_step E p (Inl q)"
inductive_cases pool_endE: "pool_step E p (Inr e)"

inductive pool_reachable :: "('fs, 'j) world \<Rightarrow> 'fs pool \<Rightarrow> 'fs pool \<Rightarrow> bool"
  for E p0 where
  pool_start: "pool_reachable E p0 p0"
| pool_next: "pool_reachable E p0 p \<Longrightarrow> pool_step E p (Inl q) \<Longrightarrow> pool_reachable E p0 q"

text \<open>The overlapping of two handlers is never forgotten.\<close>

lemma overlapped_step: "pool_step E p (Inl q) \<Longrightarrow> overlapped p \<Longrightarrow> overlapped q"
  by (auto elim!: pool_stepE)

text \<open>On one thread handlers do not overlap.\<close>

lemma one_thread_alone:
  assumes "pool_reachable E p0 p" and "length (workers p0) \<le> 1" and "\<not> overlapped p0"
  shows "\<not> overlapped p \<and> length (workers p) \<le> 1"
  using assms(1)
proof (induction rule: pool_reachable.induct)
  case (pool_next p q)
  from pool_next.hyps(2) show ?case
  proof (cases rule: pool_step.cases)
    case (take_job k j)
    then have "workers p = [Idle]" using pool_next.IH by (cases "workers p") auto
    then show ?thesis using take_job pool_next.IH by (simp add: meets_def)
  qed (use pool_next.IH in auto)
qed (use assms in simp)

section \<open>Jobs do not disturb each other\<close>

text \<open>
  The jobs in progress are still to be completed, and no two of them complete the same
  operation.
\<close>

definition pool_inv :: "'fs pool \<Rightarrow> bool" where
  "pool_inv p \<longleftrightarrow>
     (\<forall>k < length (workers p). \<forall>j. workers p ! k = Busy j \<longrightarrow> job_pending (srv p) j) \<and>
     (\<forall>k < length (workers p). \<forall>i < length (workers p). \<forall>j j'.
        k \<noteq> i \<and> workers p ! k = Busy j \<and> workers p ! i = Busy j' \<longrightarrow> job_op j \<noteq> job_op j')"

lemma pool_invD:
  assumes "pool_inv p" and "k < length (workers p)" and "workers p ! k = Busy j"
  shows "job_pending (srv p) j"
    and "i < length (workers p) \<Longrightarrow> k \<noteq> i \<Longrightarrow> workers p ! i = Busy j' \<Longrightarrow> job_op j \<noteq> job_op j'"
  using assms by (auto simp: pool_inv_def)

lemma different_sessions:
  assumes "job_pending s j" and "job_pending s j'" and "job_op j \<noteq> job_op j'"
  shows "job_session j \<noteq> job_session j'"
  using assms by (cases j; cases j') (auto simp: job_session_def)

lemma pool_inv_take:
  assumes "pool_inv p" and "job_pending (srv p) j" and "k < length (workers p)"
    and "\<forall>i < length (workers p). \<forall>j'. workers p ! i = Busy j' \<longrightarrow> job_op j' \<noteq> job_op j"
  shows "pool_inv (p\<lparr>workers := (workers p)[k := Busy j], overlapped := b\<rparr>)"
  using assms unfolding pool_inv_def by (auto simp: nth_list_update split: if_splits)

text \<open>Whatever a job does to its own session, the other jobs stay pending.\<close>

lemma pool_inv_done:
  assumes inv: "pool_inv p" and k: "k < length (workers p)" "workers p ! k = Busy j"
    and others: "\<And>i. i \<noteq> job_session j \<Longrightarrow> sessions s i = sessions (srv p) i"
    and acc: "accepting (srv p) \<Longrightarrow> accepting s"
  shows "pool_inv (p\<lparr>srv := s, workers := (workers p)[k := Idle]\<rparr>)"
proof -
  have "job_pending s j'" if i: "i < length (workers p)" "i \<noteq> k" "workers p ! i = Busy j'" for i j'
  proof -
    note p = pool_invD(1) [OF inv k] pool_invD(1) [OF inv i(1,3)]
    have "job_session j' \<noteq> job_session j"
      using different_sessions [OF p] pool_invD(2) [OF inv k i(1)] i by metis
    then have "sessions s (job_session j') = sessions (srv p) (job_session j')" by (rule others)
    then show ?thesis using p(2) acc by (cases j') (auto simp: job_session_def)
  qed
  then show ?thesis using inv k(1) by (auto simp: pool_inv_def nth_list_update split: if_splits)
qed

lemma pool_inv_start: "pool_inv (start_pool n s)"
  by (simp add: pool_inv_def start_pool_def)

text \<open>What a pool that was started on \<open>n\<close> threads looks like until the process ends.\<close>

definition server_ready :: "'fs server \<Rightarrow> bool" where
  "server_ready s \<longleftrightarrow> accepting s \<and> finite (dom (sessions s))"

lemma server_ready_perform: "server_ready s \<Longrightarrow> perform E j s = Inr s' \<Longrightarrow> server_ready s'"
  using perform_accepting perform_finite by (auto simp: server_ready_def)

definition pool_running :: "('fs, 'j) world \<Rightarrow> int \<Rightarrow> 'fs server \<Rightarrow> 'fs pool \<Rightarrow> bool" where
  "pool_running E n s0 p \<longleftrightarrow>
     pool_inv p \<and> \<not> stopped p \<and> length (workers p) = pool_size n \<and> Left \<notin> set (workers p) \<and>
     server_ready (srv p) \<and> (\<not> overlapped p \<longrightarrow> reachable E s0 (srv p))"

lemma set_update_not: "x \<notin> set ws \<Longrightarrow> w \<noteq> x \<Longrightarrow> x \<notin> set (ws[k := w])"
  using set_update_subset_insert [of ws k w] by auto

lemma pool_running_step:
  assumes "pool_running E n s0 p" and "pool_step E p (Inl q)"
  shows "pool_running E n s0 q"
  using assms(2)
proof (cases rule: pool_step.cases)
  case (take_job k j)
  then show ?thesis using assms(1) pool_inv_take [of p j k]
    by (simp add: pool_running_def set_update_not)
next
  case (job_done k j s)
  have "job_pending (srv p) j" using pool_invD(1) [of p k j] job_done(2,3) assms(1) by (simp add: pool_running_def)
  then have "server_step E (srv p) (Inr s)" unfolding server_step_job using job_done(5) by metis
  then have "\<not> overlapped p \<Longrightarrow> reachable E s0 s" using assms(1) by (auto simp: pool_running_def intro: reach_step)
  moreover have "pool_inv q"
    using pool_inv_done [of p k j s] job_done perform_others [OF job_done(5)] perform_accepting [OF job_done(5)] assms(1)
    by (simp add: pool_running_def)
  ultimately show ?thesis using job_done assms(1) server_ready_perform [OF _ job_done(5)]
    by (simp add: pool_running_def set_update_not)
next
  case (job_disturbed k j c R fs)
  let ?s = "(srv p)\<lparr>files := fs, routes := R, sessions := (sessions (srv p))(job_session j := c)\<rparr>"
  have "pool_inv q" using pool_inv_done [of p k j ?s] job_disturbed assms(1) by (simp add: pool_running_def)
  moreover have "server_ready ?s" using assms(1) by (auto simp: pool_running_def server_ready_def)
  ultimately show ?thesis using job_disturbed assms(1)
    by (simp add: pool_running_def set_update_not disturbed_def)
next
  case (leave k)
  then show ?thesis using assms(1) by (simp add: pool_running_def server_ready_def no_work_def)
qed

lemma pool_running_reachable:
  assumes "pool_reachable E (start_pool n s0) p" and "server_ready s0"
  shows "pool_running E n s0 p"
  using assms(1)
proof (induction rule: pool_reachable.induct)
  case pool_start
  show ?case using pool_inv_start [of n s0] assms(2) by (auto simp: pool_running_def start_pool_def reach_start)
qed (rule pool_running_step)

lemma new_server_ready: "new_server E m fs = (Inr s, fs1) \<Longrightarrow> server_ready s"
  by (auto simp: new_server_def start_accept_def server_ready_def split: prod.splits sum.splits)

section \<open>The pool goes on\<close>

lemma busy_has_step:
  assumes "k < length (workers p)" and "workers p ! k = Busy j"
  shows "(\<exists>q. pool_step E p (Inl q)) \<or> (\<exists>e. perform E j (srv p) = Inl e \<and> pool_step E p (Inr (ending_of e)))"
proof (cases "disturbed p j")
  case True
  then show ?thesis using job_disturbed [OF assms] by blast
next
  case False
  then show ?thesis using assms by (cases "perform E j (srv p)") (auto intro: pool_step.intros)
qed

section \<open>After \<open>stop\<close>\<close>

text \<open>
  Once the service is stopped no job is taken; each thread ends the handler it is in and
  leaves. The work that is left goes down with every step.
\<close>

fun worker_work :: "worker \<Rightarrow> nat" where
  "worker_work Idle = 1"
| "worker_work (Busy j) = 2"
| "worker_work Left = 0"

definition pool_work :: "'fs pool \<Rightarrow> nat" where
  "pool_work p = sum_list (map worker_work (workers p))"

lemma work_update:
  "k < length ws \<Longrightarrow> worker_work w < worker_work (ws ! k) \<Longrightarrow>
     sum_list (map worker_work (ws[k := w])) < sum_list (map worker_work ws)"
proof (induction ws arbitrary: k)
  case (Cons v ws)
  then show ?case by (cases k) simp_all
qed simp

lemma stopped_step:
  assumes "stopped p" and "pool_step E p (Inl q)"
  shows "stopped q \<and> pool_work q < pool_work p"
  using assms(2)
proof (cases rule: pool_step.cases)
  case (job_done k j s)
  then show ?thesis using assms(1) work_update [of k "workers p" Idle] by (simp add: pool_work_def)
next
  case (job_disturbed k j c R fs)
  then show ?thesis using assms(1) work_update [of k "workers p" Idle] by (simp add: pool_work_def)
next
  case (leave k)
  then show ?thesis using assms(1) work_update [of k "workers p" Left] by (simp add: pool_work_def)
qed (use assms(1) in simp)

lemma stopped_has_step:
  assumes "stopped p" and "pool_work p \<noteq> 0"
  shows "(\<exists>q. pool_step E p (Inl q)) \<or> (\<exists>k j x. k < length (workers p) \<and> workers p ! k = Busy j \<and> perform E j (srv p) = Inl x)"
proof -
  have "\<exists>w \<in> set (workers p). worker_work w \<noteq> 0"
  proof (rule ccontr)
    assume "\<not> ?thesis"
    then have "map worker_work (workers p) = map (\<lambda>_. 0) (workers p)" by simp
    then show False using assms(2) unfolding pool_work_def by (metis sum_list_0)
  qed
  then obtain k where k: "k < length (workers p)" "workers p ! k \<noteq> Left"
    by (metis in_set_conv_nth worker_work.simps(3))
  show ?thesis
  proof (cases "workers p ! k")
    case Idle
    then show ?thesis using leave [OF k(1), of E] assms(1) by blast
  next
    case (Busy j)
    then show ?thesis using busy_has_step [OF k(1) Busy, of E] k(1) by blast
  qed (use k in simp)
qed

section \<open>The number of threads\<close>

lemma pool_size_nonneg: "0 \<le> n \<Longrightarrow> n < 2 ^ 64 \<Longrightarrow> pool_size n = nat n"
  by (simp add: pool_size_def unat_eq_nat_uint uint_word_of_int take_bit_int_eq_self)

lemma concurrency_arg_small:
  assumes "c < 2 ^ 31"
  shows "concurrency_arg c = int c"
proof -
  have "(word_of_nat c :: 32 word) = word_of_int (int c)" by simp
  then show ?thesis using assms by (simp add: concurrency_arg_def sint_sbintrunc' signed_take_bit_int_eq_self del: of_int_of_nat_eq)
qed

lemma pool_size_concurrency: "c < 2 ^ 31 \<Longrightarrow> pool_size (concurrency_arg c) = c"
  by (simp add: concurrency_arg_small pool_size_nonneg)

section \<open>Runs after \<open>stop\<close>\<close>

lemma stopped_run:
  assumes "stopped (run 0)" and "\<And>t. t < T \<Longrightarrow> pool_step E (run t) (Inl (run (Suc t)))"
  shows "stopped (run T) \<and> T + pool_work (run T) \<le> pool_work (run 0)"
  using assms(2)
proof (induction T)
  case 0
  then show ?case using assms(1) by simp
next
  case (Suc T)
  then have "stopped (run T)" "T + pool_work (run T) \<le> pool_work (run 0)" by simp_all
  moreover have "pool_step E (run T) (Inl (run (Suc T)))" using Suc.prems by simp
  ultimately show ?case using stopped_step [where p = "run T" and q = "run (Suc T)"] by fastforce
qed

lemma pool_work_le: "pool_work p \<le> 2 * length (workers p)"
proof -
  have "worker_work w \<le> 2" for w by (cases w) simp_all
  then have "sum_list (map worker_work (workers p)) \<le> sum_list (map (\<lambda>_. 2) (workers p))"
    by (intro sum_list_mono)
  then show ?thesis by (simp add: pool_work_def sum_list_triv)
qed

lemma no_work_joined: "pool_work p = 0 \<Longrightarrow> pool_step E p (Inr (Exited 0))"
proof -
  assume no: "pool_work p = 0"
  have "w = Left" if "w \<in> set (workers p)" for w
    using no member_le_sum_list [of "worker_work w" "map worker_work (workers p)"] that
    by (cases w) (auto simp: pool_work_def)
  then have "list_all (\<lambda>w. w = Left) (workers p)" by (simp add: list_all_iff)
  from joined [OF this, of E] show ?thesis by (simp add: main_end_def)
qed

section \<open>Properties\<close>

text \<open>C7: in every state of a server in which no two handlers of requests have run at the same
  time, as none do on a single thread, and in whatever order its connections complete: the
  buffer of each session is zero, each reply that waits to be written is the print of a
  complete response, an accept is outstanding, the routes are those of the address map, each
  with the handler type of its location, and the ids of every entity are increasing and not
  negative.\<close>

theorem server_reachable_ok:
  assumes "new_server E m fs = (Inr s0, fs1)" and "map_ok m"
    and "pool_reachable E (start_pool n s0) p" and "\<not> overlapped p"
  shows "(\<forall>i c. sessions (srv p) i = Some c \<longrightarrow>
       in_data c = zero_buffer \<and>
       (waits_for c = Pending_write \<longrightarrow> (\<exists>r. rep c = print_response E r \<and> answer_complete r))) \<and>
    accepting (srv p) \<and>
    (\<forall>loc. map_option (\<lambda>f. (fkind f, farg f)) (map_find (routes (srv p)) loc) =
       map_option (\<lambda>a. (kind_of (handler_type a), a)) (map_find m loc)) \<and>
    (\<forall>loc f. map_find (routes (srv p)) loc = Some f \<longrightarrow> ids_ok (file_to_id f))"
proof -
  have "reachable E s0 (srv p)"
    using pool_running_reachable [OF assms(3) new_server_ready [OF assms(1)]] assms(4) by (simp add: pool_running_def)
  from server_inv_reachable [OF this new_server_inv [OF assms(1,2)]]
  have "server_inv E (routes s0) (srv p)" .
  moreover have "map_option (\<lambda>f. (fkind f, farg f)) (map_find (routes s0) loc) =
      map_option (\<lambda>a. (kind_of (handler_type a), a)) (map_find m loc)" for loc
    by (simp add: new_server_routes(1) [OF assms(1,2)] option.map_comp comp_def)
  ultimately show ?thesis by (auto simp: server_inv_def session_ok_def routes_ok_def same_routes_def)
qed

text \<open>An empty server, for the witnesses.\<close>

definition idle_server :: "mem server" where
  "idle_server = start_accept \<lparr>files = \<lambda>_. None, routes = [], sessions = \<lambda>_. None, next_session = new_session,
     accepting = False\<rparr>"

lemma idle_server_sessions [simp]: "sessions idle_server = (\<lambda>_. None)" "accepting idle_server"
  by (simp_all add: idle_server_def start_accept_def)

lemma new_idle_server: "new_server mem_world [] (\<lambda>_. None) = (Inr idle_server, \<lambda>_. None)"
  by (simp add: new_server_def idle_server_def)

lemma idle_takes:
  "pool_reachable mem_world (start_pool 2 idle_server)
     ((start_pool 2 idle_server)\<lparr>workers := [Idle, Busy (Accept_job 0 False remote)]\<rparr>)"
proof -
  let ?p = "start_pool 2 idle_server"
  have w: "workers ?p = [Idle, Idle]" by (simp add: start_pool_def pool_size_nonneg numeral_2_eq_2)
  have "pool_step mem_world ?p (Inl (?p\<lparr>workers := (workers ?p)[1 := Busy (Accept_job 0 False remote)],
      overlapped := overlapped ?p \<or> meets ?p (Accept_job 0 False remote)\<rparr>))"
    by (rule take_job) (auto simp: w start_pool_def pool_size_nonneg numeral_2_eq_2 less_Suc_eq_0_disj)
  from pool_next [OF pool_start this] show ?thesis
    by (simp add: w meets_def handles_request_def)
qed

lemma server_reachable_ok_witness:
  "\<exists>p. pool_reachable mem_world (start_pool 2 idle_server) p \<and>
    (\<exists>c. sessions (srv p) 0 = Some c \<and> in_data c = zero_buffer)"
proof -
  let ?p = "(start_pool 2 idle_server)\<lparr>workers := [Idle, Busy (Accept_job 0 False (Some ''1.2.3.4''))]\<rparr>"
  obtain s where s: "perform mem_world (Accept_job 0 False (Some ''1.2.3.4'')) idle_server = Inr s"
    "\<exists>c. sessions s 0 = Some c"
    by (simp add: handle_accept_def start_def start_accept_def)
  have "pool_step mem_world ?p (Inl (?p\<lparr>srv := s, workers := (workers ?p)[1 := Idle]\<rparr>))"
    by (rule job_done) (use s in \<open>simp_all add: start_pool_def disturbed_def del: perform.simps\<close>)
  from pool_next [OF idle_takes this]
  have reach: "pool_reachable mem_world (start_pool 2 idle_server) (?p\<lparr>srv := s, workers := (workers ?p)[1 := Idle]\<rparr>)" .
  have "\<not> overlapped (?p\<lparr>srv := s, workers := (workers ?p)[1 := Idle]\<rparr>)" by (simp add: start_pool_def)
  from server_reachable_ok [OF new_idle_server map_ok_empty reach this] reach s(2) show ?thesis by fastforce
qed

text \<open>C21: a server with at least one thread never returns from \<open>start\<close>. Its service never runs
  out of work, so no thread leaves, whatever the handlers do to each other; the process ends
  only with the number of a signal it handles, by another signal, or in a handler that exits,
  lets an exception escape or runs into undefined behaviour.\<close>

theorem serving_ends:
  assumes "new_server E m fs = (Inr s0, fs1)" and "pool_reachable E (start_pool (concurrency_arg c) s0) p"
    and "0 < c" and "c < 2 ^ 31"
  shows "Left \<notin> set (workers p) \<and>
    (\<forall>e. pool_step E p (Inr e) \<longrightarrow>
       (\<exists>signum. e = (if signum \<in> {2, 14, 15} then Exited signum else Killed signum)) \<or>
       (\<exists>k j x. k < length (workers p) \<and> workers p ! k = Busy j \<and> e = ending_of x \<and>
          (disturbed p j \<or> perform E j (srv p) = Inl x)))"
proof -
  have run: "pool_running E (concurrency_arg c) s0 p"
    by (rule pool_running_reachable [OF assms(2) new_server_ready [OF assms(1)]])
  have left: "Left \<notin> set (workers p)" and "workers p \<noteq> []"
    using run assms(3,4) by (auto simp: pool_running_def pool_size_concurrency)
  then have busy: "\<not> list_all (\<lambda>w. w = Left) (workers p)" by (cases "workers p") auto
  have "(\<exists>signum. e = (if signum \<in> {2, 14, 15} then Exited signum else Killed signum)) \<or>
      (\<exists>k j x. k < length (workers p) \<and> workers p ! k = Busy j \<and> e = ending_of x \<and>
         (disturbed p j \<or> perform E j (srv p) = Inl x))" if "pool_step E p (Inr e)" for e
    using that
  proof (cases rule: pool_step.cases)
    case joined
    then show ?thesis using busy by simp
  next
    case (signalled signum)
    then show ?thesis by (intro disjI1 exI [of _ signum]) (auto simp: signalHandler_def handled_signals_def)
  next
    case (killed signum)
    then show ?thesis by (intro disjI1 exI [of _ signum]) (auto simp: handled_signals_def)
  qed auto
  then show ?thesis using left by blast
qed

lemma serving_ends_witness:
  "\<exists>p e. pool_reachable mem_world (start_pool 2 idle_server) p \<and> Left \<notin> set (workers p) \<and>
     pool_step mem_world p (Inr e) \<and> e = Terminated SystemError"
proof -
  let ?p = "(start_pool 2 idle_server)\<lparr>workers := [Idle, Busy (Accept_job 0 False None)]\<rparr>"
  have "pool_step mem_world ?p (Inr (ending_of (Uncaught SystemError)))"
    by (rule job_stops [where k = 1])
       (simp_all add: start_pool_def disturbed_def, simp add: handle_accept_def Session.start_def)
  moreover have "concurrency_arg 2 = 2" by (simp add: concurrency_arg_small)
  then have "pool_reachable mem_world (start_pool (concurrency_arg 2) idle_server) ?p" using idle_takes by simp
  note serving_ends [OF new_idle_server this]
  ultimately show ?thesis using idle_takes by (intro exI [of _ ?p] exI [of _ "Terminated SystemError"]) simp
qed

text \<open>C22: a running server keeps accepting. In every state it reaches, whatever its handlers did
  before and however its earlier accepts ended, an idle thread can take the next connection, or
  another thread is just handling one.\<close>

theorem idle_thread_accepts:
  assumes "new_server E m fs = (Inr s0, fs1)" and "pool_reachable E (start_pool n s0) p"
    and "k < length (workers p)" and "workers p ! k = Idle"
  shows "(\<exists>i error remote. Busy (Accept_job i error remote) \<in> set (workers p)) \<or>
    (\<exists>i. \<forall>error remote.
       pool_step E p (Inl (p\<lparr>workers := (workers p)[k := Busy (Accept_job i error remote)]\<rparr>)))"
proof (cases "\<exists>i error remote. Busy (Accept_job i error remote) \<in> set (workers p)")
  case False
  have run: "pool_running E n s0 p"
    by (rule pool_running_reachable [OF assms(2) new_server_ready [OF assms(1)]])
  then have "finite (dom (sessions (srv p)))" "accepting (srv p)" "\<not> stopped p"
    by (simp_all add: pool_running_def server_ready_def)
  then obtain i where i: "sessions (srv p) i = None" by (metis domIff ex_new_if_finite infinite_UNIV_nat)
  have other: "job_op j \<noteq> None" if "k' < length (workers p)" "workers p ! k' = Busy j" for k' j
    using False that nth_mem [OF that(1)] by (cases j) auto
  have "pool_step E p (Inl (p\<lparr>workers := (workers p)[k := Busy (Accept_job i error remote)]\<rparr>))" for error remote
  proof -
    have "pool_step E p (Inl (p\<lparr>workers := (workers p)[k := Busy (Accept_job i error remote)],
        overlapped := overlapped p \<or> meets p (Accept_job i error remote)\<rparr>))"
      using assms(3,4) i \<open>accepting (srv p)\<close> \<open>\<not> stopped p\<close> other by (intro take_job) auto
    then show ?thesis by (simp add: meets_def handles_request_def)
  qed
  then show ?thesis by blast
qed blast

lemma idle_thread_accepts_witness:
  "\<exists>i. pool_step mem_world (start_pool 2 idle_server)
     (Inl ((start_pool 2 idle_server)\<lparr>workers := [Busy (Accept_job i False None), Idle]\<rparr>))"
proof -
  have w: "workers (start_pool 2 idle_server) = [Idle, Idle]" by (simp add: start_pool_def pool_size_nonneg numeral_2_eq_2)
  then show ?thesis
    using idle_thread_accepts [OF new_idle_server pool_start, of 0 2] by (auto simp: w)
qed

text \<open>C28: after \<open>stop\<close> the pool winds down. No new completion is taken, at most two steps are
  left to each thread, and when none is left either a handler has stopped the process or all
  threads are gone, \<open>start\<close> returns and \<open>main\<close> ends with 0.\<close>

theorem stopped_pool_ends:
  assumes "run 0 = stop_server p" and "\<And>t. t < T \<Longrightarrow> pool_step E (run t) (Inl (run (Suc t)))"
  shows "T \<le> 2 * length (workers p) \<and>
    ((\<nexists>q. pool_step E (run T) (Inl q)) \<longrightarrow>
       pool_step E (run T) (Inr (Exited 0)) \<or>
       (\<exists>k j x. k < length (workers (run T)) \<and> workers (run T) ! k = Busy j \<and> perform E j (srv (run T)) = Inl x))"
proof -
  have "stopped (run 0)" by (simp add: assms(1) stop_server_def)
  note run = stopped_run [where run = run, OF this assms(2)]
  have "pool_work (run 0) \<le> 2 * length (workers p)"
    using pool_work_le [of p] by (simp add: assms(1) stop_server_def pool_work_def)
  then show ?thesis
    using run stopped_has_step [where p = "run T" and E = E] no_work_joined [where p = "run T" and E = E] by fastforce
qed

lemma stopped_pool_ends_witness:
  "\<exists>q. pool_step mem_world (stop_server (start_pool 1 idle_server)) (Inl q) \<and> pool_step mem_world q (Inr (Exited 0))"
proof -
  let ?p = "stop_server (start_pool 1 idle_server)" and ?q = "stop_server (start_pool 1 idle_server\<lparr>workers := [Left]\<rparr>)"
  let ?run = "\<lambda>t :: nat. if t = 0 then ?p else ?q"
  have w: "workers (start_pool 1 idle_server) = [Idle]" by (simp add: start_pool_def pool_size_nonneg)
  have "pool_step mem_world ?p (Inl (?p\<lparr>workers := (workers ?p)[0 := Left]\<rparr>))"
    by (rule leave) (simp_all add: w stop_server_def)
  moreover have "?p\<lparr>workers := (workers ?p)[0 := Left]\<rparr> = ?q" by (simp add: w stop_server_def)
  ultimately have step: "pool_step mem_world ?p (Inl ?q)" by simp
  have none: "\<nexists>q. pool_step mem_world ?q (Inl q)"
    by (auto simp: stop_server_def elim!: pool_stepE)
  have "pool_step mem_world ?q (Inr (Exited 0)) \<or>
      (\<exists>k j x. k < length (workers ?q) \<and> workers ?q ! k = Busy j \<and> perform mem_world j (srv ?q) = Inl x)"
    using stopped_pool_ends [where run = ?run and T = 1 and E = mem_world and p = "start_pool 1 idle_server"] step none
    by simp
  moreover have "workers ?q = [Left]" by (simp add: stop_server_def)
  ultimately show ?thesis using step by auto
qed

text \<open>On a machine whose concurrency is not known, \<open>hardware_concurrency\<close> is 0.\<close>

lemma no_threads_no_service: "pool_step E (start_pool (concurrency_arg 0) s) (Inr (Exited 0))"
  using joined [of "start_pool (concurrency_arg 0) s" E]
  by (simp add: start_pool_def pool_size_concurrency main_end_def)

end
