(* ===== verification/Service.thy ===== *)
theory Service
  imports Session Refinement
begin

text \<open>
  A location of a server as its clients see it: requests that arrive as bytes at sessions,
  and printed replies. What is common to the locations that keep a state: a request whose
  target is the location or below it, with no other location in between, is dispatched to
  the factory of the location.
\<close>

section \<open>A request on the wire\<close>

text \<open>What of a request the handlers look at; other fields may be any.\<close>

definition same_request :: "request \<Rightarrow> request \<Rightarrow> bool" where
  "same_request q p \<longleftrightarrow>
     req_method q = req_method p \<and> req_target q = req_target p \<and> req_body q = req_body p"

text \<open>Bytes that a session parses as such a request.\<close>

definition arrives_as :: "('fs, 'j) world \<Rightarrow> string \<Rightarrow> request \<Rightarrow> bool" where
  "arrives_as E bytes p \<longleftrightarrow>
     length bytes < max_length \<and> CHR 0x00 \<notin> set bytes \<and>
     (case parse_http E bytes of None \<Rightarrow> False | Some q \<Rightarrow> same_request q p)"

text \<open>A client's address, the bytes it sends and the operation they stand for.\<close>

type_synonym 'x service_op = "string \<times> string \<times> 'x"

definition service_step ::
    "('fs, 'j) world \<Rightarrow> 'fs shared \<Rightarrow> 'x service_op \<Rightarrow> string outcome \<times> 'fs shared" where
  "service_step E s q =
     (case q of (ip, bytes, x) \<Rightarrow> get_reply E ip (fill bytes zero_buffer) (int (length bytes)) s)"

lemma new_handler_sel [simp]: "dir (new_handler loc rt) = rt" "prefix (new_handler loc rt) = loc"
  by (simp_all add: new_handler_def)

section \<open>Routing\<close>

text \<open>No other location lies below the location of the service.\<close>

definition none_below :: "routes \<Rightarrow> string \<Rightarrow> bool" where
  "none_below R loc \<longleftrightarrow> (\<forall>l. map_find R l \<noteq> None \<longrightarrow> take (length loc + 1) l \<noteq> loc @ ''/'')"

lemma none_below_assign:
  "none_below R loc \<Longrightarrow> map_find R loc \<noteq> None \<Longrightarrow> none_below (map_assign loc f R) loc"
  by (auto simp: none_below_def map_find_assign)

lemma none_below_longest:
  assumes "none_below R loc" and "loc \<noteq> []" and "map_find R loc \<noteq> None"
  shows "longest_route R (loc @ ''/'' @ x) loc"
proof -
  let ?url = "loc @ ''/'' @ x"
  have "length l \<le> length loc" if "l \<in> candidates ?url" "map_find R l \<noteq> None" for l
  proof (rule ccontr)
    assume "\<not> length l \<le> length loc"
    then have "take (length loc + 1) l = take (length loc + 1) ?url"
      using candidates_take [OF that(1)] by (metis Suc_eq_plus1 min.absorb1 not_less_eq_eq take_take)
    also have "\<dots> = loc @ ''/''" by simp
    finally show False using assms(1) that(2) by (simp add: none_below_def)
  qed
  moreover have "loc \<in> candidates ?url"
  proof -
    have "loc = take (length loc) ?url" by simp
    moreover have "?url ! length loc = CHR ''/''" by (simp add: nth_append)
    moreover have "0 < length loc" "length loc < length ?url" using assms(2) by simp_all
    ultimately show ?thesis unfolding candidates_def by blast
  qed
  ultimately show ?thesis using assms(3) by (simp add: longest_route_def)
qed

text \<open>A target at or below a location.\<close>

definition at_location :: "string \<Rightarrow> string \<Rightarrow> bool" where
  "at_location loc target \<longleftrightarrow> target = loc \<or> (\<exists>x. target = loc @ ''/'' @ x)"

lemma reply_of_arrival:
  assumes bytes: "arrives_as E bytes p" "at_location loc (req_target p)"
    and loc: "none_below R loc" "loc \<noteq> []" "map_find R loc = Some f"
    and run: "\<And>q. same_request q p \<Longrightarrow>
      dispatch E ip loc f q (set_field allow_origin_field ''*'' []) (fs, R) = (Inr r, s')"
  shows "service_step E (fs, R) (ip, bytes, x) = (Inr (print_response E r), s')"
proof -
  obtain q where q: "parse_http E bytes = Some q" "same_request q p" "length bytes < max_length" "CHR 0x00 \<notin> set bytes"
    using bytes(1) by (auto simp: arrives_as_def split: option.splits)
  have "\<exists>y. req_target q @ ''/'' = loc @ ''/'' @ y"
    using bytes(2) q(2) by (auto simp: at_location_def same_request_def)
  then have "longest_route R (req_target q @ ''/'') loc" using none_below_longest loc by force
  from reply_of_request [OF q(3,4,1) this loc(3) run [OF q(2)]] show ?thesis by (simp add: service_step_def)
qed

section \<open>Requests to other locations\<close>

text \<open>
  The other locations of the server have handlers that keep nothing: a request that goes to
  one of them, or to none, or is no request, leaves the files and the location as they are.
\<close>

definition quiet_elsewhere :: "routes \<Rightarrow> string \<Rightarrow> bool" where
  "quiet_elsewhere R loc \<longleftrightarrow>
     (\<forall>l f. map_find R l = Some f \<and> l \<noteq> loc \<longrightarrow> fkind f \<noteq> CrudHandler \<and> fkind f \<noteq> TextGenHandler)"

definition elsewhere :: "('fs, 'j) world \<Rightarrow> string \<Rightarrow> string \<Rightarrow> bool" where
  "elsewhere E loc bytes \<longleftrightarrow>
     length bytes \<le> max_length \<and>
     (case parse_http E (takeWhile (\<lambda>c. c \<noteq> CHR 0x00) bytes) of
        None \<Rightarrow> True
      | Some q \<Rightarrow> loc \<notin> candidates (req_target q @ ''/''))"

lemma same_routes_find:
  assumes "same_routes R R'" and "map_find R l = Some f"
  obtains g where "map_find R' l = Some g" "fkind g = fkind f" "farg g = farg f"
proof -
  have "map_option (\<lambda>f. (fkind f, farg f)) (map_find R' l) = Some (fkind f, farg f)"
    using assms unfolding same_routes_def by (metis option.map(2))
  then show thesis using that by auto
qed

lemma same_routes_sym: "same_routes R R' \<Longrightarrow> same_routes R' R"
  by (simp add: same_routes_def)

lemma quiet_elsewhere_same:
  assumes "same_routes R R'" and "quiet_elsewhere R loc" shows "quiet_elsewhere R' loc"
  unfolding quiet_elsewhere_def
proof (intro allI impI)
  fix l f assume "map_find R' l = Some f \<and> l \<noteq> loc"
  moreover obtain g where "map_find R l = Some g" "fkind g = fkind f"
    using same_routes_find [OF same_routes_sym [OF assms(1)]] calculation by metis
  ultimately show "fkind f \<noteq> CrudHandler \<and> fkind f \<noteq> TextGenHandler"
    using assms(2) unfolding quiet_elsewhere_def by metis
qed

lemma none_below_same:
  assumes "same_routes R R'" and "none_below R loc" shows "none_below R' loc"
  unfolding none_below_def
proof (intro allI impI)
  fix l assume "map_find R' l \<noteq> None"
  then obtain f where "map_find R' l = Some f" by blast
  from same_routes_find [OF same_routes_sym [OF assms(1)] this]
  show "take (length loc + 1) l \<noteq> loc @ ''/''" using assms(2) unfolding none_below_def by (metis option.discI)
qed

lemma static_keeps: "snd (snd (static_handle E h fs req r)) = fs"
  by (simp add: static_handle_def split: option.split sum.split)

lemma quiet_handle:
  assumes "fkind f \<noteq> CrudHandler" and "fkind f \<noteq> TextGenHandler" and "handle_request E f h (fs, m) req r = (b, r', fs', m')"
  shows "fs' = fs"
proof -
  have "fst (snd (snd (handle_request E f h (fs, m) req r))) = fs"
    using assms(1,2) static_keeps [of E h fs req r]
    by (cases "fkind f") (simp_all add: handle_request_def with_ids_def echo_handle_def not_found_handle_def
        block_handle_def health_handle_def Let_def case_prod_beta)
  then show ?thesis using assms(3) by simp
qed

lemma quiet_dispatch:
  assumes "fkind f \<noteq> CrudHandler" and "fkind f \<noteq> TextGenHandler" and "dispatch E ip l f req r (fs, R) = (a, fs', R')"
    and "l \<noteq> loc"
  shows "fs' = fs \<and> map_find R' loc = map_find R loc"
proof -
  obtain b r1 fs2 m where run: "handle_request E f (set_client_ip ip (new_handler (location (farg f)) (root (farg f))))
      (fs, file_to_id f) req r = (b, r1, fs2, m)" by (metis prod_cases4)
  show ?thesis
    using assms(3,4) quiet_handle [OF assms(1,2) run] by (auto simp: dispatch_def create_handler_def assms(2) run map_find_assign)
qed

lemma service_elsewhere:
  assumes quiet: "quiet_elsewhere R loc" and bytes: "elsewhere E loc bytes"
    and run: "service_step E (fs, R) (ip, bytes, x) = (a, fs', R')"
  shows "fs' = fs \<and> map_find R' loc = map_find R loc"
proof -
  let ?data = "fill bytes zero_buffer" and ?n = "int (length bytes)" and ?r = "set_field allow_origin_field ''*'' []"
  obtain b where gen: "generate_response E ip ?data ?n (fs, R) = (b, fs', R')"
    using run by (auto simp: service_step_def get_reply_def split: prod.splits sum.splits)
  show ?thesis
  proof (cases "parse_request E ?data ?n")
    case (Inl e)
    then show ?thesis using gen by (simp add: generate_response_def)
  next
    case (Inr p)
    then have short: "CHR 0x00 \<in> set bytes \<or> length bytes < max_length"
      using bytes by (auto simp: elsewhere_def parse_request_def c_string_fill split: if_splits)
    have p: "p = parse_http E (takeWhile (\<lambda>c. c \<noteq> CHR 0x00) bytes)"
      using parse_request_fill [OF _ short, of E] bytes Inr by (simp add: elsewhere_def)
    show ?thesis
    proof (cases p)
      case None
      then show ?thesis using gen Inr by (simp add: generate_response_def)
    next
      case (Some q)
      show ?thesis
      proof (cases "search_addr_binding R (req_target q @ ''/'')")
        case None
        then show ?thesis using gen Inr Some by (simp add: generate_response_def)
      next
        case found: (Some l)
        then have l: "longest_route R (req_target q @ ''/'') l"
          using search_longest [where R = R and url = "req_target q @ ''/''"] by simp
        then obtain f where f: "map_find R l = Some f" by (auto simp: longest_route_def)
        have "loc \<notin> candidates (req_target q @ ''/'')" using bytes p Some by (simp add: elsewhere_def split: option.splits)
        then have "l \<noteq> loc" using l by (auto simp: longest_route_def)
        moreover have "dispatch E ip l f q ?r (fs, R) = (b, fs', R')"
          using gen Inr Some found f by (simp add: generate_response_def)
        ultimately show ?thesis using quiet_dispatch quiet f unfolding quiet_elsewhere_def by metis
      qed
    qed
  qed
qed

section \<open>A location among others\<close>

text \<open>
  A service whose step refines a specification when all requests are for it does so when
  requests for other locations come in between; these are the operation \<open>None\<close>.
\<close>

fun mixed_ok :: "('fs, 'j) world \<Rightarrow> string \<Rightarrow> ('x service_op \<Rightarrow> bool) \<Rightarrow> 'x option service_op \<Rightarrow> bool" where
  "mixed_ok E loc op_ok (ip, bytes, Some x) \<longleftrightarrow> op_ok (ip, bytes, x)"
| "mixed_ok E loc op_ok (ip, bytes, None) \<longleftrightarrow> elsewhere E loc bytes"

fun mixed_spec :: "('a \<Rightarrow> 'x service_op \<Rightarrow> 'p \<times> 'a) \<Rightarrow> 'a \<Rightarrow> 'x option service_op \<Rightarrow> 'p option \<times> 'a" where
  "mixed_spec spec S (ip, bytes, Some x) = apfst Some (spec S (ip, bytes, x))"
| "mixed_spec spec S (ip, bytes, None) = (None, S)"

definition own_op :: "'x service_op \<Rightarrow> 'x option service_op" where
  "own_op q = (case q of (ip, bytes, x) \<Rightarrow> (ip, bytes, Some x))"

lemma own_op_ok [simp]: "mixed_ok E loc op_ok (own_op q) = op_ok q"
  by (cases q) (simp add: own_op_def)

definition mixed_inv :: "string \<Rightarrow> ('fs shared \<Rightarrow> bool) \<Rightarrow> 'fs shared \<Rightarrow> bool" where
  "mixed_inv loc ok s \<longleftrightarrow> ok s \<and> routes_ok (snd s) \<and> quiet_elsewhere (snd s) loc"

definition mixed_reply :: "('p \<Rightarrow> string outcome \<Rightarrow> bool) \<Rightarrow> 'p option \<Rightarrow> string outcome \<Rightarrow> bool" where
  "mixed_reply reply_ok p a \<longleftrightarrow> (case p of None \<Rightarrow> True | Some p' \<Rightarrow> reply_ok p' a)"

locale location_service = refinement "service_step E" inv op_ok spec abs_of reply_ok
  for E :: "('fs, 'j) world" and inv and op_ok :: "'x service_op \<Rightarrow> bool"
    and spec :: "'a \<Rightarrow> 'x service_op \<Rightarrow> 'p \<times> 'a" and abs_of and reply_ok +
  fixes loc :: string
  assumes own_route: "inv (fs, R) \<Longrightarrow> map_find R' loc = map_find R loc \<Longrightarrow> same_routes R R' \<Longrightarrow>
    inv (fs, R') \<and> abs_of (fs, R') = abs_of (fs, R)"
    and replies: "reply_ok p a \<Longrightarrow> \<exists>reply. a = Inr reply"
    and fits: "op_ok (ip, bytes, x) \<Longrightarrow> length bytes \<le> max_length"
begin

lemma mixed_one:
  assumes inv: "mixed_inv loc inv s" and ok: "mixed_ok E loc op_ok q"
  shows "mixed_inv loc inv (snd (service_step E s q)) \<and>
    abs_of (snd (service_step E s q)) = snd (mixed_spec spec (abs_of s) q) \<and>
    mixed_reply reply_ok (fst (mixed_spec spec (abs_of s) q)) (fst (service_step E s q))"
proof -
  obtain fs R where s: "s = (fs, R)" by force
  obtain ip bytes y where q: "q = (ip, bytes, y)" by (metis prod_cases3)
  obtain a fs' R' where run: "service_step E (fs, R) q = (a, fs', R')" by (metis prod_cases3)
  have own: "inv (fs, R)" "routes_ok R" "quiet_elsewhere R loc" using inv by (simp_all add: s mixed_inv_def)
  have "routes_ok R' \<and> same_routes R R'"
    using get_reply_routes [OF own(2)] run by (simp add: q service_step_def)
  then have R': "routes_ok R'" "same_routes R R'" "quiet_elsewhere R' loc"
    using own(3) quiet_elsewhere_same by blast+
  show ?thesis
  proof (cases y)
    case None
    have kept: "fs' = fs" "map_find R' loc = map_find R loc"
      using service_elsewhere [OF own(3) _ run [unfolded q]] ok by (simp_all add: q None)
    from own_route [OF own(1) kept(2) R'(2)] show ?thesis
      using R' kept(1) run by (simp add: s q None mixed_inv_def mixed_reply_def)
  next
    case (Some x)
    have x: "op_ok (ip, bytes, x)" using ok by (simp add: q Some)
    have step: "service_step E (fs, R) (ip, bytes, x) = (a, fs', R')" using run by (simp add: q service_step_def)
    show ?thesis
      using preserves [OF own(1) x] simulates [OF own(1) x] answers [OF own(1) x] R' run
      by (simp add: s q Some step mixed_inv_def mixed_reply_def)
  qed
qed

end

sublocale location_service \<subseteq> mixed: refinement "service_step E" "mixed_inv loc inv" "mixed_ok E loc op_ok"
    "mixed_spec spec" abs_of "mixed_reply reply_ok"
  by unfold_locales (simp_all add: mixed_one)

end
