(* ===== verification/Server_History.thy ===== *)
theory Server_History
  imports Server_Pool Service
begin

text \<open>
  The requests a server reads and the replies it makes, over all its connections, in the
  order in which their handlers end. Whatever accepts, writes, errors and disconnections come
  in between, as long as no two handlers of requests overlap the history of a pool of threads
  is a sequence of requests handled one after the other, and the files and routes are what
  they leave.
\<close>

section \<open>Histories\<close>

text \<open>The peer, the bytes read and the reply that is then written.\<close>

type_synonym exchange = "string \<times> string \<times> string"

definition exchange_of :: "job \<Rightarrow> 'fs server \<Rightarrow> exchange list" where
  "exchange_of j s' =
     (case j of
        Read_job i error bytes \<Rightarrow>
          (if error then []
           else case sessions s' i of None \<Rightarrow> [] | Some c \<Rightarrow> [(peer_ip c, bytes, rep c)])
      | _ \<Rightarrow> [])"

inductive served :: "('fs, 'j) world \<Rightarrow> 'fs server \<Rightarrow> exchange list \<Rightarrow> 'fs server \<Rightarrow> bool"
  for E s0 where
  served_start: "served E s0 [] s0"
| served_job: "served E s0 H s \<Longrightarrow> job_pending s j \<Longrightarrow> perform E j s = Inr s' \<Longrightarrow>
    served E s0 (H @ exchange_of j s') s'"

text \<open>A history comes with every state a server reaches, and with no other.\<close>

lemma served_reachable: "(\<exists>H. served E s0 H s) \<longleftrightarrow> reachable E s0 s"
proof
  assume "\<exists>H. served E s0 H s"
  then obtain H where "served E s0 H s" ..
  then show "reachable E s0 s"
  proof induction
    case (served_job H s j s')
    have "server_step E s (Inr s')" using served_job.hyps unfolding server_step_job by metis
    with served_job.IH show ?case by (rule reach_step)
  qed (rule reach_start)
next
  assume "reachable E s0 s"
  then show "\<exists>H. served E s0 H s"
  proof induction
    case (reach_step s s')
    obtain j where "job_pending s j" "perform E j s = Inr s'"
      using reach_step.hyps(2) unfolding server_step_job by metis
    then show ?case using reach_step.IH served_job by blast
  qed (blast intro: served_start)
qed

section \<open>The runs of a pool\<close>

text \<open>A trace: the jobs that were handled, each with the states of the server around its end.\<close>

type_synonym 'fs event = "job \<times> 'fs server \<times> 'fs server"

definition exchanges :: "'fs event list \<Rightarrow> exchange list" where
  "exchanges tr = concat (map (\<lambda>(j, s, s'). exchange_of j s') tr)"

lemma exchanges_simps [simp]: "exchanges [] = []" "exchanges (tr @ [(j, s, s')]) = exchanges tr @ exchange_of j s'"
  by (simp_all add: exchanges_def)

inductive traced :: "('fs, 'j) world \<Rightarrow> 'fs server \<Rightarrow> 'fs event list \<Rightarrow> 'fs server \<Rightarrow> bool"
  for E s0 where
  traced_start: "traced E s0 [] s0"
| traced_job: "traced E s0 tr s \<Longrightarrow> job_pending s j \<Longrightarrow> perform E j s = Inr s' \<Longrightarrow> traced E s0 (tr @ [(j, s, s')]) s'"

lemma traced_served: "traced E s0 tr s \<Longrightarrow> served E s0 (exchanges tr) s"
  by (induction rule: traced.induct) (auto intro: served_start served_job)

lemma served_traced: "served E s0 H s \<Longrightarrow> \<exists>tr. traced E s0 tr s \<and> exchanges tr = H"
proof (induction rule: served.induct)
  case served_start
  then show ?case using traced_start by fastforce
next
  case (served_job H s j s')
  then obtain tr where "traced E s0 tr s" "exchanges tr = H" by blast
  then show ?case using traced_job served_job.hyps(2,3) exchanges_simps(2) by metis
qed

text \<open>The jobs that end between two states of the workers.\<close>

fun finished :: "worker list \<Rightarrow> worker list \<Rightarrow> job list" where
  "finished (v # vs) (w # ws) = (case (v, w) of (Busy j, Idle) \<Rightarrow> [j] | _ \<Rightarrow> []) @ finished vs ws"
| "finished _ _ = []"

lemma finished_same [simp]: "finished ws ws = []"
  by (induction ws) (auto split: worker.split)

lemma finished_update:
  "k < length ws \<Longrightarrow> finished ws (ws[k := w]) = (case (ws ! k, w) of (Busy j, Idle) \<Rightarrow> [j] | _ \<Rightarrow> [])"
proof (induction ws arbitrary: k)
  case (Cons v ws)
  then show ?case by (cases k) (auto split: worker.split)
qed simp

inductive pool_run :: "('fs, 'j) world \<Rightarrow> 'fs pool \<Rightarrow> 'fs event list \<Rightarrow> 'fs pool \<Rightarrow> bool"
  for E p0 where
  run_start: "pool_run E p0 [] p0"
| run_next: "pool_run E p0 tr p \<Longrightarrow> pool_step E p (Inl q) \<Longrightarrow>
    pool_run E p0 (tr @ map (\<lambda>j. (j, srv p, srv q)) (finished (workers p) (workers q))) q"

lemma pool_run_reachable: "pool_run E p0 tr p \<Longrightarrow> pool_reachable E p0 p"
  by (induction rule: pool_run.induct) (auto intro: pool_start pool_next)

text \<open>
  A run of the pool in which no two handlers of requests overlap handles its jobs as they
  come on a single thread.
\<close>

lemma pool_run_traced:
  assumes "pool_run E (start_pool n s0) tr p" and "server_ready s0" and "\<not> overlapped p"
  shows "traced E s0 tr (srv p)"
  using assms(1,3)
proof (induction rule: pool_run.induct)
  case run_start
  show ?case by (simp add: start_pool_def traced_start)
next
  case (run_next tr p q)
  have inv: "pool_inv p"
    using pool_running_reachable [OF pool_run_reachable [OF run_next.hyps(1)] assms(2)] by (simp add: pool_running_def)
  have alone: "\<not> overlapped p" using overlapped_step [OF run_next.hyps(2)] run_next.prems by blast
  note IH = run_next.IH [OF alone]
  from run_next.hyps(2) show ?case
  proof (cases rule: pool_step.cases)
    case (job_done k j s)
    then show ?thesis
      using traced_job [OF IH pool_invD(1) [OF inv job_done(2,3)] job_done(5)] by (simp add: finished_update)
  qed (use IH alone in \<open>simp_all add: finished_update disturbed_def\<close>)
qed

lemma pool_run_alone:
  assumes "pool_run E (start_pool n s0) tr p" and "pool_size n \<le> 1"
  shows "\<not> overlapped p"
  using one_thread_alone [OF pool_run_reachable [OF assms(1)]] assms(2) by (simp add: start_pool_def)

lemma fresh_ready: "server_inv E R0 s \<Longrightarrow> sessions s = (\<lambda>_. None) \<Longrightarrow> server_ready s"
  by (simp add: server_inv_def server_ready_def)

text \<open>And every such sequence of jobs is a run of the pool, on any number of threads.\<close>

lemma traced_pool_run:
  assumes "traced E s0 tr s" and "0 < pool_size n"
  shows "pool_run E (start_pool n s0) tr ((start_pool n s0)\<lparr>srv := s\<rparr>)"
  using assms(1)
proof (induction rule: traced.induct)
  case traced_start
  have "(start_pool n s0)\<lparr>srv := s0\<rparr> = start_pool n s0" by (simp add: start_pool_def)
  then show ?case using run_start by metis
next
  case (traced_job tr s j s')
  let ?p = "(start_pool n s0)\<lparr>srv := s\<rparr>"
  have idle: "set (workers ?p) \<subseteq> {Idle}" "0 < length (workers ?p)" using assms(2) by (auto simp: start_pool_def)
  then have nth: "workers ?p ! k = Idle" if "k < length (workers ?p)" for k using that nth_mem by blast
  let ?q = "?p\<lparr>workers := (workers ?p)[0 := Busy j], overlapped := overlapped ?p \<or> meets ?p j\<rparr>"
  have take_step: "pool_step E ?p (Inl ?q)"
    by (rule take_job) (use idle nth traced_job.hyps(2) in \<open>auto simp: start_pool_def\<close>)
  have quiet: "\<not> overlapped ?q" using idle(1) by (auto simp: meets_def start_pool_def)
  have end_step: "pool_step E ?q (Inl (?q\<lparr>srv := s', workers := (workers ?q)[0 := Idle]\<rparr>))"
    by (rule job_done) (use idle traced_job.hyps(3) quiet in \<open>simp_all add: disturbed_def\<close>)
  have "(replicate (pool_size n) Idle)[0 := Idle] = replicate (pool_size n) Idle"
    by (cases "pool_size n") simp_all
  then have same: "?q\<lparr>srv := s', workers := (workers ?q)[0 := Idle]\<rparr> = (start_pool n s0)\<lparr>srv := s'\<rparr>"
    using quiet by (simp add: start_pool_def)
  have "finished (workers ?p) (workers ?q) = []" "finished (workers ?q) (workers ?p) = [j]"
    using idle(2) nth [of 0] by (cases "workers ?p"; simp add: finished_update)+
  moreover have "workers ((start_pool n s0)\<lparr>srv := s'\<rparr>) = workers ?p" by simp
  ultimately show ?case using run_next [OF run_next [OF traced_job.IH take_step] end_step] unfolding same by simp
qed

section \<open>A history is a sequence of requests\<close>

text \<open>The operations \<open>qs\<close> are those of the exchanges \<open>H\<close>, whatever they stand for.\<close>

definition requests_of :: "exchange list \<Rightarrow> 'x service_op list \<Rightarrow> bool" where
  "requests_of H qs \<longleftrightarrow> map (\<lambda>(ip, bytes, x). (ip, bytes)) qs = map (\<lambda>(ip, bytes, reply). (ip, bytes)) H"

lemma requests_of_own [simp]: "requests_of H (map own_op qs) = requests_of H qs"
proof -
  have "map (\<lambda>(ip, bytes, x). (ip, bytes)) (map own_op qs) = map (\<lambda>(ip, bytes, x). (ip, bytes)) qs"
    by (induction qs) (auto simp: own_op_def)
  then show ?thesis unfolding requests_of_def by (simp only:)
qed

abbreviation replies_of :: "exchange list \<Rightarrow> string outcome list" where
  "replies_of H \<equiv> map (\<lambda>(ip, bytes, reply). Inr reply) H"

text \<open>One job: nothing is read and the shared state stays, or one request is answered.\<close>

lemma perform_exchange:
  assumes inv: "server_inv E R0 s" and run: "perform E j s = Inr s'"
  shows "exchange_of j s' = [] \<and> (files s', routes s') = (files s, routes s) \<or>
    (\<exists>ip bytes reply. exchange_of j s' = [(ip, bytes, reply)] \<and>
       get_reply E ip (fill bytes zero_buffer) (int (length bytes)) (files s, routes s) = (Inr reply, files s', routes s'))"
proof (cases j)
  case (Accept_job i error remote)
  then show ?thesis using run
    by (auto simp: exchange_of_def handle_accept_def start_accept_def accept_completed_def split: if_splits sum.splits)
next
  case (Write_job i error remote)
  then show ?thesis using run
    by (auto simp: exchange_of_def finish_def split: option.splits sum.splits)
next
  case (Read_job i error bytes)
  obtain c where c: "sessions s i = Some c" using run Read_job by (auto split: option.splits)
  then have zero: "in_data c = zero_buffer" using inv by (auto simp: server_inv_def session_ok_def)
  show ?thesis
  proof (cases error)
    case True
    then show ?thesis using run Read_job c by (auto simp: exchange_of_def finish_def handle_read_def)
  next
    case False
    obtain a fs R where reply: "get_reply E (peer_ip c) (fill bytes zero_buffer) (int (length bytes)) (files s, routes s) =
        (a, fs, R)" by (metis prod_cases3)
    then show ?thesis using run Read_job c zero False
      by (cases a) (auto simp: exchange_of_def finish_def handle_read_def)
  qed
qed

lemma served_inv: "served E s0 H s \<Longrightarrow> server_inv E R0 s0 \<Longrightarrow> server_inv E R0 s"
  using server_inv_reachable served_reachable by blast

lemma served_run:
  assumes "served E s0 H s" and "server_inv E R0 s0" and "requests_of H qs"
  shows "run_ops (service_step E) (files s0, routes s0) qs = (replies_of H, files s, routes s)"
  using assms(1,3)
proof (induction arbitrary: qs)
  case served_start
  then show ?case by (simp add: requests_of_def)
next
  case (served_job H s j s')
  have inv: "server_inv E R0 s" by (rule served_inv [OF served_job.hyps(1) assms(2)])
  from perform_exchange [OF inv served_job.hyps(3)] show ?case
  proof (elim disjE exE conjE)
    assume "exchange_of j s' = []" "(files s', routes s') = (files s, routes s)"
    then show ?case using served_job.IH served_job.prems by simp
  next
    fix ip bytes reply assume one: "exchange_of j s' = [(ip, bytes, reply)]"
      "get_reply E ip (fill bytes zero_buffer) (int (length bytes)) (files s, routes s) = (Inr reply, files s', routes s')"
    have "map (\<lambda>(ip, bytes, x). (ip, bytes)) qs = map (\<lambda>(ip, bytes, reply). (ip, bytes)) H @ [(ip, bytes)]"
      using served_job.prems by (simp add: requests_of_def one(1))
    then obtain qs' x where qs: "qs = qs' @ [(ip, bytes, x)]" "requests_of H qs'"
      by (auto simp: requests_of_def map_eq_append_conv)
    show ?case using served_job.IH [OF qs(2)] one by (simp add: qs(1) run_ops_append service_step_def)
  qed
qed

text \<open>And every sequence of requests that stops nothing is a history: each from a new connection.\<close>

lemma served_one_more:
  assumes run: "served E s0 H s" "server_inv E R0 s0" and free: "infinite {i. sessions s i = None}"
    and reply: "get_reply E ip (fill bytes zero_buffer) (int (length bytes)) (files s, routes s) = (Inr reply, fs', R')"
    and len: "length bytes \<le> max_length"
  shows "\<exists>s'. served E s0 (H @ [(ip, bytes, reply)]) s' \<and> files s' = fs' \<and> routes s' = R' \<and>
    infinite {i. sessions s' i = None}"
proof -
  obtain i where i: "sessions s i = None" using infinite_imp_nonempty [OF free] by blast
  have fresh: "next_session s = new_session" and acc: "accepting s"
    using served_inv [OF run] by (simp_all add: server_inv_def)
  let ?c = "new_session\<lparr>peer_ip := ip, waits_for := Pending_read\<rparr>"
  let ?s1 = "start_accept (s\<lparr>sessions := (sessions s)(i \<mapsto> ?c)\<rparr>)"
  have "perform E (Accept_job i False (Some ip)) s = Inr ?s1"
    by (simp add: handle_accept_def start_def fresh accept_completed_def start_accept_def)
  from served_job [OF run(1) _ this] i acc have one: "served E s0 H ?s1" by (simp add: exchange_of_def)
  let ?c2 = "?c\<lparr>rep := reply, in_data := zero_buffer, waits_for := Pending_write\<rparr>"
  let ?s2 = "?s1\<lparr>files := fs', routes := R', sessions := (sessions ?s1)(i \<mapsto> ?c2)\<rparr>"
  have "perform E (Read_job i False bytes) ?s1 = Inr ?s2"
    using reply by (simp add: start_accept_def new_session_def handle_read_def finish_def)
  from served_job [OF one _ this] len have "served E s0 (H @ [(ip, bytes, reply)]) ?s2"
    by (simp add: exchange_of_def start_accept_def)
  moreover have "{j. sessions ?s2 j = None} = {j. sessions s j = None} - {i}" by (auto simp: start_accept_def)
  then have "infinite {j. sessions ?s2 j = None}" using infinite_remove [OF free] by simp
  ultimately show ?thesis by (intro exI [of _ ?s2]) (simp del: fun_upd_apply)
qed

lemma served_sequence:
  assumes "server_inv E R0 s0" and "infinite {i. sessions s0 i = None}"
    and "list_all (\<lambda>(ip, bytes, x). length bytes \<le> max_length) qs"
    and "run_ops (service_step E) (files s0, routes s0) qs = (map Inr rs, fs', R')"
  shows "\<exists>H s. served E s0 H s \<and> requests_of H qs \<and> files s = fs' \<and> routes s = R' \<and> infinite {i. sessions s i = None}"
  using assms(3,4)
proof (induction qs arbitrary: rs fs' R' rule: rev_induct)
  case Nil
  then show ?case using served_start assms(2) by (fastforce simp: requests_of_def)
next
  case (snoc q qs)
  obtain ip bytes x where q: "q = (ip, bytes, x)" by (metis prod_cases3)
  obtain as fs1 R1 where qs: "run_ops (service_step E) (files s0, routes s0) qs = (as, fs1, R1)" by (metis prod_cases3)
  obtain a fs2 R2 where step: "service_step E (fs1, R1) q = (a, fs2, R2)" by (metis prod_cases3)
  have all: "map Inr rs = as @ [a]" "fs' = fs2" "R' = R2"
    using snoc.prems(2) by (simp_all add: run_ops_append qs step)
  then obtain rs1 reply where rs: "as = map Inr rs1" "a = Inr reply" by (auto simp: map_eq_append_conv append_eq_map_conv)
  obtain H s where H: "served E s0 H s" "requests_of H qs" "files s = fs1" "routes s = R1" "infinite {i. sessions s i = None}"
    using snoc.IH [of rs1 fs1 R1] snoc.prems(1) qs rs(1) by auto
  have "get_reply E ip (fill bytes zero_buffer) (int (length bytes)) (files s, routes s) = (Inr reply, fs2, R2)"
    using step H(3,4) rs(2) by (simp add: q service_step_def)
  from served_one_more [OF H(1) assms(1) H(5) this] snoc.prems(1)
  obtain s' where "served E s0 (H @ [(ip, bytes, reply)]) s'" "files s' = fs2" "routes s' = R2" "infinite {i. sessions s' i = None}"
    by (auto simp: q)
  moreover have "requests_of (H @ [(ip, bytes, reply)]) (qs @ [q])" using H(2) by (simp add: requests_of_def q)
  ultimately show ?case using all by blast
qed

context location_service
begin

text \<open>So the history of a server shows what the specification of a location says.\<close>

lemma served_location:
  assumes "served E s0 H s" and "server_inv E R0 s0" and "requests_of H qs"
    and "mixed_inv loc inv (files s0, routes s0)" and "list_all (mixed_ok E loc op_ok) qs"
  shows "list_all2 (mixed_reply reply_ok) (fst (run_ops (mixed_spec spec) (abs_of (files s0, routes s0)) qs)) (replies_of H) \<and>
    abs_of (files s, routes s) = snd (run_ops (mixed_spec spec) (abs_of (files s0, routes s0)) qs)"
  using mixed.run_simulates [OF assms(4,5)] served_run [OF assms(1-3)] by simp

text \<open>And the requests of a location stop nothing, so every sequence of them is a history.\<close>

lemma own_history:
  assumes "server_inv E R0 s0" and "sessions s0 = (\<lambda>_. None)" and "inv (files s0, routes s0)" and "list_all op_ok qs"
  shows "\<exists>H s. served E s0 H s \<and> requests_of H qs"
proof -
  obtain as fs' R' where run: "run_ops (service_step E) (files s0, routes s0) qs = (as, fs', R')" by (metis prod_cases3)
  have "list_all2 reply_ok (fst (run_ops spec (abs_of (files s0, routes s0)) qs)) as"
    using run_simulates [OF assms(3,4)] by (simp add: run)
  then have "\<forall>a \<in> set as. \<exists>reply. a = Inr reply"
    using replies by (fastforce simp: list_all2_conv_all_nth in_set_conv_nth)
  then obtain rs where "as = map Inr rs" by (metis ex_map_conv)
  moreover have "list_all (\<lambda>(ip, bytes, x). length bytes \<le> max_length) qs"
    using assms(4) fits by (auto simp: list_all_iff)
  ultimately show ?thesis using served_sequence [OF assms(1)] assms(2) run by fastforce
qed

text \<open>
  On a pool of threads, as long as no two handlers of requests overlap; on one thread they never
  do.
\<close>

lemma pool_location:
  assumes "pool_run E (start_pool n s0) tr p" and "pool_size n \<le> 1 \<or> \<not> overlapped p"
    and "server_ready s0" and "server_inv E R0 s0" and "requests_of (exchanges tr) qs"
    and "mixed_inv loc inv (files s0, routes s0)" and "list_all (mixed_ok E loc op_ok) qs"
  shows "list_all2 (mixed_reply reply_ok) (fst (run_ops (mixed_spec spec) (abs_of (files s0, routes s0)) qs))
      (replies_of (exchanges tr)) \<and>
    abs_of (files (srv p), routes (srv p)) = snd (run_ops (mixed_spec spec) (abs_of (files s0, routes s0)) qs)"
proof (rule served_location [OF _ assms(4-7)])
  have "\<not> overlapped p" using assms(2) pool_run_alone [OF assms(1)] by blast
  from pool_run_traced [OF assms(1,3) this] show "served E s0 (exchanges tr) (srv p)" by (rule traced_served)
qed

lemma own_pool_run:
  assumes "server_inv E R0 s0" and "sessions s0 = (\<lambda>_. None)" and "inv (files s0, routes s0)" and "list_all op_ok qs"
    and "0 < pool_size n"
  shows "\<exists>tr p. pool_run E (start_pool n s0) tr p \<and> \<not> overlapped p \<and> requests_of (exchanges tr) qs"
proof -
  obtain H s where H: "served E s0 H s" "requests_of H qs" using own_history [OF assms(1-4)] by blast
  obtain tr where tr: "traced E s0 tr s" "exchanges tr = H" using served_traced [OF H(1)] by blast
  from traced_pool_run [OF tr(1) assms(5)] show ?thesis
    by (intro exI [of _ tr] exI [of _ "(start_pool n s0)\<lparr>srv := s\<rparr>"]) (simp add: tr(2) H(2) start_pool_def)
qed

end

section \<open>Properties\<close>

text \<open>A message has a header, which ends with an empty line.\<close>

definition header_ends :: "string \<Rightarrow> bool" where
  "header_ends b \<longleftrightarrow> (\<exists>u v. b = u @ [CHR 0x0D, CHR 0x0A, CHR 0x0D, CHR 0x0A] @ v)"

text \<open>Bytes that are no request are refused.\<close>

lemma refused_reply:
  assumes "length bytes < max_length" and "CHR 0x00 \<notin> set bytes" and "parse_http E bytes = None"
  shows "get_reply E ip (fill bytes zero_buffer) (int (length bytes)) s =
    (Inr (print_response E (result St_bad_request (set_field allow_origin_field ''*'' []))), s)"
proof -
  have "takeWhile (\<lambda>c. c \<noteq> CHR 0x00) bytes = bytes"
    by (rule takeWhile_eq_all_conv [THEN iffD2]) (use assms(2) in auto)
  then have "parse_request E (fill bytes zero_buffer) (int (length bytes)) = Inr None"
    using parse_request_fill [of bytes E] assms(1) by (simp only: less_imp_le assms(3)) simp
  then show ?thesis by (simp add: get_reply_def generate_response_def Let_def)
qed

text \<open>A session that reads two pieces, with its write in between.\<close>

lemma read_twice:
  assumes "server_inv E R0 s0" and "sessions s0 i = Some c" and "waits_for c = Pending_read"
    and "length a \<le> max_length" and "length b \<le> max_length"
    and "get_reply E (peer_ip c) (fill a zero_buffer) (int (length a)) (files s0, routes s0) = (Inr reply1, fs1, R1)"
    and "get_reply E (peer_ip c) (fill b zero_buffer) (int (length b)) (fs1, R1) = (Inr reply2, fs2, R2)"
  shows "\<exists>s. served E s0 [(peer_ip c, a, reply1), (peer_ip c, b, reply2)] s \<and> (files s, routes s) = (fs2, R2)"
proof -
  let ?ip = "peer_ip c"
  have zero: "in_data c = zero_buffer" using assms(1,2) by (auto simp: server_inv_def session_ok_def)
  let ?c1 = "c\<lparr>rep := reply1, in_data := zero_buffer, waits_for := Pending_write\<rparr>"
  let ?s1 = "s0\<lparr>files := fs1, routes := R1, sessions := (sessions s0)(i \<mapsto> ?c1)\<rparr>"
  have "perform E (Read_job i False a) s0 = Inr ?s1"
    using assms(2,6) zero by (simp add: handle_read_def finish_def)
  from served_job [OF served_start _ this] assms(2-4) have one: "served E s0 [(?ip, a, reply1)] ?s1"
    by (simp add: exchange_of_def)
  let ?c2 = "?c1\<lparr>waits_for := Pending_read\<rparr>"
  let ?s2 = "?s1\<lparr>sessions := (sessions ?s1)(i \<mapsto> ?c2)\<rparr>"
  have "perform E (Write_job i False (Some ?ip)) ?s1 = Inr ?s2"
    by (simp add: handle_write_def start_def finish_def)
  from served_job [OF one _ this] have two: "served E s0 [(?ip, a, reply1)] ?s2" by (simp add: exchange_of_def)
  let ?c3 = "?c2\<lparr>rep := reply2, in_data := zero_buffer, waits_for := Pending_write\<rparr>"
  let ?s3 = "?s2\<lparr>files := fs2, routes := R2, sessions := (sessions ?s2)(i \<mapsto> ?c3)\<rparr>"
  have "perform E (Read_job i False b) ?s2 = Inr ?s3"
    using assms(7) by (simp add: handle_read_def finish_def)
  from served_job [OF two _ this] assms(5) have "served E s0 [(?ip, a, reply1), (?ip, b, reply2)] ?s3"
    by (simp add: exchange_of_def)
  then show ?thesis by (intro exI [of _ ?s3]) simp
qed

text \<open>C35: what one read delivers is taken for a whole request. A request of which the first read
  delivers a part without the end of the header is not put together: that part is answered
  with status 400, and the rest is then handled as a request of its own, with the reply it
  would get alone. The HTTP parser is only assumed to need the end of a header.\<close>

theorem split_request_refused:
  assumes "server_inv E R0 s0" and "sessions s0 i = Some c" and "waits_for c = Pending_read"
    and "\<And>b. parse_http E b \<noteq> None \<Longrightarrow> header_ends b"
    and "parse_http E (part1 @ part2) = Some req" and "\<not> header_ends part1"
    and "length (part1 @ part2) < max_length" and "CHR 0x00 \<notin> set (part1 @ part2)"
    and "get_reply E (peer_ip c) (fill part2 zero_buffer) (int (length part2)) (files s0, routes s0) = (Inr reply2, fs2, R2)"
  shows "\<exists>s r. served E s0 [(peer_ip c, part1, print_response E r), (peer_ip c, part2, reply2)] s \<and>
    status_of r = Some St_bad_request \<and> (files s, routes s) = (fs2, R2)"
proof -
  have "parse_http E part1 = None" using assms(4,6) by blast
  then have "get_reply E (peer_ip c) (fill part1 zero_buffer) (int (length part1)) (files s0, routes s0) =
      (Inr (print_response E (result St_bad_request (set_field allow_origin_field ''*'' []))), files s0, routes s0)"
    using assms(7,8) by (intro refused_reply) simp_all
  from read_twice [OF assms(1-3) _ _ this assms(9)] assms(7) obtain s where
    "served E s0 [(peer_ip c, part1, print_response E (result St_bad_request (set_field allow_origin_field ''*'' []))),
      (peer_ip c, part2, reply2)] s" "(files s, routes s) = (fs2, R2)" by auto
  then show ?thesis
    by (intro exI [of _ s] exI [of _ "result St_bad_request (set_field allow_origin_field ''*'' [])"]) simp
qed

text \<open>A parser for the witness: one request line, and the end of the header.\<close>

definition line_parser :: "string \<Rightarrow> request option" where
  "line_parser b = (if b = ''GET /s/a'' @ [CHR 0x0D, CHR 0x0A, CHR 0x0D, CHR 0x0A]
     then Some \<lparr>req_method = Verb_get, req_target = ''/s/a'', req_body = [], req_fields = []\<rparr> else None)"

lemma split_request_refused_witness:
  "\<exists>s r reply. served (mem_world\<lparr>parse_http := line_parser\<rparr>)
     (idle_server\<lparr>sessions := (\<lambda>_. None)(0 \<mapsto> new_session\<lparr>peer_ip := ''1.2.3.4''\<rparr>)\<rparr>)
     [(''1.2.3.4'', ''GET /s'', print_response mem_world r),
      (''1.2.3.4'', ''/a'' @ [CHR 0x0D, CHR 0x0A, CHR 0x0D, CHR 0x0A], reply)] s \<and>
   status_of r = Some St_bad_request"
proof -
  let ?E = "mem_world\<lparr>parse_http := line_parser\<rparr>" and ?b = "''/a'' @ [CHR 0x0D, CHR 0x0A, CHR 0x0D, CHR 0x0A]"
  let ?s0 = "idle_server\<lparr>sessions := (\<lambda>_. None)(0 \<mapsto> new_session\<lparr>peer_ip := ''1.2.3.4''\<rparr>)\<rparr>"
  have inv: "server_inv ?E (routes ?s0) ?s0"
    by (simp add: server_inv_def session_ok_def new_session_def idle_server_def start_accept_def routes_ok_def)
  have ends: "parse_http ?E b \<noteq> None \<Longrightarrow> header_ends b" for b
    unfolding header_ends_def by (rule exI [of _ "''GET /s/a''"], rule exI [of _ "[]"]) (simp add: line_parser_def split: if_splits)
  have whole: "parse_http ?E (''GET /s'' @ ?b) = Some \<lparr>req_method = Verb_get, req_target = ''/s/a'', req_body = [], req_fields = []\<rparr>"
    by (simp add: line_parser_def)
  have "CHR 0x0D \<notin> set ''GET /s''" by simp
  moreover have "CHR 0x0D \<in> set b" if "header_ends b" for b using that by (auto simp: header_ends_def)
  ultimately have no: "\<not> header_ends ''GET /s''" by blast
  have rest: "get_reply ?E ''1.2.3.4'' (fill ?b zero_buffer) (int (length ?b)) (files ?s0, routes ?s0) =
      (Inr (print_response ?E (result St_bad_request (set_field allow_origin_field ''*'' []))), files ?s0, routes ?s0)"
    by (rule refused_reply) (simp_all add: line_parser_def max_length_def)
  from split_request_refused [OF inv _ _ ends whole no, of 0 "new_session\<lparr>peer_ip := ''1.2.3.4''\<rparr>"] rest
  have "\<exists>s r. served ?E ?s0 [(''1.2.3.4'', ''GET /s'', print_response ?E r), (''1.2.3.4'', ?b,
      print_response ?E (result St_bad_request (set_field allow_origin_field ''*'' [])))] s \<and> status_of r = Some St_bad_request"
    by (simp add: new_session_def max_length_def) blast
  then show ?thesis by (simp add: mem_world_def) blast
qed

end
