(* ===== verification/Crud_Service.thy ===== *)
theory Crud_Service
  imports Crud_Store Server_History
begin

text \<open>
  The CRUD service as its clients see it: requests that arrive as bytes at sessions of a
  server with a CRUD location. Routing, the factory with its map of ids, the handler and the
  printing of the response together refine the store of entities of \<open>Crud_Store\<close>.
\<close>

section \<open>What of a handler and a request counts\<close>

lemma client_ip_sel [simp]:
  "dir (set_client_ip ip h) = dir h" "prefix (set_client_ip ip h) = prefix h"
  by (simp_all add: set_client_ip_def)

lemma client_ip_unused:
  "check_request_url (set_client_ip ip h) = check_request_url h"
  "handle_post_request E (set_client_ip ip h) = handle_post_request E h"
  "handle_get_request E (set_client_ip ip h) = handle_get_request E h"
  "handle_put_request E (set_client_ip ip h) = handle_put_request E h"
  "handle_delete_request E (set_client_ip ip h) = handle_delete_request E h"
  by (intro ext, simp only: check_request_url_def handle_post_request_def handle_get_request_def
      handle_put_request_def handle_delete_request_def client_ip_sel)+

lemma crud_handle_client: "crud_handle E (set_client_ip ip h) s req r = crud_handle E h s req r"
  by (simp only: crud_handle_def client_ip_unused)

lemma crud_handle_fields:
  assumes same: "req_method q = req_method p" "req_target q = req_target p" "req_body q = req_body p"
  shows "crud_handle E h s q r = crud_handle E h s p r"
proof -
  have "handle_post_request E h suffix q = handle_post_request E h suffix p"
    "handle_put_request E h suffix q = handle_put_request E h suffix p" for suffix
    by (intro ext, simp only: handle_post_request_def handle_put_request_def put_write_def same)+
  then show ?thesis by (simp only: crud_handle_def same)
qed

section \<open>Requests and replies\<close>

definition service_op_ok :: "('fs, 'j) world \<Rightarrow> handler \<Rightarrow> store_op service_op \<Rightarrow> bool" where
  "service_op_ok E h q \<longleftrightarrow> (case q of (ip, bytes, x) \<Rightarrow> op_ok x \<and> arrives_as E bytes (request_of h x))"

definition service_spec :: "store \<Rightarrow> store_op service_op \<Rightarrow> store_reply \<times> store" where
  "service_spec s q = store_step s (snd (snd q))"

definition service_reply :: "('fs, 'j) world \<Rightarrow> store_reply \<Rightarrow> string outcome \<Rightarrow> bool" where
  "service_reply E p a \<longleftrightarrow>
     (\<exists>r. a = Inr (print_response E r) \<and> status_of r = Some (fst (shown_as E p)) \<and> body_of r = snd (shown_as E p))"

section \<open>The state of the service\<close>

definition crud_factory :: "string \<Rightarrow> string \<Rightarrow> factory \<Rightarrow> bool" where
  "crud_factory loc rt f \<longleftrightarrow> fkind f = CrudHandler \<and> location (farg f) = loc \<and> root (farg f) = rt"

definition service_inv :: "('fs, 'j) world \<Rightarrow> string \<Rightarrow> string \<Rightarrow> 'fs shared \<Rightarrow> bool" where
  "service_inv E loc rt s \<longleftrightarrow>
     loc \<noteq> [] \<and> none_below (snd s) loc \<and>
     (case map_find (snd s) loc of
        None \<Rightarrow> False
      | Some f \<Rightarrow> crud_factory loc rt f \<and> crud_inv E (new_handler loc rt) (fst s, file_to_id f))"

definition service_store :: "('fs, 'j) world \<Rightarrow> string \<Rightarrow> string \<Rightarrow> 'fs shared \<Rightarrow> store" where
  "service_store E loc rt s =
     (case map_find (snd s) loc of
        None \<Rightarrow> (\<lambda>_. None)
      | Some f \<Rightarrow> store_of E (new_handler loc rt) (fst s, file_to_id f))"

lemma request_target_below: "at_location (prefix h) (req_target (request_of h x))"
  by (cases x) (simp_all add: request_to_def at_location_def)

section \<open>One request\<close>

lemma service_step_crud:
  assumes inv: "service_inv E loc rt (fs, R)" and f: "map_find R loc = Some f"
    and op: "service_op_ok E (new_handler loc rt) (ip, bytes, x)"
    and run: "crud_step E (new_handler loc rt) (fs, file_to_id f) x = ((Inr b, r), fs', m)"
  shows "service_step E (fs, R) (ip, bytes, x) =
    (Inr (print_response E r), fs', map_assign loc (f\<lparr>file_to_id := m\<rparr>) R)"
proof (rule reply_of_arrival [where p = "request_of (new_handler loc rt) x" and f = f])
  let ?h = "new_handler loc rt" and ?r = "set_field allow_origin_field ''*'' []"
  show "at_location loc (req_target (request_of ?h x))" using request_target_below [of ?h x] by simp
  show "none_below R loc" "loc \<noteq> []" using inv by (simp_all add: service_inv_def)
  have kind: "fkind f = CrudHandler" "location (farg f) = loc" "root (farg f) = rt"
    using inv f by (simp_all add: service_inv_def crud_factory_def)
  have "crud_handle E ?h (fs, file_to_id f) (request_of ?h x) ?r = (Inr b, r, fs', m)"
    using run by (auto simp: crud_step_def split: prod.splits)
  then show "dispatch E ip loc f q ?r (fs, R) = (Inr r, fs', map_assign loc (f\<lparr>file_to_id := m\<rparr>) R)"
    if "same_request q (request_of ?h x)" for q
    using that crud_handle_fields [of q "request_of ?h x" E "set_client_ip ip ?h" "(fs, file_to_id f)" ?r]
    by (simp add: same_request_def dispatch_def create_handler_def kind handle_request_def crud_handle_client)
qed (use op f in \<open>simp_all add: service_op_ok_def\<close>)

lemma service_step_ok:
  assumes inv: "service_inv E loc rt s" and op: "service_op_ok E (new_handler loc rt) q"
  shows "service_inv E loc rt (snd (service_step E s q)) \<and>
    service_store E loc rt (snd (service_step E s q)) = snd (service_spec (service_store E loc rt s) q) \<and>
    service_reply E (fst (service_spec (service_store E loc rt s) q)) (fst (service_step E s q))"
proof -
  let ?h = "new_handler loc rt"
  obtain fs R where s: "s = (fs, R)" by force
  obtain ip bytes x where q: "q = (ip, bytes, x)" by (metis prod_cases3)
  obtain f where f: "map_find R loc = Some f" "crud_factory loc rt f" "crud_inv E ?h (fs, file_to_id f)"
    using inv by (auto simp: s service_inv_def split: option.splits)
  have x: "op_ok x" using op by (simp add: q service_op_ok_def)
  obtain a r fs' m where run: "crud_step E ?h (fs, file_to_id f) x = ((a, r), fs', m)" by (metis surj_pair)
  have inv': "crud_inv E ?h (fs', m)" using crud_store.preserves [OF f(3) x] by (simp add: run)
  have sim: "store_of E ?h (fs', m) = snd (store_step (store_of E ?h (fs, file_to_id f)) x)"
    using crud_store.simulates [OF f(3) x] by (simp add: run)
  have ans: "answer_ok E (fst (store_step (store_of E ?h (fs, file_to_id f)) x)) (a, r)"
    using crud_store.answers [OF f(3) x] by (simp add: run)
  then obtain b where a: "a = Inr b" by (simp add: answer_ok_def)
  have step: "service_step E (fs, R) (ip, bytes, x) =
      (Inr (print_response E r), fs', map_assign loc (f\<lparr>file_to_id := m\<rparr>) R)"
    by (rule service_step_crud [OF inv [unfolded s] f(1) op [unfolded q] run [unfolded a]])
  have "none_below (map_assign loc (f\<lparr>file_to_id := m\<rparr>) R) loc"
    using inv f(1) by (simp add: s service_inv_def none_below_assign)
  then have "service_inv E loc rt (fs', map_assign loc (f\<lparr>file_to_id := m\<rparr>) R)"
    using inv inv' f(2) by (simp add: service_inv_def map_find_assign crud_factory_def)
  moreover have "service_reply E (fst (service_spec (service_store E loc rt s) q)) (Inr (print_response E r))"
    using ans f(1) by (auto simp: s q service_spec_def service_reply_def service_store_def answer_ok_def)
  ultimately show ?thesis
    using sim f(1) by (simp add: s q step service_store_def map_find_assign service_spec_def)
qed

interpretation crud_service: location_service E "service_inv E loc rt" "service_op_ok E (new_handler loc rt)"
    service_spec "service_store E loc rt" "service_reply E" loc for E loc rt
proof unfold_locales
  show "service_inv E loc rt (fs, R') \<and> service_store E loc rt (fs, R') = service_store E loc rt (fs, R)"
    if "service_inv E loc rt (fs, R)" "map_find R' loc = map_find R loc" "same_routes R R'" for fs R R'
    using that none_below_same [OF that(3)] by (cases "map_find R loc") (simp_all add: service_inv_def service_store_def)
  show "\<exists>reply. a = Inr reply" if "service_reply E p a" for p a
    using that by (auto simp: service_reply_def)
  show "length bytes \<le> max_length" if "service_op_ok E (new_handler loc rt) (ip, bytes, x)" for ip bytes x
    using that by (simp add: service_op_ok_def arrives_as_def)
qed (simp_all add: service_step_ok)

section \<open>The start\<close>

lemma service_inv_init:
  assumes "map_find R loc = Some f" and "crud_factory loc rt f" and "file_to_id f = []" and "loc \<noteq> []"
    and "none_below R loc" and "posix_files E rt" and "node_at E fs rt = Some DirNode"
    and "\<And>ns. valid_path ns \<Longrightarrow> ns \<noteq> [] \<Longrightarrow> node_at E fs (path_of rt ns) = None"
  shows "service_inv E loc rt (fs, R)" and "service_store E loc rt (fs, R) = (\<lambda>_. None)"
proof -
  have "crud_inv E (new_handler loc rt) (fs, [])" using assms(6-8) by (intro crud_inv_init) simp_all
  then show "service_inv E loc rt (fs, R)" using assms(1-5) by (simp add: service_inv_def)
  show "service_store E loc rt (fs, R) = (\<lambda>_. None)"
    using assms(1,3) by (simp add: service_store_def store_of_init)
qed

end
