(* ===== verification/Interleaving.thy ===== *)
theory Interleaving
  imports Prelude
begin

text \<open>
  Threads on a shared state. A thread is its local state; a step takes it and the shared
  state to their successors, and a schedule says which thread moves next.
\<close>

section \<open>Schedules\<close>

text \<open>A number without a thread is skipped.\<close>

fun run_threads :: "('t \<Rightarrow> 's \<Rightarrow> 't \<times> 's) \<Rightarrow> nat list \<Rightarrow> 't list \<times> 's \<Rightarrow> 't list \<times> 's" where
  "run_threads step [] c = c"
| "run_threads step (i # is) (ts, s) =
     (if i < length ts
      then (case step (ts ! i) s of (t, s1) \<Rightarrow> run_threads step is (ts[i := t], s1))
      else run_threads step is (ts, s))"

definition solo :: "('t \<Rightarrow> 's \<Rightarrow> 't \<times> 's) \<Rightarrow> nat \<Rightarrow> 't \<times> 's \<Rightarrow> 't \<times> 's" where
  "solo step k = (case_prod step ^^ k)"

lemma solo_simps [simp]:
  "solo step 0 c = c"
  "solo step (Suc k) (t, s) = solo step k (step t s)"
  by (simp_all add: solo_def funpow_swap1)

lemma solo_add: "solo step (j + k) c = solo step k (solo step j c)"
proof -
  have "case_prod step ^^ (k + j) = (case_prod step ^^ k) \<circ> (case_prod step ^^ j)" by (rule funpow_add)
  then show ?thesis by (simp add: solo_def add.commute)
qed

lemma run_threads_append: "run_threads step (is @ js) c = run_threads step js (run_threads step is c)"
proof (induction "is" arbitrary: c)
  case (Cons i "is")
  show ?case by (cases c) (simp add: Cons split: prod.split)
qed simp

lemma run_threads_length: "length (fst (run_threads step is (ts, s))) = length ts"
  by (induction "is" arbitrary: ts s) (simp_all split: prod.split)

text \<open>A thread that moves alone takes the steps of its own.\<close>

lemma run_threads_alone:
  assumes "i < length ts"
  shows "run_threads step (replicate k i) (ts, s) =
    (case solo step k (ts ! i, s) of (t, s') \<Rightarrow> (ts[i := t], s'))"
  using assms
proof (induction k arbitrary: ts s)
  case (Suc k)
  obtain t s1 where step: "step (ts ! i) s = (t, s1)" by force
  have "run_threads step (replicate k i) (ts[i := t], s1) =
      (case solo step k (t, s1) of (t', s') \<Rightarrow> (ts[i := t'], s'))"
    using Suc.IH [of "ts[i := t]"] Suc.prems by simp
  then show ?case using Suc.prems by (simp add: step)
qed simp

end
