(* ===== verification/Crud_Threads.thy ===== *)
theory Crud_Threads
  imports Crud_Store Interleaving
begin

text \<open>
  CRUD requests handled by several threads. The handlers of one route share the map
  \<open>file_to_id_\<close> of their factory by reference, the server runs them on a pool of threads, and
  nothing in \<open>src/request_handler_crud.cc\<close> takes a lock. Here the four operations are cut
  into their accesses to the map and to the files, one step each, so that the steps of
  several threads can alternate in any order; a statement that changes the map, an iteration
  of the loop of \<open>get_next_id\<close> and a call of a file helper are one step each. For the C++
  standard unsynchronised accesses to one map are a data race and undefined (see
  \<open>Crud_Data_Race\<close>); an interleaving of whole accesses is the best they can do. So the model is
  used to show what can go wrong, never that something cannot. A request whose steps are not
  disturbed gives what \<open>crud_handle\<close> gives.
\<close>

section \<open>The operations, access by access\<close>

text \<open>
  \<open>insert_to_map\<close>: before the \<open>find\<close> of the key, the copy of the ids, the \<open>push_back\<close>, the
  second copy, its assignment; at the end, with the value returned. (A key that is there
  stays there, so \<open>file_to_id_[key]\<close> inserts nothing after the \<open>find\<close>.)
\<close>

datatype insert_pc = Ins_find | Ins_copy | Ins_push | Ins_sort | Ins_assign "int list" | Ins_done bool

fun insert_step :: "string \<Rightarrow> int \<Rightarrow> insert_pc \<times> ids \<Rightarrow> insert_pc \<times> ids" where
  "insert_step key n (Ins_find, m) = (if map_find m key \<noteq> None then Ins_copy else Ins_done False, m)"
| "insert_step key n (Ins_copy, m) = (if n \<notin> set (ids_of m key) then Ins_push else Ins_done False, m)"
| "insert_step key n (Ins_push, m) = (Ins_sort, map_assign key (ids_of m key @ [n]) m)"
| "insert_step key n (Ins_sort, m) = (Ins_assign (sort (ids_of m key)), m)"
| "insert_step key n (Ins_assign values_copy, m) = (Ins_done True, map_assign key values_copy m)"
| "insert_step key n (Ins_done b, m) = (Ins_done b, m)"

text \<open>
  POST: before the \<open>find\<close> of \<open>handle_post_request\<close>, before \<open>create_dir\<close>, before the \<open>find\<close>
  of \<open>get_next_id\<close>, before its assignment of the first id, at index \<open>i\<close> of its loop, in its
  call of \<open>insert_to_map\<close>; before the write; at the end.
\<close>

datatype post_pc =
    Post_find | Post_create_dir
  | Id_find | Id_first | Id_scan int nat | Id_insert int insert_pc
  | Post_write int
  | Post_done "bool outcome" response

fun post_step ::
    "('fs, 'j) world \<Rightarrow> handler \<Rightarrow> string \<Rightarrow> request \<Rightarrow> response \<Rightarrow>
     post_pc \<times> 'fs \<times> ids \<Rightarrow> post_pc \<times> 'fs \<times> ids" where
  "post_step E h suffix req r (Post_find, fs, m) =
     (if map_find m suffix = None then (Post_create_dir, fs, m) else (Id_find, fs, m))"
| "post_step E h suffix req r (Post_create_dir, fs, m) =
     (case create_dir E (dir h @ ''/'' @ suffix) fs of
        (False, fs1) \<Rightarrow> (Post_done (Inr False) (prepare_unprocessable_entity_response r), fs1, m)
      | (True, fs1) \<Rightarrow> (Id_find, fs1, m))"
| "post_step E h suffix req r (Id_find, fs, m) =
     (if map_find m suffix = None then (Id_first, fs, m) else (Id_scan 1 0, fs, m))"
| "post_step E h suffix req r (Id_first, fs, m) = (Post_write 1, fs, map_assign suffix [1] m)"
| "post_step E h suffix req r (Id_scan l i, fs, m) =
     (let v = ids_of m suffix in
      if i < length v then (Id_scan (if v ! i = l then l + 1 else l) (i + 1), fs, m)
      else (Id_insert l Ins_find, fs, m))"
| "post_step E h suffix req r (Id_insert n pc, fs, m) =
     (case insert_step suffix n (pc, m) of
        (Ins_done b, m1) \<Rightarrow> (Post_write n, fs, m1)
      | (pc1, m1) \<Rightarrow> (Id_insert n pc1, fs, m1))"
| "post_step E h suffix req r (Post_write n, fs, m) =
     (case write_to_file E (dir h @ ''/'' @ suffix @ ''/'' @ to_string n) (req_body req) fs of
        (True, fs1) \<Rightarrow> (Post_done (Inr True) (prepare_created_response n r), fs1, m)
      | (False, fs1) \<Rightarrow> (Post_done (Inr False) (prepare_internal_server_error_response r), fs1, m))"
| "post_step E h suffix req r (Post_done b r', fs, m) = (Post_done b r', fs, m)"

text \<open>GET: before \<open>exists\<close>, \<open>is_directory\<close>, the list of ids or the file; at the end.\<close>

datatype get_pc = Get_exists | Get_is_directory | Get_ids | Get_read | Get_done "bool outcome" response

fun get_step ::
    "('fs, 'j) world \<Rightarrow> handler \<Rightarrow> string \<Rightarrow> response \<Rightarrow>
     get_pc \<times> 'fs \<times> ids \<Rightarrow> get_pc \<times> 'fs \<times> ids" where
  "get_step E h suffix r (Get_exists, fs, m) =
     (if fs_exists E fs (dir h @ ''/'' @ suffix) then (Get_is_directory, fs, m)
      else (Get_done (Inr False) (prepare_not_found_response r), fs, m))"
| "get_step E h suffix r (Get_is_directory, fs, m) =
     (if fs_is_directory E fs (dir h @ ''/'' @ suffix) then Get_ids else Get_read, fs, m)"
| "get_step E h suffix r (Get_ids, fs, m) =
     (Get_done (Inr True)
        (prepare_payload (set_body (''['' @ str_join E (map to_string (ids_of m suffix)) '','' @ '']'' @ [CHR 0x0A])
          (set_field content_type_field ''text/plain'' (result St_ok r)))),
      fs, map_insert suffix [] m)"
| "get_step E h suffix r (Get_read, fs, m) =
     ((case read_from_file E (dir h @ ''/'' @ suffix) fs of
         Inl e \<Rightarrow> Get_done (Inl e) r
       | Inr (Some content) \<Rightarrow> Get_done (Inr True) (prepare_payload (set_body content (result St_ok r)))
       | Inr None \<Rightarrow> Get_done (Inr False) (prepare_not_found_response r)), fs, m)"
| "get_step E h suffix r (Get_done b r', fs, m) = (Get_done b r', fs, m)"

text \<open>
  PUT: before the number is read off the target, before the \<open>find\<close> of the entity, in the
  call of \<open>insert_to_map\<close>, before \<open>create_dir\<close>, before the assignment of the first id, before
  the write with the response made so far; at the end.
\<close>

datatype put_pc =
    Put_begin | Put_find int | Put_insert int insert_pc | Put_create_dir int | Put_first int
  | Put_write response
  | Put_done "bool outcome" response

fun put_step ::
    "('fs, 'j) world \<Rightarrow> handler \<Rightarrow> string \<Rightarrow> request \<Rightarrow> response \<Rightarrow>
     put_pc \<times> 'fs \<times> ids \<Rightarrow> put_pc \<times> 'fs \<times> ids" where
  "put_step E h suffix req r (Put_begin, fs, m) =
     (let id_name = snd (split_suffix suffix) in
      (if id_name \<noteq> [] \<and> list_all is_digit id_name then
         (case stoi id_name of Inl e \<Rightarrow> Put_done (Inl (Uncaught e)) r | Inr n \<Rightarrow> Put_find n)
       else Put_done (Inr False) (prepare_not_found_response r), fs, m))"
| "put_step E h suffix req r (Put_find n, fs, m) =
     (if map_find m (fst (split_suffix suffix)) \<noteq> None then Put_insert n Ins_find else Put_create_dir n, fs, m)"
| "put_step E h suffix req r (Put_insert n pc, fs, m) =
     (case insert_step (fst (split_suffix suffix)) n (pc, m) of
        (Ins_done b, m1) \<Rightarrow>
          (Put_write (if b then prepare_created_response n r else prepare_updated_response n r), fs, m1)
      | (pc1, m1) \<Rightarrow> (Put_insert n pc1, fs, m1))"
| "put_step E h suffix req r (Put_create_dir n, fs, m) =
     (case create_dir E (dir h @ ''/'' @ fst (split_suffix suffix)) fs of
        (False, fs1) \<Rightarrow> (Put_done (Inr False) (prepare_unprocessable_entity_response r), fs1, m)
      | (True, fs1) \<Rightarrow> (Put_first n, fs1, m))"
| "put_step E h suffix req r (Put_first n, fs, m) =
     (Put_write (prepare_created_response n r), fs, map_assign (fst (split_suffix suffix)) [n] m)"
| "put_step E h suffix req r (Put_write r', fs, m) =
     (case write_to_file E (dir h @ ''/'' @ suffix) (req_body req) fs of
        (True, fs1) \<Rightarrow> (Put_done (Inr True) r', fs1, m)
      | (False, fs1) \<Rightarrow> (Put_done (Inr False) (prepare_not_found_response r'), fs1, m))"
| "put_step E h suffix req r (Put_done b r', fs, m) = (Put_done b r', fs, m)"

text \<open>
  DELETE: before \<open>exists\<close>, before \<open>is_directory\<close> (the number is read off the target right
  after it), before the \<open>find\<close> of the entity, before \<open>remove\<close>, before the id is erased.
\<close>

datatype delete_pc =
    Delete_exists | Delete_is_directory | Delete_find int | Delete_remove int | Delete_erase int
  | Delete_done "bool outcome" response

fun delete_step ::
    "('fs, 'j) world \<Rightarrow> handler \<Rightarrow> string \<Rightarrow> response \<Rightarrow>
     delete_pc \<times> 'fs \<times> ids \<Rightarrow> delete_pc \<times> 'fs \<times> ids" where
  "delete_step E h suffix r (Delete_exists, fs, m) =
     (if fs_exists E fs (dir h @ ''/'' @ suffix) then Delete_is_directory
      else Delete_done (Inr False) (prepare_not_found_response r), fs, m)"
| "delete_step E h suffix r (Delete_is_directory, fs, m) =
     (if fs_is_directory E fs (dir h @ ''/'' @ suffix)
      then Delete_done (Inr False) (prepare_no_id_response r)
      else (case stoi (snd (split_suffix suffix)) of
              Inl _ \<Rightarrow> Delete_done (Inr False) (prepare_no_id_response r)
            | Inr n \<Rightarrow> Delete_find n), fs, m)"
| "delete_step E h suffix r (Delete_find n, fs, m) =
     (if map_find m (fst (split_suffix suffix)) \<noteq> None then Delete_remove n
      else Delete_done (Inr False) (prepare_not_found_response r), fs, m)"
| "delete_step E h suffix r (Delete_remove n, fs, m) =
     (case fs_std_remove E fs (dir h @ ''/'' @ suffix) of
        Some fs1 \<Rightarrow> (Delete_erase n, fs1, m)
      | None \<Rightarrow> (Delete_done (Inr False) (prepare_internal_server_error_response r), fs, m))"
| "delete_step E h suffix r (Delete_erase n, fs, m) =
     (let entity = fst (split_suffix suffix) in
      (Delete_done (Inr True) (prepare_deleted_response entity r), fs,
       map_assign entity (filter (\<lambda>x. x \<noteq> n) (ids_of m entity)) m))"
| "delete_step E h suffix r (Delete_done b r', fs, m) = (Delete_done b r', fs, m)"

section \<open>Threads\<close>

text \<open>
  A thread in \<open>handle_request\<close>: the suffix of the target and the request it handles, and
  where it is in the operation the method selects. A request that is answered without any
  access is \<open>Answered\<close> from the start.
\<close>

datatype crud_pc =
    Posting post_pc | Getting get_pc | Putting put_pc | Deleting delete_pc
  | Answered "bool outcome" response

record crud_thread =
  t_suffix :: string
  t_req :: request
  t_pc :: crud_pc

definition serve :: "handler \<Rightarrow> request \<Rightarrow> response \<Rightarrow> crud_thread" where
  "serve h req r =
     (case check_request_url h (req_target req) False of
        None \<Rightarrow> \<lparr>t_suffix = [], t_req = req, t_pc = Answered (Inr False) (prepare_bad_request_response r)\<rparr>
      | Some suffix \<Rightarrow>
          \<lparr>t_suffix = suffix, t_req = req,
           t_pc = (case req_method req of
                     Verb_post \<Rightarrow> Posting Post_find
                   | Verb_get \<Rightarrow> Getting Get_exists
                   | Verb_put \<Rightarrow> Putting Put_begin
                   | Verb_delete \<Rightarrow> Deleting Delete_exists
                   | _ \<Rightarrow> Answered (Inr False) (prepare_bad_request_response r))\<rparr>)"

fun pc_step ::
    "('fs, 'j) world \<Rightarrow> handler \<Rightarrow> string \<Rightarrow> request \<Rightarrow> response \<Rightarrow>
     crud_pc \<times> 'fs \<times> ids \<Rightarrow> crud_pc \<times> 'fs \<times> ids" where
  "pc_step E h suffix req r (Posting pc, s) = apfst Posting (post_step E h suffix req r (pc, s))"
| "pc_step E h suffix req r (Getting pc, s) = apfst Getting (get_step E h suffix r (pc, s))"
| "pc_step E h suffix req r (Putting pc, s) = apfst Putting (put_step E h suffix req r (pc, s))"
| "pc_step E h suffix req r (Deleting pc, s) = apfst Deleting (delete_step E h suffix r (pc, s))"
| "pc_step E h suffix req r (Answered b r', s) = (Answered b r', s)"

definition thread_step ::
    "('fs, 'j) world \<Rightarrow> handler \<Rightarrow> response \<Rightarrow> crud_thread \<Rightarrow> 'fs \<times> ids \<Rightarrow> crud_thread \<times> 'fs \<times> ids" where
  "thread_step E h r t s =
     (case pc_step E h (t_suffix t) (t_req t) r (t_pc t, s) of (pc, s1) \<Rightarrow> (t\<lparr>t_pc := pc\<rparr>, s1))"

text \<open>The value \<open>handle_request\<close> returns and the response, once the thread is at the end.\<close>

fun answer_of :: "crud_pc \<Rightarrow> (bool outcome \<times> response) option" where
  "answer_of (Posting (Post_done b r)) = Some (b, r)"
| "answer_of (Getting (Get_done b r)) = Some (b, r)"
| "answer_of (Putting (Put_done b r)) = Some (b, r)"
| "answer_of (Deleting (Delete_done b r)) = Some (b, r)"
| "answer_of (Answered b r) = Some (b, r)"
| "answer_of _ = None"

lemma solo_thread:
  "solo (thread_step E h r) k (t, s) =
    (case (pc_step E h (t_suffix t) (t_req t) r ^^ k) (t_pc t, s) of (pc, s') \<Rightarrow> (t\<lparr>t_pc := pc\<rparr>, s'))"
proof (induction k arbitrary: t s)
  case (Suc k)
  obtain pc s1 where step: "pc_step E h (t_suffix t) (t_req t) r (t_pc t, s) = (pc, s1)" by (metis surj_pair)
  show ?case using Suc.IH [of "t\<lparr>t_pc := pc\<rparr>" s1]
    by (simp add: thread_step_def step funpow_swap1)
qed simp

text \<open>The steps of a thread are those of the operation it is in.\<close>

lemma funpow_lift:
  fixes f :: "'a \<times> 's \<Rightarrow> 'a \<times> 's" and g :: "'b \<times> 's \<Rightarrow> 'b \<times> 's"
  assumes "\<And>x s. f (F x, s) = apfst F (g (x, s))"
  shows "(f ^^ k) (F x, s) = apfst F ((g ^^ k) (x, s))"
proof (induction k)
  case (Suc k)
  show ?case by (cases "(g ^^ k) (x, s)") (simp add: Suc assms)
qed simp

lemma pc_steps:
  "(pc_step E h e req r ^^ k) (Posting p, s) = apfst Posting ((post_step E h e req r ^^ k) (p, s))"
  "(pc_step E h e req r ^^ k) (Getting g, s) = apfst Getting ((get_step E h e r ^^ k) (g, s))"
  "(pc_step E h e req r ^^ k) (Putting u, s) = apfst Putting ((put_step E h e req r ^^ k) (u, s))"
  "(pc_step E h e req r ^^ k) (Deleting d, s) = apfst Deleting ((delete_step E h e r ^^ k) (d, s))"
  by (rule funpow_lift, simp)+

lemma answered_stays:
  assumes "answer_of pc = Some a" shows "(pc_step E h e req r ^^ k) (pc, s) = (pc, s)"
proof -
  have "pc_step E h e req r (pc, s) = (pc, s)"
    using assms by (cases s; cases pc rule: answer_of.cases) simp_all
  then show ?thesis by (induction k) simp_all
qed

section \<open>Requests that are not disturbed\<close>

text \<open>
  \<open>ends f n c c'\<close>: the steps \<open>f\<close> lead from \<open>c\<close> to \<open>c'\<close> in at most \<open>n\<close>.
\<close>

definition ends :: "('c \<Rightarrow> 'c) \<Rightarrow> nat \<Rightarrow> 'c \<Rightarrow> 'c \<Rightarrow> bool" where
  "ends f n c c' \<longleftrightarrow> (\<exists>k \<le> n. (f ^^ k) c = c')"

lemma ends_refl [simp]: "ends f n c c"
  by (auto simp: ends_def intro: exI [of _ 0])

lemma ends_step: "f c = c1 \<Longrightarrow> ends f n c1 c' \<Longrightarrow> ends f (Suc n) c c'"
  unfolding ends_def by (metis Suc_le_mono comp_apply funpow_Suc_right)

lemma ends_trans: "ends f i a b \<Longrightarrow> ends f j b c \<Longrightarrow> ends f (i + j) a c"
proof -
  assume "ends f i a b" "ends f j b c"
  then obtain k l where "k \<le> i" "(f ^^ k) a = b" "l \<le> j" "(f ^^ l) b = c" by (auto simp: ends_def)
  then have "(f ^^ (l + k)) a = c" "l + k \<le> i + j" by (simp_all add: funpow_add [where m = l])
  then show ?thesis unfolding ends_def by blast
qed

lemma ends_weaken: "ends f i a b \<Longrightarrow> i \<le> j \<Longrightarrow> ends f j a b"
  by (auto simp: ends_def intro: le_trans)

lemma ends_stop: "ends f (Suc n) c c' \<longleftrightarrow> c = c' \<or> ends f n (f c) c'"
proof
  assume "ends f (Suc n) c c'"
  then obtain k where k: "k \<le> Suc n" "(f ^^ k) c = c'" by (auto simp: ends_def)
  then show "c = c' \<or> ends f n (f c) c'"
    by (cases k) (auto simp: ends_def funpow_swap1)
qed (auto intro: ends_step)

text \<open>
  \<open>answers f n c D res\<close>: from \<open>c\<close> the steps \<open>f\<close> end, in at most \<open>n\<close>, in the place \<open>D\<close> with the
  value, the response and the state that the operation as a whole returns.
\<close>

definition answers ::
    "('p \<times> 's \<Rightarrow> 'p \<times> 's) \<Rightarrow> nat \<Rightarrow> 'p \<times> 's \<Rightarrow> (bool outcome \<Rightarrow> response \<Rightarrow> 'p) \<Rightarrow>
     bool outcome \<times> response \<times> 's \<Rightarrow> bool" where
  "answers f n c D res \<longleftrightarrow> (case res of (b, r, s) \<Rightarrow> ends f n c (D b r, s))"

lemma answers_simp: "answers f n c D (b, r, s) \<longleftrightarrow> ends f n c (D b r, s)"
  by (simp add: answers_def)

lemma answers_step: "answers f n (f c) D res \<Longrightarrow> answers f (Suc n) c D res"
  by (auto simp: answers_def intro: ends_step)

lemma answers_after: "ends f i c c1 \<Longrightarrow> answers f j c1 D res \<Longrightarrow> answers f (i + j) c D res"
  by (auto simp: answers_def intro: ends_trans)

lemma answers_weaken: "answers f i c D res \<Longrightarrow> i \<le> j \<Longrightarrow> answers f j c D res"
  by (auto simp: answers_def intro: ends_weaken)

text \<open>From the call of \<open>insert_to_map\<close> on.\<close>

lemma map_assign_again: "map_assign k w (map_assign k v m) = map_assign k w m"
  by (induction m) auto

text \<open>Both callers of \<open>insert_to_map\<close> run it inside their own steps.\<close>

lemma insert_alone:
  assumes known: "map_find m e = Some v"
    and inner: "\<And>pc m pc1 m1. insert_step e n (pc, m) = (pc1, m1) \<Longrightarrow>
        f (C pc, fs, m) = (case pc1 of Ins_done b \<Rightarrow> (D b, fs, m1) | _ \<Rightarrow> (C pc1, fs, m1))"
  shows "ends f 5 (C Ins_find, fs, m)
    (D (fst (insert_to_map e n m)), fs, snd (insert_to_map e n m))"
proof -
  show ?thesis
  proof (cases "n \<in> set v")
    case True
    have "f (C Ins_find, fs, m) = (C Ins_copy, fs, m)" "f (C Ins_copy, fs, m) = (D False, fs, m)"
      using known True by (simp_all add: inner ids_of_def)
    then show ?thesis using known True
      by (simp add: insert_to_map_Some eval_nat_numeral ends_stop)
  next
    case False
    let ?m = "map_assign e (v @ [n]) m"
    have m: "map_find ?m e = Some (v @ [n])" by (simp add: map_find_assign)
    have "f (C Ins_find, fs, m) = (C Ins_copy, fs, m)" "f (C Ins_copy, fs, m) = (C Ins_push, fs, m)"
      "f (C Ins_push, fs, m) = (C Ins_sort, fs, ?m)"
      "f (C Ins_sort, fs, ?m) = (C (Ins_assign (sort (v @ [n]))), fs, ?m)"
      "f (C (Ins_assign (sort (v @ [n]))), fs, ?m) = (D True, fs, map_assign e (sort (v @ [n])) m)"
      using known False m by (simp_all add: inner ids_of_def map_assign_again)
    then show ?thesis using known False
      by (simp add: insert_to_map_Some eval_nat_numeral ends_stop)
  qed
qed

text \<open>POST.\<close>

lemma scan_ids:
  assumes "map_find m e = Some v" and "i \<le> length v"
  shows "(post_step E h e req r ^^ (length v - i + 1)) (Id_scan l i, fs, m) =
    (Id_insert (lowest_available l (drop i v)) Ins_find, fs, m)"
  using assms(2)
proof (induction "length v - i" arbitrary: i l)
  case 0
  then show ?case using assms(1) by (simp add: ids_of_def)
next
  case (Suc d)
  then have i: "i < length v" and d: "length v - (i + 1) = d" by simp_all
  have step: "post_step E h e req r (Id_scan l i, fs, m) =
      (Id_scan (if v ! i = l then l + 1 else l) (i + 1), fs, m)"
    using i assms(1) by (simp add: ids_of_def)
  have "length v - i + 1 = Suc (length v - (i + 1) + 1)" using Suc.hyps(2) d by simp
  moreover have "drop i v = v ! i # drop (i + 1) v" using i by (simp add: Cons_nth_drop_Suc)
  ultimately show ?case
    using Suc.hyps(1) [of "i + 1" "if v ! i = l then l + 1 else l"] i d
    by (simp only: funpow_Suc_right comp_apply step) simp
qed

lemma get_id_alone:
  assumes "map_find m e = Some v"
  shows "(post_step E h e req r ^^ (length v + 3)) (Post_find, fs, m) =
    (Id_insert (lowest_available 1 v) Ins_find, fs, m)"
proof -
  have "(post_step E h e req r ^^ (length v + 3)) (Post_find, fs, m) =
      (post_step E h e req r ^^ (length v + 1)) (Id_scan 1 0, fs, m)"
    using assms by (simp add: eval_nat_numeral funpow_swap1)
  then show ?thesis using scan_ids [OF assms, of 0 E h req r 1 fs] by simp
qed

lemma id_insert_alone:
  assumes "map_find m e = Some v"
  shows "ends (post_step E h e req r) 5 (Id_insert n Ins_find, fs, m) (Post_write n, fs, snd (insert_to_map e n m))"
  by (rule insert_alone [where C = "Id_insert n" and D = "\<lambda>_. Post_write n", OF assms])
     (auto split: insert_pc.splits)

lemma get_next_id_alone:
  "ends (post_step E h e req r) (length (ids_of m e) + 8) (Id_find, fs, m)
     (Post_write (fst (get_next_id e m)), fs, snd (get_next_id e m))"
proof (cases "map_find m e")
  case None
  then show ?thesis by (simp add: get_next_id_def eval_nat_numeral ends_stop)
next
  case (Some v)
  have "ends (post_step E h e req r) (length v + 1) (Id_scan 1 0, fs, m)
      (Id_insert (lowest_available 1 v) Ins_find, fs, m)"
    using scan_ids [OF Some, of 0 E h req r 1 fs] by (auto simp: ends_def)
  from ends_trans [OF this id_insert_alone [OF Some]]
  have "ends (post_step E h e req r) (6 + length v) (Id_scan 1 0, fs, m)
      (Post_write (lowest_available 1 v), fs, snd (insert_to_map e (lowest_available 1 v) m))" by simp
  then have "ends (post_step E h e req r) (Suc (6 + length v)) (Id_find, fs, m)
      (Post_write (lowest_available 1 v), fs, snd (insert_to_map e (lowest_available 1 v) m))"
    by (rule ends_step [rotated]) (simp add: Some)
  moreover have "get_next_id e m = (lowest_available 1 v, snd (insert_to_map e (lowest_available 1 v) m))"
    "ids_of m e = v" using Some by (simp_all add: get_next_id_def ids_of_def Let_def)
  ultimately show ?thesis by (auto intro: ends_weaken)
qed

lemma post_write_alone:
  "answers (post_step E h e req r) 1 (Post_write n, fs, m) Post_done
     (case write_to_file E (dir h @ ''/'' @ e @ ''/'' @ to_string n) (req_body req) fs of
        (w, fs1) \<Rightarrow> if w then (Inr True, prepare_created_response n r, fs1, m)
          else (Inr False, prepare_internal_server_error_response r, fs1, m))"
  by (simp add: answers_def ends_stop split: prod.split bool.split)

lemmas post_rest_alone = answers_after [OF get_next_id_alone post_write_alone]

lemma post_alone:
  "answers (post_step E h e req r) (length (ids_of m e) + 11) (Post_find, fs, m) Post_done
     (handle_post_request E h e req r (fs, m))"
proof (cases "map_find m e")
  case None
  obtain made fs1 where c: "create_dir E (dir h @ ''/'' @ e) fs = (made, fs1)" by force
  have "answers (post_step E h e req r) (9 + length (ids_of m e)) (post_step E h e req r (Post_create_dir, fs, m))
      Post_done (handle_post_request E h e req r (fs, m))"
  proof (cases made)
    case True
    then show ?thesis using None c post_rest_alone [of E h e req r m fs1]
      by (simp add: handle_post_request_def Let_def case_prod_beta)
  qed (use None c in \<open>simp add: handle_post_request_def Let_def answers_simp\<close>)
  moreover have "post_step E h e req r (Post_find, fs, m) = (Post_create_dir, fs, m)" using None by simp
  ultimately have "answers (post_step E h e req r) (Suc (9 + length (ids_of m e)))
      (post_step E h e req r (Post_find, fs, m)) Post_done (handle_post_request E h e req r (fs, m))"
    by (simp only: answers_step)
  then show ?thesis by (rule answers_weaken [OF answers_step]) simp
next
  case (Some v)
  then have "answers (post_step E h e req r) (9 + length (ids_of m e)) (post_step E h e req r (Post_find, fs, m))
      Post_done (handle_post_request E h e req r (fs, m))"
    using post_rest_alone [of E h e req r m fs]
    by (simp add: handle_post_request_def Let_def case_prod_beta)
  then show ?thesis by (rule answers_weaken [OF answers_step]) simp
qed

text \<open>GET and DELETE.\<close>

lemma get_alone:
  "answers (get_step E h e r) 3 (Get_exists, s) Get_done (handle_get_request E h e r s)"
proof (cases s)
  case (Pair fs m)
  have "(case map_find (map_insert e [] m) e of None \<Rightarrow> [] | Some v \<Rightarrow> v) = ids_of m e"
    by (cases "map_find m e") (simp_all add: ids_of_def map_insert_def map_find_assign)
  then show ?thesis
    by (simp add: answers_def Pair handle_get_request_def Let_def eval_nat_numeral ends_stop split: sum.split option.split)
qed

lemma delete_alone:
  "answers (delete_step E h e r) 5 (Delete_exists, s) Delete_done (handle_delete_request E h e r s)"
proof (cases s)
  case (Pair fs m)
  show ?thesis
    by (simp add: answers_def Pair handle_delete_request_def Let_def eval_nat_numeral ends_stop ids_of_def
        split: sum.split option.split prod.split)
qed

text \<open>PUT.\<close>

lemma put_insert_alone:
  assumes "map_find m (fst (split_suffix e)) = Some v"
  shows "ends (put_step E h e req r) 5 (Put_insert n Ins_find, fs, m)
    (Put_write (if fst (insert_to_map (fst (split_suffix e)) n m) then prepare_created_response n r
       else prepare_updated_response n r), fs, snd (insert_to_map (fst (split_suffix e)) n m))"
  by (rule insert_alone [where C = "Put_insert n" and
        D = "\<lambda>b. Put_write (if b then prepare_created_response n r else prepare_updated_response n r)", OF assms])
     (auto split: insert_pc.splits)

lemma put_write_alone:
  "answers (put_step E h e req r) 1 (Put_write r1, fs, m) Put_done (put_write E (dir h @ ''/'' @ e) req r1 (fs, m))"
  by (simp add: answers_def put_write_def ends_stop split: prod.split bool.split)

lemmas put_rest_alone = answers_after [OF put_insert_alone put_write_alone]

lemma put_found_alone:
  assumes "snd (split_suffix e) \<noteq> []" and "list_all is_digit (snd (split_suffix e))"
    and "stoi (snd (split_suffix e)) = Inr n"
  shows "answers (put_step E h e req r) 7 (Put_find n, fs, m) Put_done (handle_put_request E h e req r (fs, m))"
proof (cases "map_find m (fst (split_suffix e))")
  case None
  obtain made fs1 where c: "create_dir E (dir h @ ''/'' @ fst (split_suffix e)) fs = (made, fs1)" by force
  let ?f = "put_step E h e req r" and ?res = "handle_put_request E h e req r (fs, m)"
  have "answers ?f 2 (?f (Put_create_dir n, fs, m)) Put_done ?res"
  proof (cases made)
    case True
    then have "answers ?f 1 (?f (Put_first n, fs1, m)) Put_done ?res"
      using assms None c put_write_alone [of E h e req r "prepare_created_response n r" fs1]
      by (simp add: handle_put_request_def case_prod_beta Let_def)
    from answers_step [OF this] True c show ?thesis by (simp add: numeral_2_eq_2)
  qed (use assms None c in \<open>simp add: handle_put_request_def case_prod_beta Let_def answers_simp\<close>)
  moreover have "?f (Put_find n, fs, m) = (Put_create_dir n, fs, m)" using None by simp
  ultimately have "answers ?f (Suc 2) (?f (Put_find n, fs, m)) Put_done ?res" by (simp only: answers_step)
  then show ?thesis by (rule answers_weaken [OF answers_step]) simp
next
  case (Some v)
  have "answers (put_step E h e req r) (5 + 1) (put_step E h e req r (Put_find n, fs, m)) Put_done
      (handle_put_request E h e req r (fs, m))"
    using assms put_rest_alone [OF Some, of E h req r n fs]
    by (cases "fst (insert_to_map (fst (split_suffix e)) n m)")
       (simp_all add: Some handle_put_request_def Let_def case_prod_beta)
  then show ?thesis by (rule answers_weaken [OF answers_step]) simp
qed

lemma put_alone:
  "answers (put_step E h e req r) 8 (Put_begin, fs, m) Put_done (handle_put_request E h e req r (fs, m))"
proof -
  let ?id = "snd (split_suffix e)"
  have "answers (put_step E h e req r) 7 (put_step E h e req r (Put_begin, fs, m)) Put_done
      (handle_put_request E h e req r (fs, m))"
  proof (cases "?id \<noteq> [] \<and> list_all is_digit ?id \<and> (\<exists>n. stoi ?id = Inr n)")
    case True
    then obtain n where "?id \<noteq> []" "list_all is_digit ?id" "stoi ?id = Inr n" by blast
    then show ?thesis using put_found_alone by simp
  next
    case False
    then show ?thesis
      by (auto simp: handle_put_request_def case_prod_beta Let_def answers_simp split: sum.split)
  qed
  then show ?thesis by (rule answers_weaken [OF answers_step]) simp
qed

text \<open>A whole request.\<close>

lemma serve_sel [simp]: "t_req (serve h req r) = req"
  by (simp add: serve_def split: option.split)

lemma answers_pc:
  "answers (post_step E h e req r) n (p, s) Post_done res \<Longrightarrow>
     answers (pc_step E h e req r) n (Posting p, s) (\<lambda>b r. Posting (Post_done b r)) res"
  "answers (get_step E h e r) n (g, s) Get_done res \<Longrightarrow>
     answers (pc_step E h e req r) n (Getting g, s) (\<lambda>b r. Getting (Get_done b r)) res"
  "answers (put_step E h e req r) n (u, s) Put_done res \<Longrightarrow>
     answers (pc_step E h e req r) n (Putting u, s) (\<lambda>b r. Putting (Put_done b r)) res"
  "answers (delete_step E h e r) n (d, s) Delete_done res \<Longrightarrow>
     answers (pc_step E h e req r) n (Deleting d, s) (\<lambda>b r. Deleting (Delete_done b r)) res"
  by (auto simp: answers_def ends_def pc_steps)

lemma request_alone:
  fixes h req r
  defines "t \<equiv> serve h req r"
  obtains D where "\<And>b r'. answer_of (D b r') = Some (b, r')"
    and "answers (pc_step E h (t_suffix t) req r) (length (ids_of m (t_suffix t)) + 11) (t_pc t, fs, m) D
      (crud_handle E h (fs, m) req r)"
proof (cases "check_request_url h (req_target req) False")
  case None
  show ?thesis
    by (rule that [of Answered]) (simp_all add: t_def serve_def None crud_handle_def answers_simp)
next
  case (Some e)
  note t = t_def serve_def crud_handle_def Some
  show ?thesis
  proof (cases "req_method req")
    case Verb_post
    then show ?thesis using answers_pc(1) [OF post_alone, of E h e req r m fs]
      by (intro that [of "\<lambda>b r. Posting (Post_done b r)"]) (simp_all add: t)
  next
    case Verb_get
    then show ?thesis using answers_weaken [OF answers_pc(2) [OF get_alone [of E h e r "(fs, m)"]]]
      by (intro that [of "\<lambda>b r. Getting (Get_done b r)"]) (simp_all add: t)
  next
    case Verb_put
    then show ?thesis using answers_weaken [OF answers_pc(3) [OF put_alone [of E h e req r fs m]]]
      by (intro that [of "\<lambda>b r. Putting (Put_done b r)"]) (simp_all add: t)
  next
    case Verb_delete
    then show ?thesis using answers_weaken [OF answers_pc(4) [OF delete_alone [of E h e r "(fs, m)"]]]
      by (intro that [of "\<lambda>b r. Deleting (Delete_done b r)"]) (simp_all add: t)
  qed (rule that [of Answered]; simp add: t answers_simp)+
qed

text \<open>After at least that many steps of its own, a thread has its answer.\<close>

lemma request_alone_long:
  fixes h req r
  defines "t \<equiv> serve h req r"
  assumes "length (ids_of m (t_suffix t)) + 11 \<le> k"
  shows "\<exists>b r' s' pc. crud_handle E h (fs, m) req r = (b, r', s') \<and> answer_of pc = Some (b, r') \<and>
    solo (thread_step E h r) k (t, fs, m) = (t\<lparr>t_pc := pc\<rparr>, s')"
proof -
  obtain D where D: "\<And>b r'. answer_of (D b r') = Some (b, r')"
      "answers (pc_step E h (t_suffix t) req r) (length (ids_of m (t_suffix t)) + 11) (t_pc t, fs, m) D
        (crud_handle E h (fs, m) req r)" unfolding t_def
    using request_alone [where E = E and h = h and req = req and r = r and m = m and fs = fs] by blast
  obtain b r' s' pc where fin: "crud_handle E h (fs, m) req r = (b, r', s')" "answer_of pc = Some (b, r')"
      "ends (pc_step E h (t_suffix t) req r) (length (ids_of m (t_suffix t)) + 11) (t_pc t, fs, m) (pc, s')"
    using D by (cases "crud_handle E h (fs, m) req r") (auto simp: answers_simp)
  then obtain j where j: "j \<le> k" "(pc_step E h (t_suffix t) req r ^^ j) (t_pc t, fs, m) = (pc, s')"
    using assms(2) unfolding ends_def by (meson le_trans)
  then have "(pc_step E h (t_suffix t) req r ^^ (k - j + j)) (t_pc t, fs, m) = (pc, s')"
    by (simp only: funpow_add [where m = "k - j"] comp_apply answered_stays [OF fin(2)])
  then have "solo (thread_step E h r) k (t, fs, m) = (t\<lparr>t_pc := pc\<rparr>, s')"
    using j(1) by (simp add: solo_thread t_def)
  then show ?thesis using fin(1,2) by blast
qed

text \<open>The thread for a request of a client.\<close>

abbreviation fresh_response :: response where
  "fresh_response \<equiv> set_field allow_origin_field ''*'' []"

definition serving :: "handler \<Rightarrow> store_op \<Rightarrow> crud_thread" where
  "serving h x = serve h (request_of h x) fresh_response"

fun suffix_of :: "store_op \<Rightarrow> string" where
  "suffix_of (Create e b) = e"
| "suffix_of (Replace e n b) = e @ ''/'' @ to_string n"
| "suffix_of (Read e n) = e @ ''/'' @ to_string n"
| "suffix_of (List_ids e) = e"
| "suffix_of (Remove e n) = e @ ''/'' @ to_string n"

fun first_pc :: "store_op \<Rightarrow> crud_pc" where
  "first_pc (Create e b) = Posting Post_find"
| "first_pc (Replace e n b) = Putting Put_begin"
| "first_pc (Read e n) = Getting Get_exists"
| "first_pc (List_ids e) = Getting Get_exists"
| "first_pc (Remove e n) = Deleting Delete_exists"

lemma serving_start:
  "op_ok x \<Longrightarrow> serving h x = \<lparr>t_suffix = suffix_of x, t_req = request_of h x, t_pc = first_pc x\<rparr>"
  by (cases x) (simp_all add: serving_def serve_def entity_suffix file_suffix)

text \<open>A state with an entity that has one entry, in the concrete world.\<close>

lemma demo_entity: "\<exists>fs. crud_inv mem_world demo_handler (fs, [(''Shoes'', [1])])"
  using write_new_entity [OF demo_inv, of "''Shoes''" "''a''" 1] by (auto simp: valid_name_def max_file_def)

section \<open>The operations as a whole\<close>

text \<open>
  The two translations of the operations agree: a request whose steps no other thread
  interrupts ends, after at most eleven steps more than the entity has ids, with the value, the
  response, the files and the map that \<open>crud_handle\<close> gives as a whole.
\<close>

lemma undisturbed_request:
  "\<exists>b r' s' k t. k \<le> length (ids_of m (t_suffix (serve h req r))) + 11 \<and>
     crud_handle E h (fs, m) req r = (b, r', s') \<and>
     solo (thread_step E h r) k (serve h req r, fs, m) = (t, s') \<and> answer_of (t_pc t) = Some (b, r')"
proof -
  obtain b r' s' pc where "crud_handle E h (fs, m) req r = (b, r', s')" "answer_of pc = Some (b, r')"
      "solo (thread_step E h r) (length (ids_of m (t_suffix (serve h req r))) + 11) (serve h req r, fs, m) =
        ((serve h req r)\<lparr>t_pc := pc\<rparr>, s')"
    using request_alone_long [where m = m and h = h and req = req and r = r and E = E and fs = fs, OF order_refl] by blast
  moreover from this(2) have "answer_of (t_pc ((serve h req r)\<lparr>t_pc := pc\<rparr>)) = Some (b, r')" by simp
  ultimately show ?thesis by blast
qed

end
