(* ===== verification/Crud_Races.thy ===== *)
theory Crud_Races
  imports Crud_Threads
begin

text \<open>
  What CRUD requests to one entity can do to each other when threads handle them at the same
  time: two POSTs can get the same id, or leave the id of one of them out of the map, and an
  id that a DELETE removes can come back.
\<close>

section \<open>The steps of a POST to a known entity\<close>

lemma run_post:
  assumes "i < length ts" and "t_pc (ts ! i) = Posting p"
  shows "run_threads (thread_step E h r) (replicate k i) (ts, s) =
    (case (post_step E h (t_suffix (ts ! i)) (t_req (ts ! i)) r ^^ k) (p, s) of
       (p', s') \<Rightarrow> (ts[i := (ts ! i)\<lparr>t_pc := Posting p'\<rparr>], s'))"
  using assms by (simp add: run_threads_alone solo_thread pc_steps split: prod.split)

lemma run_delete:
  assumes "i < length ts" and "t_pc (ts ! i) = Deleting p"
  shows "run_threads (thread_step E h r) (replicate k i) (ts, s) =
    (case (delete_step E h (t_suffix (ts ! i)) r ^^ k) (p, s) of
       (p', s') \<Rightarrow> (ts[i := (ts ! i)\<lparr>t_pc := Deleting p'\<rparr>], s'))"
  using assms by (simp add: run_threads_alone solo_thread pc_steps split: prod.split)

lemma insert_new_id:
  assumes "map_find m e = Some v" and "n \<notin> set v"
  shows "(post_step E h e req r ^^ 5) (Id_insert n Ins_find, fs, m) =
    (Post_write n, fs, map_assign e (sort (v @ [n])) m)"
  using assms by (simp add: eval_nat_numeral funpow_swap1 ids_of_def map_find_assign map_assign_again)

lemma insert_old_id:
  assumes "map_find m e = Some v" and "n \<in> set v"
  shows "(post_step E h e req r ^^ 2) (Id_insert n Ins_find, fs, m) = (Post_write n, fs, m)"
  using assms by (simp add: eval_nat_numeral funpow_swap1 ids_of_def)

section \<open>Two POSTs to one entity\<close>

definition post_of :: "string \<Rightarrow> request \<Rightarrow> crud_thread" where
  "post_of suffix req = \<lparr>t_suffix = suffix, t_req = req, t_pc = Posting Post_find\<rparr>"

text \<open>
  Both threads search the ids before either registers one: both find the same id. The first
  registers it and writes its file; the second sees it registered and writes over that file.
\<close>

definition same_id_schedule :: "nat \<Rightarrow> nat list" where
  "same_id_schedule k =
     replicate (k + 3) 0 @ replicate (k + 3) 1 @ replicate 6 0 @ replicate 3 1"

lemma write_alone:
  assumes "\<not> fs_is_directory E fs (dir h @ ''/'' @ e @ ''/'' @ to_string n)"
  shows "post_step E h e req r (Post_write n, fs, m) = (Post_done (Inr True) (prepare_created_response n r),
    fs_write E fs (dir h @ ''/'' @ e @ ''/'' @ to_string n) (req_body req), m)"
  using assms by (simp add: write_to_file_def)

lemma insert_and_write:
  assumes "map_find m e = Some v" and "n \<notin> set v"
    and "\<not> fs_is_directory E fs (dir h @ ''/'' @ e @ ''/'' @ to_string n)"
  shows "(post_step E h e req r ^^ 6) (Id_insert n Ins_find, fs, m) = (Post_done (Inr True) (prepare_created_response n r),
    fs_write E fs (dir h @ ''/'' @ e @ ''/'' @ to_string n) (req_body req), map_assign e (sort (v @ [n])) m)"
proof -
  have "(post_step E h e req r ^^ 6) (Id_insert n Ins_find, fs, m) =
      post_step E h e req r ((post_step E h e req r ^^ 5) (Id_insert n Ins_find, fs, m))"
    by (simp add: eval_nat_numeral)
  also have "\<dots> = (Post_done (Inr True) (prepare_created_response n r),
      fs_write E fs (dir h @ ''/'' @ e @ ''/'' @ to_string n) (req_body req), map_assign e (sort (v @ [n])) m)"
    unfolding insert_new_id [OF assms(1,2)] by (rule write_alone [OF assms(3)])
  finally show ?thesis .
qed

lemma posts_same_id:
  fixes h e
  defines "path n \<equiv> dir h @ ''/'' @ e @ ''/'' @ to_string n"
  assumes known: "map_find m e = Some v" and n: "n = lowest_available 1 v" "n \<notin> set v"
    and no_dir: "\<not> fs_is_directory E fs (path n)"
      "\<not> fs_is_directory E (fs_write E fs (path n) (req_body qa)) (path n)"
  shows "run_threads (thread_step E h r) (same_id_schedule (length v)) ([post_of e qa, post_of e qb], fs, m) =
    ([(post_of e qa)\<lparr>t_pc := Posting (Post_done (Inr True) (prepare_created_response n r))\<rparr>,
      (post_of e qb)\<lparr>t_pc := Posting (Post_done (Inr True) (prepare_created_response n r))\<rparr>],
     fs_write E (fs_write E fs (path n) (req_body qa)) (path n) (req_body qb),
     map_assign e (sort (v @ [n])) m)"
proof -
  let ?m = "map_assign e (sort (v @ [n])) m" and ?fs = "fs_write E fs (path n) (req_body qa)"
  have search: "(post_step E h e q r ^^ (length v + 3)) (Post_find, fs, m) = (Id_insert n Ins_find, fs, m)" for q
    using get_id_alone [OF known] n by simp
  note first = insert_and_write [OF known n(2) no_dir(1) [unfolded path_def], of qa r, folded path_def]
  have "n \<in> set (sort (v @ [n]))" "map_find ?m e = Some (sort (v @ [n]))" by (simp_all add: map_find_assign)
  note old = insert_old_id [OF this(2,1)]
  have "(post_step E h e qb r ^^ 3) (Id_insert n Ins_find, ?fs, ?m) =
      post_step E h e qb r ((post_step E h e qb r ^^ 2) (Id_insert n Ins_find, ?fs, ?m))"
    by (simp add: eval_nat_numeral)
  also have "\<dots> = (Post_done (Inr True) (prepare_created_response n r), fs_write E ?fs (path n) (req_body qb), ?m)"
    unfolding old path_def by (rule write_alone [OF no_dir(2) [unfolded path_def]])
  finally have second: "(post_step E h e qb r ^^ 3) (Id_insert n Ins_find, ?fs, ?m) = \<dots>" .
  show ?thesis
    by (simp add: same_id_schedule_def run_threads_append run_post post_of_def search first second
        del: funpow.simps replicate.simps)
qed


lemma insert_half_way:
  assumes "map_find m e = Some v" and "n \<notin> set v"
  shows "(post_step E h e req r ^^ 4) (Id_insert n Ins_find, fs, m) =
    (Id_insert n (Ins_assign (sort (v @ [n]))), fs, map_assign e (v @ [n]) m)"
  using assms by (simp add: eval_nat_numeral funpow_swap1 ids_of_def map_find_assign)

lemma assign_and_write:
  assumes "\<not> fs_is_directory E fs (dir h @ ''/'' @ e @ ''/'' @ to_string n)"
  shows "(post_step E h e req r ^^ 2) (Id_insert n (Ins_assign w), fs, m) = (Post_done (Inr True) (prepare_created_response n r),
    fs_write E fs (dir h @ ''/'' @ e @ ''/'' @ to_string n) (req_body req), map_assign e w m)"
proof -
  have "(post_step E h e req r ^^ 2) (Id_insert n (Ins_assign w), fs, m) =
      post_step E h e req r (Post_write n, fs, map_assign e w m)"
    by (simp add: eval_nat_numeral)
  then show ?thesis unfolding write_alone [OF assms] .
qed



section \<open>What the two requests get one after the other\<close>

lemma create_reply:
  assumes "crud_inv E h s" and "op_ok (Create e b)"
  shows "body_of (snd (fst (crud_step E h s (Create e b)))) =
    ''Created entry at '' @ id_text (free_id (entries_of (store_of E h s) e))"
  using crud_store.answers [OF assms] by (simp add: answer_ok_def Let_def)

lemma create_store:
  assumes "crud_inv E h s" and "op_ok (Create e b)"
  shows "entries_of (store_of E h (snd (crud_step E h s (Create e b)))) e =
    (entries_of (store_of E h s) e)(free_id (entries_of (store_of E h s) e) \<mapsto> b)"
  using crud_store.simulates [OF assms] by (simp add: Let_def entries_of_def)

lemma free_id_unused:
  assumes "crud_inv E h (fs, m)" and "valid_name e"
  shows "entries_of (store_of E h (fs, m)) e (free_id (entries_of (store_of E h (fs, m)) e)) = None"
proof (cases "map_find m e")
  case (Some v)
  obtain n m1 where n: "get_next_id e m = (n, m1)" by force
  have "n \<notin> set v" using get_next_id_spec(3) [OF crud_invD(3) [OF assms(1)] n] by (simp add: ids_of_def Some)
  then show ?thesis
    using content_at_iff [OF assms(1) Some] entries_of_store [OF assms] get_next_id_free [OF assms(1) Some n] by simp
qed (simp add: no_entries)

lemma id_text_inject [simp]: "id_text i = id_text j \<longleftrightarrow> i = j"
  by (simp add: id_text_def)

lemma replies_in_order_differ:
  assumes inv: "crud_inv E h s" and ok: "op_ok (Create e a)" "op_ok (Create e b)"
  shows "snd (fst (crud_step E h s (Create e a))) \<noteq>
    snd (fst (crud_step E h (snd (crud_step E h s (Create e a))) (Create e b)))"
proof -
  let ?s1 = "snd (crud_step E h s (Create e a))"
  let ?f = "entries_of (store_of E h s) e" and ?f1 = "entries_of (store_of E h ?s1) e"
  have inv1: "crud_inv E h ?s1" by (rule crud_store.preserves [OF inv ok(1)])
  obtain fs1 m1 where s1: "?s1 = (fs1, m1)" by force
  have "?f1 (free_id ?f1) = None"
    using free_id_unused [OF inv1 [unfolded s1], of e] ok by (simp add: s1)
  moreover have "?f1 (free_id ?f) \<noteq> None" by (simp add: create_store [OF inv ok(1)])
  ultimately have "free_id ?f \<noteq> free_id ?f1" by metis
  then show ?thesis using create_reply [OF inv ok(1)] create_reply [OF inv1 ok(2)] by auto
qed

section \<open>The files after the two writes\<close>

lemma entry_writable:
  assumes posix: "posix_files E (dir h)" and e: "valid_name e" and b: "int (length b) < max_file"
    and there: "node_at E fs (path_of (dir h) [e]) = Some DirNode"
    and entry: "node_at E fs (path_of (dir h) [e, to_string n]) = None \<or>
      (\<exists>c. node_at E fs (path_of (dir h) [e, to_string n]) = Some (FileNode c))"
  shows "\<not> fs_is_directory E fs (dir h @ ''/'' @ e @ ''/'' @ to_string n)"
    and "updated E (dir h) fs [e, to_string n] (Some (FileNode b))
      (fs_write E fs (dir h @ ''/'' @ e @ ''/'' @ to_string n) b)"
proof -
  obtain fs' where w: "write_to_file E (dir h @ ''/'' @ e @ ''/'' @ to_string n) b fs = (True, fs')"
      "updated E (dir h) fs [e, to_string n] (Some (FileNode b)) fs'"
    using write_to_file_spec [OF posix, of "[e]" "to_string n" fs _ b] e b there entry by (auto simp: path_of_two)
  then show "\<not> fs_is_directory E fs (dir h @ ''/'' @ e @ ''/'' @ to_string n)"
    by (auto simp: write_to_file_def)
  then show "updated E (dir h) fs [e, to_string n] (Some (FileNode b))
      (fs_write E fs (dir h @ ''/'' @ e @ ''/'' @ to_string n) b)"
    using w by (simp add: write_to_file_def)
qed

lemma free_next_id:
  assumes "crud_inv E h (fs, m)" and "map_find m e = Some v"
  shows "fst (get_next_id e m) = lowest_available 1 v" and "lowest_available 1 v \<notin> set v"
  using assms lowest_available_free [OF entity_present(3) [OF assms]] by (simp_all add: get_next_id_def Let_def)

lemma two_entries_written:
  assumes inv: "crud_inv E h (fs, m)" and known: "map_find m e = Some v"
    and ok: "int (length a) < max_file" "int (length b) < max_file"
  defines "path n \<equiv> dir h @ ''/'' @ e @ ''/'' @ to_string n"
  shows "\<not> fs_is_directory E fs (path i)" and "\<not> fs_is_directory E (fs_write E fs (path i) a) (path j)"
    and "content_at E (fs_write E (fs_write E fs (path i) a) (path j) b) (path_of (dir h) [e, to_string k]) =
      (if k = j then Some b else if k = i then Some a else content_at E fs (path_of (dir h) [e, to_string k]))"
proof -
  note posix = crud_invD(1) [OF inv] and e = entity_present(1) [OF inv known]
  have entry: "node_at E fs (path_of (dir h) [e, to_string n]) = None \<or>
      (\<exists>c. node_at E fs (path_of (dir h) [e, to_string n]) = Some (FileNode c))" for n
    using entity_present(4,5) [OF inv known, of n] by blast
  note first = entry_writable [OF posix e ok(1) entity_present(2) [OF inv known] entry, of i, folded path_def]
  let ?fs = "fs_write E fs (path i) a"
  have node: "node_at E ?fs (path_of (dir h) ms) =
      (if ms = [e, to_string i] then Some (FileNode a) else node_at E fs (path_of (dir h) ms))"
    if "valid_path ms" for ms using updatedD [OF first(2) that] .
  have there: "node_at E ?fs (path_of (dir h) [e]) = Some DirNode"
    using node [of "[e]"] e entity_present(2) [OF inv known] by simp
  have "node_at E ?fs (path_of (dir h) [e, to_string j]) = None \<or>
      (\<exists>c. node_at E ?fs (path_of (dir h) [e, to_string j]) = Some (FileNode c))"
    using node [of "[e, to_string j]"] e entry [of j] by auto
  note second = entry_writable [OF posix e ok(2) there this, folded path_def]
  show "\<not> fs_is_directory E fs (path i)" and "\<not> fs_is_directory E ?fs (path j)" using first(1) second(1) .
  show "content_at E (fs_write E ?fs (path j) b) (path_of (dir h) [e, to_string k]) =
      (if k = j then Some b else if k = i then Some a else content_at E fs (path_of (dir h) [e, to_string k]))"
    using updatedD [OF second(2), of "[e, to_string k]"] node [of "[e, to_string k]"] e
    by (simp add: content_at_def)
qed


section \<open>Properties\<close>

text \<open>A thread that has answered a POST with an id, and one that has answered a DELETE.\<close>

definition posted :: "handler \<Rightarrow> string \<Rightarrow> string \<Rightarrow> int \<Rightarrow> crud_thread" where
  "posted h e b n =
     (serving h (Create e b))\<lparr>t_pc := Posting (Post_done (Inr True) (prepare_created_response n fresh_response))\<rparr>"

definition deleted :: "handler \<Rightarrow> string \<Rightarrow> int \<Rightarrow> crud_thread" where
  "deleted h e n =
     (serving h (Remove e n))\<lparr>t_pc := Deleting (Delete_done (Inr True) (prepare_deleted_response e fresh_response))\<rparr>"

text \<open>
  The POST has its sorted copy of the ids, the DELETE removes an id and its file, and the
  POST assigns the copy, which still has the id.
\<close>

definition undone_schedule :: "nat \<Rightarrow> nat list" where
  "undone_schedule k = replicate (k + 3) 0 @ replicate 4 0 @ replicate 5 1 @ replicate 2 0"

lemma delete_file:
  assumes "map_find m e = Some v" and "int_min \<le> k" and "k \<le> int_max"
    and "fs_exists E fs (dir h @ ''/'' @ e @ ''/'' @ to_string k)"
    and "\<not> fs_is_directory E fs (dir h @ ''/'' @ e @ ''/'' @ to_string k)"
    and "fs_std_remove E fs (dir h @ ''/'' @ e @ ''/'' @ to_string k) = Some fs1"
  shows "(delete_step E h (e @ CHR ''/'' # to_string k) r ^^ 5) (Delete_exists, fs, m) =
    (Delete_done (Inr True) (prepare_deleted_response e r), fs1, map_assign e (filter (\<lambda>x. x \<noteq> k) v) m)"
  using assms by (simp add: eval_nat_numeral funpow_swap1 stoi_to_string ids_of_def)

lemma delete_undone:
  fixes h e
  defines "path n \<equiv> dir h @ ''/'' @ e @ ''/'' @ to_string n"
  assumes known: "map_find m e = Some v" and n: "n = lowest_available 1 v" "n \<notin> set v"
    and ok: "op_ok (Create e b)" "op_ok (Remove e k)"
    and there: "fs_exists E fs (path k)" "\<not> fs_is_directory E fs (path k)" "fs_std_remove E fs (path k) = Some fs1"
    and no_dir: "\<not> fs_is_directory E fs1 (path n)"
  shows "run_threads (thread_step E h fresh_response) (undone_schedule (length v))
      ([serving h (Create e b), serving h (Remove e k)], fs, m) =
    ([posted h e b n, deleted h e k], fs_write E fs1 (path n) b, map_assign e (sort (v @ [n])) m)"
proof -
  let ?q = "request_of h (Create e b)" and ?m = "map_assign e (v @ [n]) m"
  have search: "(post_step E h e ?q fresh_response ^^ (length v + 3)) (Post_find, fs, m) =
      (Id_insert n Ins_find, fs, m)"
    using get_id_alone [OF known, of E h ?q fresh_response fs] n by simp
  note half = insert_half_way [OF known n(2), of E h ?q fresh_response fs]
  have m: "map_find ?m e = Some (v @ [n])" by (simp add: map_find_assign)
  have k: "int_min \<le> k" "k \<le> int_max" using ok(2) by simp_all
  note delete = delete_file [OF m k there [unfolded path_def], of fresh_response]
  note last = assign_and_write [OF no_dir [unfolded path_def], of ?q fresh_response "sort (v @ [n])", folded path_def]
  show ?thesis
    using search half delete last
    by (simp add: undone_schedule_def run_threads_append run_post run_delete serving_start [OF ok(1)]
        serving_start [OF ok(2)] posted_def deleted_def map_assign_again del: funpow.simps replicate.simps)
qed

text \<open>C15: two threads that handle POSTs to a known entity at the same time can both answer that
  they created the same id, and the first body is lost. Handled one after the other, in
  whichever order, the two requests never get the same answer.\<close>

theorem concurrent_posts_share_id:
  assumes "crud_inv E h (fs, m)" and "map_find m e = Some v"
    and "op_ok (Create e a)" and "op_ok (Create e b)"
  shows "(\<exists>schedule n fs' m'.
      run_threads (thread_step E h fresh_response) schedule ([serving h (Create e a), serving h (Create e b)], fs, m) =
        ([posted h e a n, posted h e b n], fs', m') \<and>
      content_at E fs' (path_of (dir h) [e, to_string n]) = Some b) \<and>
    (\<forall>x y. op_ok (Create e x) \<and> op_ok (Create e y) \<longrightarrow>
      snd (fst (crud_step E h (fs, m) (Create e x))) \<noteq>
      snd (fst (crud_step E h (snd (crud_step E h (fs, m) (Create e x))) (Create e y))))"
proof -
  let ?n = "lowest_available 1 v"
  have len: "int (length a) < max_file" "int (length b) < max_file" using assms(3,4) by simp_all
  note files = two_entries_written [OF assms(1,2) len]
  have "run_threads (thread_step E h fresh_response) (same_id_schedule (length v)) ([serving h (Create e a), serving h (Create e b)], fs, m) =
      ([posted h e a ?n, posted h e b ?n],
       fs_write E (fs_write E fs (dir h @ ''/'' @ e @ ''/'' @ to_string ?n) a)
         (dir h @ ''/'' @ e @ ''/'' @ to_string ?n) b,
       map_assign e (sort (v @ [?n])) m)"
    using posts_same_id [OF assms(2) refl free_next_id(2) [OF assms(1,2)],
        where E = E and fs = fs and h = h and qa = "request_of h (Create e a)" and r = fresh_response and
          qb = "request_of h (Create e b)"] files(1) [of ?n] files(2) [of ?n ?n]
    by (simp add: posted_def serving_start [OF assms(3)] serving_start [OF assms(4)] post_of_def)
  moreover have "content_at E (fs_write E (fs_write E fs (dir h @ ''/'' @ e @ ''/'' @ to_string ?n) a)
      (dir h @ ''/'' @ e @ ''/'' @ to_string ?n) b) (path_of (dir h) [e, to_string ?n]) = Some b"
    using files(3) [of ?n ?n ?n] by simp
  ultimately show ?thesis using replies_in_order_differ [OF assms(1)] by blast
qed

lemma concurrent_posts_share_id_witness:
  "\<exists>fs schedule n fs' m'.
     run_threads (thread_step mem_world demo_handler fresh_response) schedule
       ([serving demo_handler (Create ''Shoes'' ''b''), serving demo_handler (Create ''Shoes'' ''c'')], fs, [(''Shoes'', [1])]) =
         ([posted demo_handler ''Shoes'' ''b'' n, posted demo_handler ''Shoes'' ''c'' n], fs', m') \<and>
     content_at mem_world fs' (path_of (dir demo_handler) [''Shoes'', to_string n]) = Some ''c''"
proof -
  obtain fs where inv: "crud_inv mem_world demo_handler (fs, [(''Shoes'', [1])])" using demo_entity by blast
  have ok: "op_ok (Create ''Shoes'' ''b'')" "op_ok (Create ''Shoes'' ''c'')"
    by (simp_all add: valid_name_def max_file_def)
  have "map_find [(''Shoes'', [1 :: int])] ''Shoes'' = Some [1]" by simp
  from concurrent_posts_share_id [OF inv this ok] show ?thesis by blast
qed



text \<open>C16: a DELETE that a thread handles while another handles a POST to the same entity can be
  answered as done and yet leave its id in the map, without a file: the entity lists an id that
  cannot be read, and the invariant that ties the map to the files is broken.\<close>

theorem concurrent_delete_undone:
  assumes "crud_inv E h (fs, m)" and "map_find m e = Some v" and "k \<in> set v"
    and "op_ok (Create e b)" and "op_ok (Remove e k)"
  shows "\<exists>schedule n fs' m'.
      run_threads (thread_step E h fresh_response) schedule
        ([serving h (Create e b), serving h (Remove e k)], fs, m) =
        ([posted h e b n, deleted h e k], fs', m') \<and>
      content_at E fs' (path_of (dir h) [e, to_string k]) = None \<and> k \<in> set (ids_of m' e) \<and>
      \<not> crud_inv E h (fs', m')"
proof -
  let ?n = "lowest_available 1 v"
  let ?m = "map_assign e (sort (v @ [?n])) m"
  note posix = crud_invD(1) [OF assms(1)] and e = entity_present(1) [OF assms(1,2)]
  note n = free_next_id [OF assms(1,2)]
  obtain c where c: "node_at E fs (path_of (dir h) [e, to_string k]) = Some (FileNode c)"
    using entity_present(4) [OF assms(1,2,3)] by blast
  then have there: "fs_exists E fs (dir h @ ''/'' @ e @ ''/'' @ to_string k)"
    "\<not> fs_is_directory E fs (dir h @ ''/'' @ e @ ''/'' @ to_string k)"
    by (simp_all add: node_at_FileNode path_of_two)
  obtain fs1 where rm: "fs_std_remove E fs (dir h @ ''/'' @ e @ ''/'' @ to_string k) = Some fs1"
      "updated E (dir h) fs [e, to_string k] None fs1"
    using std_remove_spec [OF posix, of "[e]" "to_string k" fs c] e c by (auto simp: path_of_two)
  have node: "node_at E fs1 (path_of (dir h) ns) =
      (if ns = [e, to_string k] then None else node_at E fs (path_of (dir h) ns))"
    if "valid_path ns" for ns using updatedD [OF rm(2) that] .
  have entity: "node_at E fs1 (path_of (dir h) [e]) = Some DirNode"
    using node [of "[e]"] e entity_present(2) [OF assms(1,2)] by simp
  have entry: "node_at E fs1 (path_of (dir h) [e, to_string ?n]) = None"
    using node [of "[e, to_string ?n]"] e entity_present(5) [OF assms(1,2) n(2)] by simp
  have len: "int (length b) < max_file" using assms(4) by simp
  note written = entry_writable [OF posix e len entity disjI1 [OF entry]]
  let ?fs = "fs_write E fs1 (dir h @ ''/'' @ e @ ''/'' @ to_string ?n) b"
  have "k \<noteq> ?n" using assms(3) n(2) by metis
  then have gone: "content_at E ?fs (path_of (dir h) [e, to_string k]) = None"
    using updatedD [OF written(2), of "[e, to_string k]"] node [of "[e, to_string k]"] e
    by (simp add: content_at_def)
  have ids: "map_find ?m e = Some (sort (v @ [?n]))" by (simp add: map_find_assign)
  then have "k \<in> set (ids_of ?m e)" using assms(3) by (simp add: ids_of_def)
  moreover have "\<not> crud_inv E h (?fs, ?m)"
    using content_at_iff [of E h ?fs ?m, OF _ ids, of k] gone assms(3) by auto
  ultimately show ?thesis
    using delete_undone [OF assms(2) refl n(2) assms(4,5) there rm(1) written(1)] gone by blast
qed

lemma concurrent_delete_undone_witness:
  "\<exists>fs schedule n fs' m'.
     run_threads (thread_step mem_world demo_handler fresh_response) schedule
       ([serving demo_handler (Create ''Shoes'' ''b''), serving demo_handler (Remove ''Shoes'' 1)],
        fs, [(''Shoes'', [1])]) =
         ([posted demo_handler ''Shoes'' ''b'' n, deleted demo_handler ''Shoes'' 1], fs', m') \<and>
     1 \<in> set (ids_of m' ''Shoes'')"
proof -
  obtain fs where inv: "crud_inv mem_world demo_handler (fs, [(''Shoes'', [1])])" using demo_entity by blast
  have ok: "op_ok (Create ''Shoes'' ''b'')" "op_ok (Remove ''Shoes'' 1)"
    by (simp_all add: valid_name_def max_file_def int_min_def int_max_def)
  have "map_find [(''Shoes'', [1 :: int])] ''Shoes'' = Some [1]" "(1 :: int) \<in> set [1]" by simp_all
  from concurrent_delete_undone [OF inv this ok] show ?thesis by blast
qed

end
