(* ===== verification/Crud_Data_Race.thy ===== *)
theory Crud_Data_Race
  imports Crud_Threads
begin

text \<open>
  Which accesses of CRUD requests to the shared map C++ leaves undefined. The handlers of a
  route share the \<open>std::map\<close> of their factory and nothing locks it. Adding a key to a
  \<open>std::map\<close> changes its tree, so it must not happen at the same time as any other access to
  the map, whatever the keys. Here each point of an operation is given the access that its
  next step makes, and two threads race when one is about to add a key and the other is about
  to access the map.
\<close>

section \<open>The next access to the map\<close>

datatype map_access = Looks_up | Adds_key

text \<open>\<open>file_to_id_[key]\<close> adds the key if it is not there.\<close>

definition indexed :: "string \<Rightarrow> ids \<Rightarrow> map_access option" where
  "indexed key m = Some (if map_find m key = None then Adds_key else Looks_up)"

fun insert_access :: "string \<Rightarrow> ids \<Rightarrow> insert_pc \<Rightarrow> map_access option" where
  "insert_access key m Ins_find = Some Looks_up"
| "insert_access key m (Ins_done b) = None"
| "insert_access key m _ = indexed key m"

fun post_access :: "string \<Rightarrow> ids \<Rightarrow> post_pc \<Rightarrow> map_access option" where
  "post_access suffix m Post_find = Some Looks_up"
| "post_access suffix m Id_find = Some Looks_up"
| "post_access suffix m Id_first = indexed suffix m"
| "post_access suffix m (Id_scan l i) = indexed suffix m"
| "post_access suffix m (Id_insert n pc) = insert_access suffix m pc"
| "post_access suffix m _ = None"

fun get_access :: "string \<Rightarrow> ids \<Rightarrow> get_pc \<Rightarrow> map_access option" where
  "get_access suffix m Get_ids = indexed suffix m"
| "get_access suffix m _ = None"

fun put_access :: "string \<Rightarrow> ids \<Rightarrow> put_pc \<Rightarrow> map_access option" where
  "put_access suffix m (Put_find n) = Some Looks_up"
| "put_access suffix m (Put_insert n pc) = insert_access (fst (split_suffix suffix)) m pc"
| "put_access suffix m (Put_first n) = indexed (fst (split_suffix suffix)) m"
| "put_access suffix m _ = None"

fun delete_access :: "string \<Rightarrow> ids \<Rightarrow> delete_pc \<Rightarrow> map_access option" where
  "delete_access suffix m (Delete_find n) = Some Looks_up"
| "delete_access suffix m (Delete_erase n) = indexed (fst (split_suffix suffix)) m"
| "delete_access suffix m _ = None"

fun pc_access :: "string \<Rightarrow> ids \<Rightarrow> crud_pc \<Rightarrow> map_access option" where
  "pc_access suffix m (Posting pc) = post_access suffix m pc"
| "pc_access suffix m (Getting pc) = get_access suffix m pc"
| "pc_access suffix m (Putting pc) = put_access suffix m pc"
| "pc_access suffix m (Deleting pc) = delete_access suffix m pc"
| "pc_access suffix m (Answered b r) = None"

definition thread_access :: "ids \<Rightarrow> crud_thread \<Rightarrow> map_access option" where
  "thread_access m t = pc_access (t_suffix t) m (t_pc t)"

definition data_race :: "ids \<Rightarrow> crud_thread list \<Rightarrow> bool" where
  "data_race m ts \<longleftrightarrow>
     (\<exists>i < length ts. \<exists>j < length ts. i \<noteq> j \<and>
        thread_access m (ts ! i) = Some Adds_key \<and> thread_access m (ts ! j) \<noteq> None)"

text \<open>A step that makes no access leaves the map as it is.\<close>

lemma indexed_access [simp]: "indexed key m \<noteq> None" "None \<noteq> indexed key m"
  by (simp_all add: indexed_def)

lemma insert_no_access: "insert_access key m pc = None \<Longrightarrow> insert_step key n (pc, m) = (pc, m)"
  by (cases pc) simp_all

lemma no_access:
  "post_access e m p = None \<Longrightarrow> snd (snd (post_step E h e req r (p, fs, m))) = m"
  "get_access e m g = None \<Longrightarrow> snd (snd (get_step E h e r (g, fs, m))) = m"
  "put_access e m u = None \<Longrightarrow> snd (snd (put_step E h e req r (u, fs, m))) = m"
  "delete_access e m d = None \<Longrightarrow> snd (snd (delete_step E h e r (d, fs, m))) = m"
proof -
  show "snd (snd (post_step E h e req r (p, fs, m))) = m" if "post_access e m p = None"
    using that by (cases p) (auto simp: insert_no_access split: prod.split bool.split insert_pc.split)
  show "snd (snd (get_step E h e r (g, fs, m))) = m" if "get_access e m g = None"
    using that by (cases g) simp_all
  show "snd (snd (put_step E h e req r (u, fs, m))) = m" if "put_access e m u = None"
    using that by (cases u) (auto simp: insert_no_access Let_def split: prod.split bool.split sum.split insert_pc.split)
  show "snd (snd (delete_step E h e r (d, fs, m))) = m" if "delete_access e m d = None"
    using that by (cases d) (simp_all split: option.split)
qed

lemma step_without_access: "thread_access m t = None \<Longrightarrow> snd (snd (thread_step E h r t (fs, m))) = m"
  by (cases "t_pc t") (auto simp: thread_access_def thread_step_def case_prod_beta no_access)

section \<open>The requests that get to the map\<close>

text \<open>
  A POST and a PUT always look for their entity, a DELETE does once it has found its file, and
  a list of ids is read once the directory is found. Only the read of an entry does without.
\<close>

fun uses_map :: "ids \<Rightarrow> store_op \<Rightarrow> bool" where
  "uses_map m (Create e b) \<longleftrightarrow> True"
| "uses_map m (Replace e n b) \<longleftrightarrow> True"
| "uses_map m (Read e n) \<longleftrightarrow> False"
| "uses_map m (List_ids e) \<longleftrightarrow> map_find m e \<noteq> None"
| "uses_map m (Remove e n) \<longleftrightarrow> n \<in> set (ids_of m e)"

lemma reaches_map:
  assumes inv: "crud_inv E h (fs, m)" and ok: "op_ok x" and uses: "uses_map m x"
  shows "\<exists>k t. solo (thread_step E h r) k (serving h x, fs, m) = (t, fs, m) \<and> thread_access m t \<noteq> None"
proof (cases x)
  case (Create e b)
  then show ?thesis using serving_start [OF ok, of h]
    by (intro exI [of _ 0] exI [of _ "serving h x"]) (simp add: thread_access_def)
next
  case (Replace e n b)
  then have "stoi (to_string n) = Inr n" "list_all is_digit (to_string n)" "to_string n \<noteq> []"
    using ok by (simp_all add: stoi_to_string int_min_def to_string_digits)
  then show ?thesis using serving_start [OF ok, of h] Replace
    by (intro exI [of _ 1] exI [of _ "(serving h x)\<lparr>t_pc := Putting (Put_find n)\<rparr>"])
       (simp add: thread_access_def thread_step_def Let_def)
next
  case (List_ids e)
  then obtain v where "map_find m e = Some v" using uses by auto
  then have "node_at E fs (path_of (dir h) [e]) = Some DirNode" by (rule entity_present(2) [OF inv])
  then have "fs_exists E fs (dir h @ ''/'' @ e)" "fs_is_directory E fs (dir h @ ''/'' @ e)"
    by (simp_all add: path_of_one node_at_DirNode)
  then show ?thesis using serving_start [OF ok, of h] List_ids
    by (intro exI [of _ 2] exI [of _ "(serving h x)\<lparr>t_pc := Getting Get_ids\<rparr>"])
       (simp add: thread_access_def thread_step_def numeral_2_eq_2)
next
  case (Remove e n)
  then obtain v where v: "map_find m e = Some v" "n \<in> set v"
    using uses by (cases "map_find m e") (simp_all add: ids_of_def)
  obtain b where "node_at E fs (path_of (dir h) [e, to_string n]) = Some (FileNode b)"
    using entity_present(4) [OF inv v] by blast
  then have "fs_exists E fs (dir h @ ''/'' @ e @ ''/'' @ to_string n)"
      "\<not> fs_is_directory E fs (dir h @ ''/'' @ e @ ''/'' @ to_string n)"
    by (simp_all add: path_of_two node_at_FileNode)
  moreover have "stoi (to_string n) = Inr n" using ok Remove by (simp add: stoi_to_string)
  ultimately show ?thesis using serving_start [OF ok, of h] Remove
    by (intro exI [of _ 2] exI [of _ "(serving h x)\<lparr>t_pc := Deleting (Delete_find n)\<rparr>"])
       (simp add: thread_access_def thread_step_def numeral_2_eq_2)
qed (use uses in simp)

text \<open>And a POST to a new entity gets to the point where it adds the key.\<close>

lemma reaches_new_key:
  assumes inv: "crud_inv E h (fs, m)" and ok: "op_ok (Create e a)" and new: "map_find m e = None"
  shows "\<exists>t fs1. solo (thread_step E h r) 3 (serving h (Create e a), fs, m) = (t, fs1, m) \<and>
    thread_access m t = Some Adds_key"
proof -
  obtain fs1 where "create_dir E (dir h @ ''/'' @ e) fs = (True, fs1)"
    using write_new_entity [OF inv _ new, of a 0] ok by auto
  then show ?thesis using serving_start [OF ok, of h] new
    by (intro exI [of _ "(serving h (Create e a))\<lparr>t_pc := Posting Id_first\<rparr>"] exI [of _ fs1])
       (simp add: thread_access_def thread_step_def indexed_def numeral_3_eq_3)
qed

section \<open>Properties\<close>

text \<open>C5: a data race. A POST that creates an entity can come to add its key to the shared map at
  the moment when another request is about to access the map, be it for the same entity or for
  another one: any other request of the route will do that uses the map at all. In C++ the
  behaviour of the process is then undefined.\<close>

theorem creation_races:
  assumes "crud_inv E h (fs, m)" and "op_ok (Create e a)" and "map_find m e = None"
    and "op_ok x" and "uses_map m x"
  shows "\<exists>schedule ts fs'. data_race m ts \<and>
    run_threads (thread_step E h fresh_response) schedule ([serving h (Create e a), serving h x], fs, m) = (ts, fs', m)"
proof -
  obtain k t1 where t1: "solo (thread_step E h fresh_response) k (serving h x, fs, m) = (t1, fs, m)"
    "thread_access m t1 \<noteq> None" using reaches_map [OF assms(1,4,5)] by blast
  obtain t0 fs1 where t0: "solo (thread_step E h fresh_response) 3 (serving h (Create e a), fs, m) = (t0, fs1, m)"
    "thread_access m t0 = Some Adds_key" using reaches_new_key [OF assms(1-3)] by blast
  have "run_threads (thread_step E h fresh_response) (replicate k 1 @ replicate 3 0)
      ([serving h (Create e a), serving h x], fs, m) = ([t0, t1], fs1, m)"
    using t0(1) t1(1) by (simp add: run_threads_append run_threads_alone del: replicate.simps solo_simps)
  moreover have "data_race m [t0, t1]"
    unfolding data_race_def by (intro exI [of _ 0] exI [of _ 1] conjI) (use t0(2) t1(2) in simp_all)
  ultimately show ?thesis by blast
qed

lemma creation_races_witness:
  "\<exists>schedule ts fs'. data_race [] ts \<and>
     run_threads (thread_step mem_world demo_handler fresh_response) schedule
       ([serving demo_handler (Create ''Shoes'' ''a''), serving demo_handler (Create ''Hats'' ''b'')], demo_files, []) =
       (ts, fs', [])"
  by (rule creation_races [OF demo_inv]) (simp_all add: valid_name_def max_file_def)

end
