(* ===== verification/Text_Gen_Store.thy ===== *)
theory Text_Gen_Store
  imports Text_Gen Refinement
begin

text \<open>
  What the text generation handler promises one client: a finite map from titles to the
  entries saved under them, and the list of its titles once there was one. The hypotheses are
  \<open>posix_files\<close> and \<open>list_works\<close> on the root of the handler, \<open>json_ok\<close> on the JSON library and
  \<open>boost_strings\<close> on splitting and joining strings.
\<close>

section \<open>What the libraries are relied on for\<close>

text \<open>
  \<open>clean j\<close>: all strings of the JSON value \<open>j\<close> are UTF-8, as \<open>utf8 s\<close> says of one string.
  Such a value can be written and is read back. Strings of ASCII characters are UTF-8, and
  so is what the library has parsed.
\<close>

definition ascii :: "string \<Rightarrow> bool" where
  "ascii s \<longleftrightarrow> list_all (\<lambda>c. (of_char c :: nat) < 128) s"

definition json_ok :: "('fs, 'j) world \<Rightarrow> (string \<Rightarrow> bool) \<Rightarrow> ('j \<Rightarrow> bool) \<Rightarrow> bool" where
  "json_ok E utf8 clean \<longleftrightarrow>
     clean (json_empty E) \<and>
     (\<forall>j k s. clean j \<and> utf8 s \<longrightarrow> clean (json_put_string E j k s)) \<and>
     (\<forall>j k v. clean j \<and> clean v \<longrightarrow> clean (json_put E j k v)) \<and>
     (\<forall>s j. json_parse E s = Some j \<longrightarrow> clean j) \<and>
     (\<forall>j k s. clean j \<and> json_get_string E j k = Some s \<longrightarrow> utf8 s) \<and>
     (\<forall>s. ascii s \<longrightarrow> utf8 s) \<and>
     (\<forall>j. clean j \<longrightarrow> (\<exists>s. json_dump E j = Some s \<and> json_parse E s = Some j))"

definition boost_strings :: "('fs, 'j) world \<Rightarrow> bool" where
  "boost_strings E \<longleftrightarrow>
     (\<forall>s ds. str_split E s ds = mem_split s ds) \<and> (\<forall>ws sep. str_join E ws sep = mem_join ws sep)"

section \<open>The abstract store\<close>

datatype tg_op = Save string string | Fetch string | Forget string | History

datatype 'j tg_reply = Saved string | Found string 'j | Gone string | Titles "string set" | Absent

definition service :: "('fs, 'j) world \<Rightarrow> string \<Rightarrow> string \<Rightarrow> string option" where
  "service E key p =
     (case curl_api E key p of None \<Rightarrow> None | Some raw \<Rightarrow> parse_raw_output E raw)"

definition new_entry :: "('fs, 'j) world \<Rightarrow> string \<Rightarrow> string \<Rightarrow> string \<Rightarrow> 'j" where
  "new_entry E key t p = entry_json E (the (service E key p)) p t"

text \<open>
  The entries of a client are \<open>None\<close> until it saves the first: a history is not found then,
  but is empty when the last entry is deleted.
\<close>

type_synonym 'j folder = "(string \<Rightarrow> 'j option) option"

definition held :: "'j folder \<Rightarrow> string \<Rightarrow> 'j option" where
  "held s = (case s of None \<Rightarrow> (\<lambda>_. None) | Some m \<Rightarrow> m)"

fun tg_spec ::
    "('fs, 'j) world \<Rightarrow> string \<Rightarrow> 'j folder \<Rightarrow> tg_op \<Rightarrow> 'j tg_reply \<times> 'j folder" where
  "tg_spec E key s (Save t p) = (Saved (the (service E key p)), Some ((held s)(t \<mapsto> new_entry E key t p)))"
| "tg_spec E key s (Fetch t) = (case held s t of None \<Rightarrow> (Absent, s) | Some j \<Rightarrow> (Found t j, s))"
| "tg_spec E key s (Forget t) =
     (case held s t of None \<Rightarrow> (Absent, s) | Some _ \<Rightarrow> (Gone t, Some ((held s)(t := None))))"
| "tg_spec E key s History = (case s of None \<Rightarrow> (Absent, s) | Some m \<Rightarrow> (Titles (dom m), s))"

section \<open>Requests and answers\<close>

definition title_ok :: "string \<Rightarrow> bool" where
  "title_ok t \<longleftrightarrow> check_title_validity t \<and> t \<noteq> ''.'' \<and> t \<noteq> ''..''"

text \<open>A save counts when the service answers the prompt and the entry is not too long for a file.\<close>

fun tg_ok :: "('fs, 'j) world \<Rightarrow> string \<Rightarrow> tg_op \<Rightarrow> bool" where
  "tg_ok E key (Save t p) \<longleftrightarrow>
     title_ok t \<and> check_prompts_validity p \<and> service E key p \<noteq> None \<and>
     (case json_dump E (new_entry E key t p) of None \<Rightarrow> True | Some b \<Rightarrow> int (length b) < max_file)"
| "tg_ok E key (Fetch t) \<longleftrightarrow> title_ok t"
| "tg_ok E key (Forget t) \<longleftrightarrow> title_ok t"
| "tg_ok E key History \<longleftrightarrow> True"

definition form_text :: "string \<Rightarrow> string \<Rightarrow> string" where
  "form_text t p = ''title='' @ t @ ''&prompt='' @ p"

definition title_url :: "handler \<Rightarrow> string \<Rightarrow> string" where
  "title_url h t = write_space (prefix h @ ''/'' @ t)"

fun tg_request :: "handler \<Rightarrow> tg_op \<Rightarrow> request" where
  "tg_request h (Save t p) =
     \<lparr>req_method = Verb_post, req_target = prefix h, req_body = form_text t p, req_fields = []\<rparr>"
| "tg_request h (Fetch t) =
     \<lparr>req_method = Verb_get, req_target = title_url h t, req_body = [], req_fields = []\<rparr>"
| "tg_request h (Forget t) =
     \<lparr>req_method = Verb_delete, req_target = title_url h t, req_body = [], req_fields = []\<rparr>"
| "tg_request h History =
     \<lparr>req_method = Verb_get, req_target = prefix h @ ''/history?'', req_body = [], req_fields = []\<rparr>"

abbreviation client_name :: "handler \<Rightarrow> string" where
  "client_name h \<equiv> dot2underscore (client_ip h)"

definition titles_json :: "('fs, 'j) world \<Rightarrow> handler \<Rightarrow> string list \<Rightarrow> 'j" where
  "titles_json E h ts =
     json_put_string E (json_put_string E (json_empty E) ''title list'' (''['' @ mem_join ts '','' @ '']''))
       ''IP'' (client_name h)"

text \<open>A history lists each title once, in an order the directory iterator chooses.\<close>

fun tg_shows :: "('fs, 'j) world \<Rightarrow> handler \<Rightarrow> 'j tg_reply \<Rightarrow> response \<Rightarrow> bool" where
  "tg_shows E h (Saved out) r \<longleftrightarrow> status_of r = Some St_ok \<and> body_of r = out"
| "tg_shows E h (Found t j) r \<longleftrightarrow>
     status_of r = Some St_ok \<and>
     json_dump E (answer_json E h ''readed'' t (json_put E (json_empty E) ''content'' j)) = Some (body_of r)"
| "tg_shows E h (Gone t) r \<longleftrightarrow>
     status_of r = Some St_ok \<and> json_dump E (answer_json E h ''removed'' t (json_empty E)) = Some (body_of r)"
| "tg_shows E h (Titles D) r \<longleftrightarrow>
     status_of r = Some St_ok \<and>
     (\<exists>ts. distinct ts \<and> set ts = D \<and> json_dump E (titles_json E h ts) = Some (body_of r))"
| "tg_shows E h Absent r \<longleftrightarrow> status_of r = Some St_not_found \<and> body_of r = not_found_msg"

definition tg_answer_ok ::
    "('fs, 'j) world \<Rightarrow> handler \<Rightarrow> 'j tg_reply \<Rightarrow> bool outcome \<times> response \<Rightarrow> bool" where
  "tg_answer_ok E h p a \<longleftrightarrow> fst a = Inr (p \<noteq> Absent) \<and> tg_shows E h p (snd a)"

definition tg_step ::
    "('fs, 'j) world \<Rightarrow> handler \<Rightarrow> string \<Rightarrow> 'fs \<Rightarrow> tg_op \<Rightarrow> (bool outcome \<times> response) \<times> 'fs" where
  "tg_step E h key fs x =
     (case text_gen_handle E h key fs (tg_request h x) (set_field allow_origin_field ''*'' []) of
        (b, r, fs') \<Rightarrow> ((b, r), fs'))"

section \<open>The invariant\<close>

definition entry_ok :: "('fs, 'j) world \<Rightarrow> ('j \<Rightarrow> bool) \<Rightarrow> node option \<Rightarrow> bool" where
  "entry_ok E clean v \<longleftrightarrow>
     v = None \<or> (\<exists>b j. v = Some (FileNode b) \<and> clean j \<and> json_dump E j = Some b \<and> json_parse E b = Some j)"

definition setting_ok :: "('fs, 'j) world \<Rightarrow> (string \<Rightarrow> bool) \<Rightarrow> ('j \<Rightarrow> bool) \<Rightarrow> handler \<Rightarrow> bool" where
  "setting_ok E utf8 clean h \<longleftrightarrow>
     posix_files E (dir h) \<and> list_works E (dir h) \<and> json_ok E utf8 clean \<and> boost_strings E \<and>
     valid_name (client_name h) \<and> ascii (client_name h) \<and> CHR ''%'' \<notin> set (prefix h)"

definition tg_inv :: "('fs, 'j) world \<Rightarrow> (string \<Rightarrow> bool) \<Rightarrow> ('j \<Rightarrow> bool) \<Rightarrow> handler \<Rightarrow> 'fs \<Rightarrow> bool" where
  "tg_inv E utf8 clean h fs \<longleftrightarrow>
     setting_ok E utf8 clean h \<and>
     node_at E fs (dir h) = Some DirNode \<and>
     (node_at E fs (path_of (dir h) [client_name h]) = Some DirNode \<or>
      node_at E fs (path_of (dir h) [client_name h]) = None \<and>
      (\<forall>t. title_ok t \<longrightarrow> node_at E fs (path_of (dir h) [client_name h, t]) = None)) \<and>
     (\<forall>t. title_ok t \<longrightarrow> entry_ok E clean (node_at E fs (path_of (dir h) [client_name h, t]))) \<and>
     finite (names_in E fs (path_of (dir h) [client_name h])) \<and>
     (\<forall>n \<in> names_in E fs (path_of (dir h) [client_name h]). title_ok n)"

definition tg_store :: "('fs, 'j) world \<Rightarrow> handler \<Rightarrow> 'fs \<Rightarrow> string \<Rightarrow> 'j option" where
  "tg_store E h fs t =
     (if title_ok t then
        (case content_at E fs (path_of (dir h) [client_name h, t]) of
           None \<Rightarrow> None | Some b \<Rightarrow> json_parse E b)
      else None)"

definition tg_folder :: "('fs, 'j) world \<Rightarrow> handler \<Rightarrow> 'fs \<Rightarrow> 'j folder" where
  "tg_folder E h fs =
     (if node_at E fs (path_of (dir h) [client_name h]) = Some DirNode then Some (tg_store E h fs) else None)"

section \<open>Facts on requests\<close>

lemma mem_split_notin: "d \<notin> set s \<Longrightarrow> mem_split s [d] = [s]"
  by (induction s) auto

lemma mem_split_append: "d \<notin> set s \<Longrightarrow> mem_split (s @ d # r) [d] = s # mem_split r [d]"
  by (induction s) auto

lemma title_ok_name: "title_ok t \<Longrightarrow> valid_name t"
  by (simp add: title_ok_def valid_title_name)

lemma form_char:
  "prompt_char c \<or> title_char c \<Longrightarrow> c \<noteq> CHR ''&'' \<and> c \<noteq> CHR ''='' \<and> (of_char c :: nat) < 128"
  by (auto simp: prompt_char_def title_char_def is_letter_def is_digit_def)

lemma prompt_chars:
  assumes "check_prompts_validity p"
  shows "CHR ''&'' \<notin> set p" and "CHR ''='' \<notin> set p" and "ascii p"
  using assms form_char
  by (auto simp: check_prompts_validity_def list_all_iff ascii_def split: if_splits)

lemma title_form_chars:
  assumes "check_title_validity t"
  shows "CHR ''&'' \<notin> set t" and "CHR ''='' \<notin> set t" and "ascii t"
  using assms form_char
  by (auto simp: check_title_validity_def list_all_iff ascii_def split: if_splits)

lemma form_pairs_form_text:
  assumes "boost_strings E" and "check_title_validity t" and "check_prompts_validity p"
  shows "form_pairs E (form_text t p) = [(''title'', t), (''prompt'', p)]"
proof -
  note t = title_form_chars [OF assms(2)] and p = prompt_chars [OF assms(3)]
  have "mem_split (form_text t p) ''&'' = [''title='' @ t, ''prompt='' @ p]"
    using t p mem_split_append [of "CHR ''&''" "''title='' @ t" "''prompt='' @ p"]
    by (simp add: form_text_def mem_split_notin)
  moreover have "mem_split (''title='' @ t) ''='' = [''title'', t]"
    using t mem_split_append [of "CHR ''=''" "''title''" t] by (simp add: mem_split_notin)
  moreover have "mem_split (''prompt='' @ p) ''='' = [''prompt'', p]"
    using p mem_split_append [of "CHR ''=''" "''prompt''" p] by (simp add: mem_split_notin)
  ultimately show ?thesis using assms(1) by (simp add: form_pairs_def boost_strings_def)
qed

lemma title_target_ok:
  assumes "CHR ''%'' \<notin> set (prefix h)" and "title_ok t"
  shows "check_request_url h (replace_space (title_url h t)) g = Some t"
proof -
  note t = title_chars [of t]
  have ok: "check_title_validity t" using assms(2) by (simp add: title_ok_def)
  have "last t \<noteq> CHR ''/''" using t(1,3) [OF ok] by (metis last_in_set)
  then show ?thesis using title_target [OF assms(1) t(1) [OF ok] t(4) [OF ok]] by (simp add: title_url_def)
qed

section \<open>Facts on JSON values\<close>

lemma json_okD:
  assumes "json_ok E utf8 clean"
  shows "clean (json_empty E)"
    and "clean j \<Longrightarrow> utf8 s \<Longrightarrow> clean (json_put_string E j k s)"
    and "clean j \<Longrightarrow> clean v \<Longrightarrow> clean (json_put E j k v)"
    and "json_parse E s = Some j \<Longrightarrow> clean j"
    and "clean j \<Longrightarrow> json_get_string E j k = Some s \<Longrightarrow> utf8 s"
    and "ascii s \<Longrightarrow> utf8 s"
    and "clean j \<Longrightarrow> \<exists>s. json_dump E j = Some s \<and> json_parse E s = Some j"
  using assms unfolding json_ok_def by blast+

lemma clean_answer_json:
  assumes "json_ok E utf8 clean" and "clean j" and "ascii st" and "ascii t" and "ascii (client_name h)"
  shows "clean (answer_json E h st t j)"
  using assms by (simp add: answer_json_def json_okD [OF assms(1)])

lemma service_utf8:
  "json_ok E utf8 clean \<Longrightarrow> service E key p = Some out \<Longrightarrow> utf8 out"
  by (auto simp: service_def parse_raw_output_def split: option.splits dest: json_okD(4,5))

lemma clean_new_entry:
  assumes "json_ok E utf8 clean" and "tg_ok E key (Save t p)"
  shows "clean (new_entry E key t p)"
proof -
  obtain out where "service E key p = Some out" using assms(2) by auto
  moreover have "ascii t" "ascii p"
    using assms(2) title_form_chars prompt_chars by (auto simp: title_ok_def)
  ultimately show ?thesis using service_utf8 [OF assms(1)]
    by (simp add: new_entry_def entry_json_def json_okD [OF assms(1)])
qed

lemma json_answer_clean:
  assumes "json_ok E utf8 clean" and "clean (answer_json E h st t j)"
  shows "\<exists>b. json_dump E (answer_json E h st t j) = Some b \<and>
    (\<forall>r fs. json_answer E h st t j r fs =
      (Inr True, prepare_payload (set_field content_type_field ''application/json'' (set_body b r)), fs))"
  using json_okD(7) [OF assms] by (auto simp: json_answer_def)

section \<open>Each request is answered as the store answers it\<close>

lemma tg_invD:
  assumes "tg_inv E utf8 clean h fs"
  shows "posix_files E (dir h)" and "json_ok E utf8 clean" and "boost_strings E"
    and "valid_name (client_name h)" and "ascii (client_name h)" and "CHR ''%'' \<notin> set (prefix h)"
    and "node_at E fs (path_of (dir h) []) = Some DirNode"
    and "title_ok t \<Longrightarrow> entry_ok E clean (node_at E fs (path_of (dir h) [client_name h, t]))"
    and "list_works E (dir h)"
    and "finite (names_in E fs (path_of (dir h) [client_name h]))"
    and "n \<in> names_in E fs (path_of (dir h) [client_name h]) \<Longrightarrow> title_ok n"
  using assms by (simp_all add: tg_inv_def setting_ok_def)

lemma names_in_node: "n \<in> names_in E fs (path_of base [u]) \<longleftrightarrow> valid_name n \<and> node_at E fs (path_of base [u, n]) \<noteq> None"
  by (simp add: names_in_def node_at_None path_of_one path_of_two)

lemma held_folder: "tg_inv E utf8 clean h fs \<Longrightarrow> held (tg_folder E h fs) = tg_store E h fs"
  by (auto simp: tg_inv_def tg_folder_def held_def tg_store_def)

lemma client_folder_path: "client_folder h = path_of (dir h) [client_name h]"
  by (simp add: client_folder_def path_of_one)

lemma title_path: "path_of (dir h) [client_name h] @ CHR ''/'' # t = path_of (dir h) [client_name h, t]"
  by (simp add: path_of_one path_of_two)

text \<open>A change of one entry keeps the invariant, and changes the store at that title.\<close>

lemma tg_entry_change:
  assumes inv: "tg_inv E utf8 clean h fs" and t: "title_ok t"
    and dirs: "node_at E fs' (path_of (dir h) [client_name h]) = Some DirNode"
    and here: "node_at E fs' (path_of (dir h) [client_name h, t]) = v" "entry_ok E clean v"
    and other: "\<And>ns. valid_path ns \<Longrightarrow> ns \<noteq> [client_name h] \<Longrightarrow> ns \<noteq> [client_name h, t] \<Longrightarrow>
      node_at E fs' (path_of (dir h) ns) = node_at E fs (path_of (dir h) ns)"
  shows "tg_inv E utf8 clean h fs'"
    and "tg_folder E h fs' =
      Some ((tg_store E h fs)(t := (case v of Some (FileNode b) \<Rightarrow> json_parse E b | _ \<Rightarrow> None)))"
proof -
  note u = tg_invD(4) [OF inv]
  have same: "node_at E fs' (path_of (dir h) [client_name h, n]) = node_at E fs (path_of (dir h) [client_name h, n])"
    if "valid_name n" "n \<noteq> t" for n
    using other [of "[client_name h, n]"] u that by simp
  have "entry_ok E clean (node_at E fs' (path_of (dir h) [client_name h, t']))" if "title_ok t'" for t'
    using same [OF title_ok_name [OF that]] here tg_invD(8) [OF inv that] by (cases "t' = t") simp_all
  moreover have "node_at E fs' (dir h) = Some DirNode" using other [of "[]"] tg_invD(7) [OF inv] by simp
  moreover have names: "names_in E fs' (path_of (dir h) [client_name h]) \<subseteq>
      insert t (names_in E fs (path_of (dir h) [client_name h]))"
    using same by (fastforce simp: names_in_node)
  moreover have "\<forall>n \<in> names_in E fs' (path_of (dir h) [client_name h]). title_ok n"
    using names t tg_invD(11) [OF inv] by blast
  moreover have "finite (names_in E fs' (path_of (dir h) [client_name h]))"
    using finite_subset [OF names] tg_invD(10) [OF inv] by simp
  ultimately show "tg_inv E utf8 clean h fs'" using inv dirs by (simp add: tg_inv_def)
  have "tg_store E h fs' = (tg_store E h fs)(t := (case v of Some (FileNode b) \<Rightarrow> json_parse E b | _ \<Rightarrow> None))"
  proof
    fix t'
    show "tg_store E h fs' t' =
        ((tg_store E h fs)(t := (case v of Some (FileNode b) \<Rightarrow> json_parse E b | _ \<Rightarrow> None))) t'"
      using same [OF title_ok_name, of t'] here t
      by (cases "t' = t") (auto simp: tg_store_def content_at_def split: option.splits node.splits)
  qed
  then show "tg_folder E h fs' =
      Some ((tg_store E h fs)(t := (case v of Some (FileNode b) \<Rightarrow> json_parse E b | _ \<Rightarrow> None)))"
    using dirs by (simp add: tg_folder_def)
qed

lemma save_entry_spec:
  assumes inv: "tg_inv E utf8 clean h fs" and ok: "tg_ok E key (Save t p)"
  shows "\<exists>fs2 b. save_entry E h (the (service E key p)) p t fs = (Inr True, fs2) \<and>
    json_dump E (new_entry E key t p) = Some b \<and>
    node_at E fs2 (path_of (dir h) [client_name h]) = Some DirNode \<and>
    node_at E fs2 (path_of (dir h) [client_name h, t]) = Some (FileNode b) \<and>
    (\<forall>ns. valid_path ns \<and> ns \<noteq> [client_name h] \<and> ns \<noteq> [client_name h, t] \<longrightarrow>
       node_at E fs2 (path_of (dir h) ns) = node_at E fs (path_of (dir h) ns))"
proof -
  note u = tg_invD(4) [OF inv]
  have t: "title_ok t" "valid_name t" using ok title_ok_name by auto
  obtain b where b: "json_dump E (new_entry E key t p) = Some b"
    using json_okD(7) [OF tg_invD(2) [OF inv] clean_new_entry [OF tg_invD(2) [OF inv] ok]] by blast
  have len: "int (length b) < max_file" using ok b by simp
  have "\<exists>fs1. create_dir E (path_of (dir h) [client_name h]) fs = (True, fs1) \<and>
      node_at E fs1 (path_of (dir h) [client_name h]) = Some DirNode \<and>
      (\<forall>ns. valid_path ns \<and> ns \<noteq> [client_name h] \<longrightarrow>
         node_at E fs1 (path_of (dir h) ns) = node_at E fs (path_of (dir h) ns))"
  proof (cases "node_at E fs (path_of (dir h) [client_name h])")
    case None
    then have "node_at E fs (path_of (dir h) ([] @ [client_name h])) = None" by simp
    from create_dir_new [OF tg_invD(1) [OF inv] _ u _ this] tg_invD(7) [OF inv]
    obtain fs1 where "create_dir E (path_of (dir h) [client_name h]) fs = (True, fs1)"
        "updated E (dir h) fs [client_name h] (Some DirNode) fs1" by auto
    then show ?thesis using u by (auto simp: updatedD)
  next
    case (Some v)
    then have "node_at E fs (path_of (dir h) [client_name h]) = Some DirNode"
      using inv by (auto simp: tg_inv_def)
    then show ?thesis by (simp add: create_dir_there)
  qed
  then obtain fs1 where fs1: "create_dir E (path_of (dir h) [client_name h]) fs = (True, fs1)"
      "node_at E fs1 (path_of (dir h) [client_name h]) = Some DirNode"
      "\<And>ns. valid_path ns \<Longrightarrow> ns \<noteq> [client_name h] \<Longrightarrow>
         node_at E fs1 (path_of (dir h) ns) = node_at E fs (path_of (dir h) ns)" by blast
  have "node_at E fs1 (path_of (dir h) ([client_name h] @ [t])) = None \<or>
      (\<exists>c. node_at E fs1 (path_of (dir h) ([client_name h] @ [t])) = Some (FileNode c))"
    using tg_invD(8) [OF inv t(1)] fs1(3) [of "[client_name h, t]"] u t(2) by (auto simp: entry_ok_def)
  then obtain fs2 where w: "write_to_file E (path_of (dir h) [client_name h, t]) b fs1 = (True, fs2)"
      and up: "updated E (dir h) fs1 [client_name h, t] (Some (FileNode b)) fs2"
    using write_to_file_spec [OF tg_invD(1) [OF inv], of "[client_name h]" t fs1 _ b] u t(2) fs1(2) len by auto
  have "save_entry E h (the (service E key p)) p t fs = (Inr True, fs2)"
    using fs1(1) b w by (simp add: save_entry_def client_folder_path title_path new_entry_def)
  then show ?thesis using b fs1(2,3) updatedD [OF up] u t(2) by auto
qed

lemma tg_step_Save:
  assumes inv: "tg_inv E utf8 clean h fs" and ok: "tg_ok E key (Save t p)"
  shows "tg_inv E utf8 clean h (snd (tg_step E h key fs (Save t p)))"
    and "tg_folder E h (snd (tg_step E h key fs (Save t p))) = snd (tg_spec E key (tg_folder E h fs) (Save t p))"
    and "tg_answer_ok E h (fst (tg_spec E key (tg_folder E h fs) (Save t p))) (fst (tg_step E h key fs (Save t p)))"
proof -
  have t: "title_ok t" "check_title_validity t" "check_prompts_validity p"
    using ok by (simp_all add: title_ok_def)
  obtain out where out: "service E key p = Some out" using ok by auto
  then obtain raw where raw: "curl_api E key p = Some raw" "parse_raw_output E raw = Some out"
    by (auto simp: service_def split: option.splits)
  obtain m where m: "parse_post_body E (form_text t p) = Some m"
      "map_find m ''title'' = Some t" "map_find m ''prompt'' = Some p"
    using parse_post_bodyI [of E "form_text t p" t p] form_pairs_form_text [OF tg_invD(3) [OF inv] t(2,3)]
    by auto
  obtain fs2 b where save: "save_entry E h out p t fs = (Inr True, fs2)"
      and b: "json_dump E (new_entry E key t p) = Some b"
      and node: "node_at E fs2 (path_of (dir h) [client_name h]) = Some DirNode"
        "node_at E fs2 (path_of (dir h) [client_name h, t]) = Some (FileNode b)"
        "\<And>ns. valid_path ns \<Longrightarrow> ns \<noteq> [client_name h] \<Longrightarrow> ns \<noteq> [client_name h, t] \<Longrightarrow>
           node_at E fs2 (path_of (dir h) ns) = node_at E fs (path_of (dir h) ns)"
    using save_entry_spec [OF inv ok] out by auto
  have step: "tg_step E h key fs (Save t p) = ((Inr True,
      prepare_payload (set_field content_type_field ''text/plain''
        (set_body out (result St_ok (set_field allow_origin_field ''*'' []))))), fs2)"
    using m t save raw by (simp add: tg_step_def text_gen_handle_def tg_post_def Let_def)
  have "clean (new_entry E key t p)" by (rule clean_new_entry [OF tg_invD(2) [OF inv] ok])
  then have parse: "json_parse E b = Some (new_entry E key t p)"
    using json_okD(7) [OF tg_invD(2) [OF inv]] b by fastforce
  then have "entry_ok E clean (Some (FileNode b))"
    using b \<open>clean (new_entry E key t p)\<close> by (auto simp: entry_ok_def)
  note change = tg_entry_change [OF inv t(1) node(1,2) this node(3)]
  show "tg_inv E utf8 clean h (snd (tg_step E h key fs (Save t p)))" using change(1) by (simp add: step)
  show "tg_folder E h (snd (tg_step E h key fs (Save t p))) = snd (tg_spec E key (tg_folder E h fs) (Save t p))"
    using change(2) parse by (simp add: step held_folder [OF inv])
  show "tg_answer_ok E h (fst (tg_spec E key (tg_folder E h fs) (Save t p))) (fst (tg_step E h key fs (Save t p)))"
    by (simp add: step tg_answer_ok_def out)
qed

lemma tg_store_cases:
  assumes inv: "tg_inv E utf8 clean h fs" and t: "title_ok t"
  obtains (none) "node_at E fs (path_of (dir h) [client_name h, t]) = None" "tg_store E h fs t = None"
    | (entry) b j where "node_at E fs (path_of (dir h) [client_name h]) = Some DirNode"
        "node_at E fs (path_of (dir h) [client_name h, t]) = Some (FileNode b)"
        "tg_store E h fs t = Some j" "clean j" "json_parse E b = Some j"
proof (cases "node_at E fs (path_of (dir h) [client_name h, t])")
  case None
  then show ?thesis using that(1) by (simp add: tg_store_def)
next
  case (Some v)
  then obtain b j where b: "v = FileNode b" "clean j" "json_parse E b = Some j"
    using tg_invD(8) [OF inv t] by (auto simp: entry_ok_def)
  have "node_at E fs (path_of (dir h) [client_name h]) = Some DirNode"
    using inv Some t by (auto simp: tg_inv_def)
  then show ?thesis using that(2) Some b t by (simp add: tg_store_def)
qed

lemma title_file_there:
  assumes "node_at E fs (path_of (dir h) [client_name h]) = Some DirNode"
    and "node_at E fs (path_of (dir h) [client_name h, t]) = Some (FileNode b)"
  shows "fs_exists E fs (path_of (dir h) [client_name h])" "fs_is_directory E fs (path_of (dir h) [client_name h])"
    "fs_is_regular E fs (path_of (dir h) [client_name h, t])"
  using assms by (simp_all add: node_at_DirNode node_at_FileNode)

lemma title_file_absent:
  "posix_files E (dir h) \<Longrightarrow> node_at E fs (path_of (dir h) [client_name h, t]) = None \<Longrightarrow>
     get_title_file E h (path_of (dir h) [client_name h]) t rm fs r = (Inr False, tg_not_found r, fs)"
proof -
  assume "posix_files E (dir h)" "node_at E fs (path_of (dir h) [client_name h, t]) = None"
  then have "\<not> fs_is_regular E fs (path_of (dir h) [client_name h, t])"
    by (auto simp: node_at_None posix_files_def)
  then show ?thesis by (simp add: get_title_file_def title_path Let_def)
qed

lemma not_found_answer: "status_of (tg_not_found r) = Some St_not_found" "body_of (tg_not_found r) = not_found_msg"
  by (simp_all add: tg_not_found_def)

lemma tg_step_target:
  assumes "CHR ''%'' \<notin> set (prefix h)" and "title_ok t"
  shows "tg_step E h key fs (Fetch t) =
      (case get_title_file E h (path_of (dir h) [client_name h]) t False fs (set_field allow_origin_field ''*'' [])
       of (b, r, fs') \<Rightarrow> ((b, r), fs'))"
    and "tg_step E h key fs (Forget t) =
      (case get_title_file E h (path_of (dir h) [client_name h]) t True fs (set_field allow_origin_field ''*'' [])
       of (b, r, fs') \<Rightarrow> ((b, r), fs'))"
proof -
  have "t \<noteq> []" "t \<noteq> ''history?''" using assms(2) title_chars [of t] by (auto simp: title_ok_def)
  then show "tg_step E h key fs (Fetch t) =
      (case get_title_file E h (path_of (dir h) [client_name h]) t False fs (set_field allow_origin_field ''*'' [])
       of (b, r, fs') \<Rightarrow> ((b, r), fs'))"
    and "tg_step E h key fs (Forget t) =
      (case get_title_file E h (path_of (dir h) [client_name h]) t True fs (set_field allow_origin_field ''*'' [])
       of (b, r, fs') \<Rightarrow> ((b, r), fs'))"
    by (simp_all add: tg_step_def text_gen_handle_def tg_get_def tg_delete_def
        title_target_ok [OF assms] client_folder_path)
qed

lemma tg_step_Fetch:
  assumes inv: "tg_inv E utf8 clean h fs" and t: "title_ok t"
  shows "snd (tg_step E h key fs (Fetch t)) = fs"
    and "tg_answer_ok E h (fst (tg_spec E key (tg_folder E h fs) (Fetch t))) (fst (tg_step E h key fs (Fetch t)))"
proof -
  note step = tg_step_target(1) [OF tg_invD(6) [OF inv] t]
  have asc: "ascii t" "ascii ''readed''" using t title_form_chars(3) by (simp_all add: title_ok_def ascii_def)
  have "snd (tg_step E h key fs (Fetch t)) = fs \<and>
      tg_answer_ok E h (fst (tg_spec E key (tg_folder E h fs) (Fetch t))) (fst (tg_step E h key fs (Fetch t)))"
  proof (cases rule: tg_store_cases [OF inv t])
    case 1
    then show ?thesis
      by (simp add: step title_file_absent [OF tg_invD(1) [OF inv]] tg_answer_ok_def not_found_answer
          held_folder [OF inv])
  next
    case (2 b j)
    let ?j = "json_put E (json_empty E) ''content'' j"
    have "clean ?j" by (rule json_okD(3) [OF tg_invD(2) [OF inv] json_okD(1) [OF tg_invD(2) [OF inv]] 2(4)])
    then have "clean (answer_json E h ''readed'' t ?j)"
      by (rule clean_answer_json [OF tg_invD(2) [OF inv] _ asc(2,1) tg_invD(5) [OF inv]])
    from json_answer_clean [OF tg_invD(2) [OF inv] this] obtain body where
      body: "json_dump E (answer_json E h ''readed'' t ?j) = Some body"
        "\<And>r fs. json_answer E h ''readed'' t ?j r fs = (Inr True,
           prepare_payload (set_field content_type_field ''application/json'' (set_body body r)), fs)"
      by blast
    then show ?thesis using 2 title_file_there [OF 2(1,2)] read_from_file_FileNode [OF 2(2)]
      by (simp add: step get_title_file_def title_path tg_answer_ok_def held_folder [OF inv])
  qed
  then show "snd (tg_step E h key fs (Fetch t)) = fs"
    "tg_answer_ok E h (fst (tg_spec E key (tg_folder E h fs) (Fetch t))) (fst (tg_step E h key fs (Fetch t)))"
    by simp_all
qed

lemma tg_step_Forget:
  assumes inv: "tg_inv E utf8 clean h fs" and t: "title_ok t"
  shows "tg_inv E utf8 clean h (snd (tg_step E h key fs (Forget t)))"
    and "tg_folder E h (snd (tg_step E h key fs (Forget t))) = snd (tg_spec E key (tg_folder E h fs) (Forget t))"
    and "tg_answer_ok E h (fst (tg_spec E key (tg_folder E h fs) (Forget t))) (fst (tg_step E h key fs (Forget t)))"
proof -
  note step = tg_step_target(2) [OF tg_invD(6) [OF inv] t]
  note names = tg_invD(4) [OF inv] title_ok_name [OF t]
  have asc: "ascii t" "ascii ''removed''" using t title_form_chars(3) by (simp_all add: title_ok_def ascii_def)
  have "tg_inv E utf8 clean h (snd (tg_step E h key fs (Forget t))) \<and>
      tg_folder E h (snd (tg_step E h key fs (Forget t))) = snd (tg_spec E key (tg_folder E h fs) (Forget t)) \<and>
      tg_answer_ok E h (fst (tg_spec E key (tg_folder E h fs) (Forget t))) (fst (tg_step E h key fs (Forget t)))"
  proof (cases rule: tg_store_cases [OF inv t])
    case 1
    then show ?thesis using inv
      by (simp add: step title_file_absent [OF tg_invD(1) [OF inv]] tg_answer_ok_def not_found_answer
          held_folder [OF inv])
  next
    case (2 b j)
    from remove_spec [OF tg_invD(1) [OF inv], of "[client_name h]" t fs b] names 2(2)
    obtain fs1 where rm: "fs_remove E fs (path_of (dir h) [client_name h, t]) = Some fs1"
        "updated E (dir h) fs [client_name h, t] None fs1" by auto
    have "clean (answer_json E h ''removed'' t (json_empty E))"
      by (rule clean_answer_json [OF tg_invD(2) [OF inv] json_okD(1) [OF tg_invD(2) [OF inv]] asc(2,1)
            tg_invD(5) [OF inv]])
    from json_answer_clean [OF tg_invD(2) [OF inv] this] obtain body where
      body: "json_dump E (answer_json E h ''removed'' t (json_empty E)) = Some body"
        "\<And>r fs. json_answer E h ''removed'' t (json_empty E) r fs = (Inr True,
           prepare_payload (set_field content_type_field ''application/json'' (set_body body r)), fs)"
      by blast
    have fs1: "node_at E fs1 (path_of (dir h) [client_name h]) = Some DirNode"
      "node_at E fs1 (path_of (dir h) [client_name h, t]) = None"
      "\<And>ns. valid_path ns \<Longrightarrow> ns \<noteq> [client_name h] \<Longrightarrow> ns \<noteq> [client_name h, t] \<Longrightarrow>
         node_at E fs1 (path_of (dir h) ns) = node_at E fs (path_of (dir h) ns)"
      using updatedD [OF rm(2)] 2(1) names by simp_all
    have "entry_ok E clean None" by (simp add: entry_ok_def)
    note change = tg_entry_change [OF inv t fs1(1,2) this fs1(3)]
    show ?thesis using 2 title_file_there [OF 2(1,2)] rm(1) body change
      by (simp add: step get_title_file_def title_path tg_answer_ok_def held_folder [OF inv])
  qed
  then show "tg_inv E utf8 clean h (snd (tg_step E h key fs (Forget t)))"
    "tg_folder E h (snd (tg_step E h key fs (Forget t))) = snd (tg_spec E key (tg_folder E h fs) (Forget t))"
    "tg_answer_ok E h (fst (tg_spec E key (tg_folder E h fs) (Forget t))) (fst (tg_step E h key fs (Forget t)))"
    by simp_all
qed

text \<open>The history.\<close>

lemma ascii_join: "\<forall>w \<in> set ws. ascii w \<Longrightarrow> ascii sep \<Longrightarrow> ascii (mem_join ws sep)"
  by (induction ws sep rule: mem_join.induct) (simp_all add: ascii_def)

lemma listed_titles:
  assumes inv: "tg_inv E utf8 clean h fs" and dirs: "node_at E fs (path_of (dir h) [client_name h]) = Some DirNode"
  defines "ts \<equiv> map fst (filter snd (fs_list E fs (path_of (dir h) [client_name h])))"
  shows "distinct ts" and "set ts = dom (tg_store E h fs)" and "\<forall>t \<in> set ts. title_ok t"
proof -
  let ?p = "path_of (dir h) [client_name h]" and ?node = "\<lambda>n. node_at E fs (path_of (dir h) [client_name h, n])"
  have "valid_path [client_name h]" using tg_invD(4) [OF inv] by simp
  then have "distinct (map fst (fs_list E fs ?p)) \<and> set (fs_list E fs ?p) =
      (\<lambda>n. (n, fs_is_regular E fs (path_of (dir h) ([client_name h] @ [n])))) ` names_in E fs ?p"
    using tg_invD(9) [OF inv] dirs tg_invD(10) [OF inv] unfolding list_works_def by blast
  then have listed: "distinct (map fst (fs_list E fs ?p))"
      "set (fs_list E fs ?p) = (\<lambda>n. (n, fs_is_regular E fs (path_of (dir h) [client_name h, n]))) ` names_in E fs ?p"
    by simp_all
  show "distinct ts" unfolding ts_def by (rule distinct_map_filter [OF listed(1)])
  have names: "set ts = {n \<in> names_in E fs ?p. fs_is_regular E fs (path_of (dir h) [client_name h, n])}"
    unfolding ts_def set_map set_filter listed(2) by (auto intro: rev_image_eqI)
  then show titles: "\<forall>t \<in> set ts. title_ok t" using tg_invD(11) [OF inv] by auto
  have entry: "\<exists>b j. ?node n = Some (FileNode b) \<and> json_parse E b = Some j" if "n \<in> names_in E fs ?p" for n
    using tg_invD(8) [OF inv tg_invD(11) [OF inv that]] that by (auto simp: entry_ok_def names_in_node)
  show "set ts = dom (tg_store E h fs)"
  proof (intro set_eqI iffI)
    fix n assume n: "n \<in> set ts"
    then obtain b j where "?node n = Some (FileNode b)" "json_parse E b = Some j" using names entry by blast
    then show "n \<in> dom (tg_store E h fs)" using titles n by (simp add: tg_store_def domIff)
  next
    fix n assume "n \<in> dom (tg_store E h fs)"
    then obtain b where n: "title_ok n" "?node n = Some (FileNode b)"
      by (auto simp: tg_store_def content_at_def split: if_split_asm option.split_asm node.split_asm)
    have "n \<in> names_in E fs ?p" unfolding names_in_node using title_ok_name [OF n(1)] n(2) by simp
    moreover have "fs_is_regular E fs (path_of (dir h) [client_name h, n])" using n(2) by (simp add: node_at_FileNode)
    ultimately show "n \<in> set ts" by (simp add: names)
  qed
qed

lemma history_target:
  "CHR ''%'' \<notin> set (prefix h) \<Longrightarrow> check_request_url h (replace_space (prefix h @ ''/history?'')) True = Some ''history?''"
  using check_request_url_suffix [of "''history?''" h True] by (simp add: replace_space_id)

lemma tg_step_History:
  assumes inv: "tg_inv E utf8 clean h fs"
  shows "snd (tg_step E h key fs History) = fs"
    and "tg_answer_ok E h (fst (tg_spec E key (tg_folder E h fs) History)) (fst (tg_step E h key fs History))"
proof -
  let ?p = "path_of (dir h) [client_name h]" and ?r = "set_field allow_origin_field ''*'' []"
  have step: "tg_step E h key fs History =
      (case get_ip_file_list E h ?p fs ?r of (b, r, fs') \<Rightarrow> ((b, r), fs'))"
    by (simp add: tg_step_def text_gen_handle_def tg_get_def history_target [OF tg_invD(6) [OF inv]] client_folder_path
        del: path_of_def)
  have "snd (tg_step E h key fs History) = fs \<and>
      tg_answer_ok E h (fst (tg_spec E key (tg_folder E h fs) History)) (fst (tg_step E h key fs History))"
  proof (cases "node_at E fs ?p = Some DirNode")
    case False
    then have "\<not> (fs_exists E fs ?p \<and> fs_is_directory E fs ?p)" by (simp add: node_at_DirNode)
    then have "get_ip_file_list E h ?p fs ?r = (Inr False, tg_not_found ?r, fs)"
      unfolding get_ip_file_list_def by (rule if_not_P)
    then show ?thesis using False
      by (simp add: step tg_folder_def tg_answer_ok_def not_found_answer)
  next
    case True
    define ts where "ts = map fst (filter snd (fs_list E fs ?p))"
    note ts = listed_titles [OF inv True, folded ts_def]
    have "ascii (''['' @ mem_join ts '','' @ '']'')"
      using ascii_join [of ts "'',''"] ts(3) title_form_chars(3) by (simp add: ascii_def title_ok_def)
    then have "clean (titles_json E h ts)"
      using tg_invD(5) [OF inv] unfolding titles_json_def by (simp add: json_okD [OF tg_invD(2) [OF inv]])
    then obtain b where b: "json_dump E (titles_json E h ts) = Some b" using json_okD(7) [OF tg_invD(2) [OF inv]] by blast
    have "get_ip_file_list E h ?p fs ?r =
        (Inr True, prepare_payload (set_body b (set_field content_type_field ''application/json'' (result St_ok ?r))), fs)"
      using True b tg_invD(3) [OF inv]
      by (simp add: get_ip_file_list_def node_at_DirNode ts_def [symmetric] boost_strings_def titles_json_def)
    then show ?thesis using True b ts(1,2) by (auto simp: step tg_folder_def tg_answer_ok_def)
  qed
  then show "snd (tg_step E h key fs History) = fs"
    and "tg_answer_ok E h (fst (tg_spec E key (tg_folder E h fs) History)) (fst (tg_step E h key fs History))"
    by simp_all
qed

interpretation tg_store: refinement "tg_step E h key" "tg_inv E utf8 clean h" "tg_ok E key"
    "tg_spec E key" "tg_folder E h" "tg_answer_ok E h"
  for E h key utf8 clean
proof unfold_locales
  fix s x assume inv: "tg_inv E utf8 clean h s" and ok: "tg_ok E key x"
  have "tg_inv E utf8 clean h (snd (tg_step E h key s x)) \<and>
      tg_folder E h (snd (tg_step E h key s x)) = snd (tg_spec E key (tg_folder E h s) x) \<and>
      tg_answer_ok E h (fst (tg_spec E key (tg_folder E h s) x)) (fst (tg_step E h key s x))"
  proof (cases x)
    case (Save t p)
    then show ?thesis using tg_step_Save [OF inv, of key t p] ok by simp
  next
    case (Fetch t)
    then show ?thesis using tg_step_Fetch [OF inv, of t key] inv ok by (simp split: option.split)
  next
    case (Forget t)
    then show ?thesis using tg_step_Forget [OF inv, of t key] ok by simp
  next
    case History
    then show ?thesis using tg_step_History [OF inv, of key] inv by (simp split: option.split)
  qed
  then show "tg_inv E utf8 clean h (snd (tg_step E h key s x))"
    "tg_folder E h (snd (tg_step E h key s x)) = snd (tg_spec E key (tg_folder E h s) x)"
    "tg_answer_ok E h (fst (tg_spec E key (tg_folder E h s) x)) (fst (tg_step E h key s x))"
    by simp_all
qed

lemma tg_inv_init:
  assumes "setting_ok E utf8 clean h" and "node_at E fs (dir h) = Some DirNode"
    and "\<And>ns. valid_path ns \<Longrightarrow> ns \<noteq> [] \<Longrightarrow> node_at E fs (path_of (dir h) ns) = None"
  shows "tg_inv E utf8 clean h fs" and "tg_folder E h fs = None"
proof -
  have u: "valid_name (client_name h)" using assms(1) by (simp add: setting_ok_def)
  have none: "node_at E fs (path_of (dir h) [client_name h]) = None"
    "\<And>t. title_ok t \<Longrightarrow> node_at E fs (path_of (dir h) [client_name h, t]) = None"
    using assms(3) u title_ok_name by simp_all
  moreover have "names_in E fs (path_of (dir h) [client_name h]) = {}"
    using assms(3) u by (auto simp: names_in_node)
  ultimately show "tg_inv E utf8 clean h fs" using assms(1,2) by (simp add: tg_inv_def entry_ok_def)
  show "tg_folder E h fs = None" using none by (simp add: tg_folder_def)
qed

text \<open>Only the folder of the client changes.\<close>

lemma tg_step_elsewhere:
  assumes inv: "tg_inv E utf8 clean h fs" and ok: "tg_ok E key x"
    and ns: "valid_path ns" "ns \<noteq> [client_name h]" "\<And>t. ns \<noteq> [client_name h, t]"
  shows "node_at E (snd (tg_step E h key fs x)) (path_of (dir h) ns) = node_at E fs (path_of (dir h) ns)"
proof (cases x)
  case (Save t p)
  then have sv: "tg_ok E key (Save t p)" using ok by simp
  then have t: "title_ok t" "check_title_validity t" "check_prompts_validity p" by (simp_all add: title_ok_def)
  obtain raw out where raw: "service E key p = Some out" "curl_api E key p = Some raw" "parse_raw_output E raw = Some out"
    using sv by (auto simp: service_def split: option.splits)
  obtain m where m: "parse_post_body E (form_text t p) = Some m"
      "map_find m ''title'' = Some t" "map_find m ''prompt'' = Some p"
    using parse_post_bodyI [of E "form_text t p" t p] form_pairs_form_text [OF tg_invD(3) [OF inv] t(2,3)]
    by auto
  obtain fs2 where save: "save_entry E h out p t fs = (Inr True, fs2)"
      and same: "node_at E fs2 (path_of (dir h) ns) = node_at E fs (path_of (dir h) ns)"
    using save_entry_spec [OF inv sv] raw(1) ns by auto
  have "snd (tg_step E h key fs (Save t p)) = fs2"
    using m t save raw by (simp add: tg_step_def text_gen_handle_def tg_post_def Let_def)
  then show ?thesis using same Save by simp
next
  case (Fetch t)
  then show ?thesis using tg_step_Fetch(1) [OF inv] ok by simp
next
  case History
  then show ?thesis using tg_step_History(1) [OF inv] by simp
next
  case (Forget t)
  then have t: "title_ok t" using ok by simp
  show ?thesis
  proof (cases rule: tg_store_cases [OF inv t])
    case 1
    then show ?thesis using Forget
      by (simp add: tg_step_target(2) [OF tg_invD(6) [OF inv] t] title_file_absent [OF tg_invD(1) [OF inv]])
  next
    case (2 b j)
    from remove_spec [OF tg_invD(1) [OF inv], of "[client_name h]" t fs b] tg_invD(4) [OF inv] title_ok_name [OF t] 2(2)
    obtain fs1 where rm: "fs_remove E fs (path_of (dir h) [client_name h, t]) = Some fs1"
        "updated E (dir h) fs [client_name h, t] None fs1" by auto
    have "snd (tg_step E h key fs (Forget t)) = fs1"
      using title_file_there [OF 2(1,2)] rm(1)
      by (simp add: tg_step_target(2) [OF tg_invD(6) [OF inv] t] get_title_file_def title_path
          json_answer_def split: option.splits)
    then show ?thesis using Forget updatedD [OF rm(2) ns(1)] ns(3) by simp
  qed
qed

section \<open>Properties\<close>

text \<open>A concrete setting, for the witnesses.\<close>

definition tg_demo :: handler where
  "tg_demo = set_client_ip ''1.2.3.4'' (new_handler ''/text_gen'' ''d'')"

definition tg_files :: mem where
  "tg_files = [''d'' \<mapsto> DirNode]"

lemma tg_demo_sel [simp]: "dir tg_demo = ''d''" "prefix tg_demo = ''/text_gen''" "client_ip tg_demo = ''1.2.3.4''"
  by (simp_all add: tg_demo_def new_handler_def set_client_ip_def)

lemma json_ok_mem: "json_ok mem_world (\<lambda>_. True) (\<lambda>_. True)"
  by (simp add: json_ok_def mem_world_def)

lemma tg_demo_setting: "setting_ok mem_world (\<lambda>_. True) (\<lambda>_. True) tg_demo"
  by (simp add: setting_ok_def posix_mem_world list_mem_world json_ok_mem boost_strings_def dot2underscore_def valid_name_def ascii_def)
     (simp add: mem_world_def)

lemma tg_files_root: "node_at mem_world tg_files ''d'' = Some DirNode"
  by (simp add: tg_files_def)

lemma tg_files_below: "ns \<noteq> [] \<Longrightarrow> node_at mem_world tg_files (path_of ''d'' ns) = None"
  by (cases ns) (auto simp: tg_files_def path_of_def)

lemma tg_demo_inv: "tg_inv mem_world (\<lambda>_. True) (\<lambda>_. True) tg_demo tg_files"
  by (rule tg_inv_init(1) [OF tg_demo_setting]) (simp_all only: tg_demo_sel tg_files_root, rule tg_files_below)

lemma tg_demo_ok: "tg_ok mem_world k (Save ''a b'' ''hi'')" "tg_ok mem_world k (Fetch ''a b'')"
proof -
  have "title_ok ''a b''"
    by (simp add: title_ok_def check_title_validity_def title_max_len_def title_char_def is_letter_def)
  moreover have "check_prompts_validity ''hi''"
    by (simp add: check_prompts_validity_def text_prompt_max_len_def prompt_char_def is_letter_def)
  ultimately show "tg_ok mem_world k (Save ''a b'' ''hi'')" "tg_ok mem_world k (Fetch ''a b'')"
    by (simp_all add: mem_world_def service_def curl_api_pieces parse_raw_output_def new_entry_def entry_json_def max_file_def)
qed

text \<open>C34: the suffix of a DELETE is not checked: a target with \<open>..\<close> in it removes a file of
  another client's folder.\<close>

theorem text_gen_deletes_elsewhere:
  assumes "CHR ''%'' \<notin> set (prefix h @ other @ t)" and "t \<noteq> []" and "last t \<noteq> CHR ''/''"
    and "fs_exists E fs (client_folder h)" and "fs_is_directory E fs (client_folder h)"
    and "fs_is_regular E fs (client_folder h @ ''/../'' @ other @ ''/'' @ t)"
    and "fs_remove E fs (client_folder h @ ''/../'' @ other @ ''/'' @ t) = Some fs1"
    and "req_method req = Verb_delete" and "req_target req = prefix h @ ''/../'' @ other @ ''/'' @ t"
  shows "snd (snd (text_gen_handle E h key fs req r)) = fs1"
proof -
  have "replace_space (req_target req) = prefix h @ ''/'' @ (''../'' @ other @ ''/'' @ t)"
    using assms(1,9) by (simp add: replace_space_id)
  then have "check_request_url h (replace_space (req_target req)) False = Some (''../'' @ other @ ''/'' @ t)"
    using assms(2,3) check_request_url_suffix [of "''../'' @ other @ ''/'' @ t" h False] by simp
  then show ?thesis using assms(4-8)
    by (simp add: text_gen_handle_def tg_delete_def get_title_file_def json_answer_def split: option.split)
qed

lemma text_gen_deletes_elsewhere_witness:
  "snd (snd (text_gen_handle mem_world tg_demo ''k''
     (tg_files(''d/1_2_3_4'' \<mapsto> DirNode, ''d/1_2_3_4/../x/y'' \<mapsto> FileNode ''z''))
     \<lparr>req_method = Verb_delete, req_target = ''/text_gen/../x/y'', req_body = [], req_fields = []\<rparr> [])) =
   (tg_files(''d/1_2_3_4'' \<mapsto> DirNode, ''d/1_2_3_4/../x/y'' \<mapsto> FileNode ''z''))(''d/1_2_3_4/../x/y'' := None)"
  by (rule text_gen_deletes_elsewhere [where other = "''x''" and t = "''y''"])
     (simp_all add: client_folder_def dot2underscore_def mem_world_def is_file_node_def mem_remove_def)

text \<open>A file of the client that is not JSON makes a GET of its title end in an uncaught
  exception of the JSON parser.\<close>

theorem text_gen_get_uncaught:
  assumes "title_ok t" and "CHR ''%'' \<notin> set (prefix h)"
    and "node_at E fs (path_of (dir h) [dot2underscore (client_ip h)]) = Some DirNode"
    and "node_at E fs (path_of (dir h) [dot2underscore (client_ip h), t]) = Some (FileNode b)"
    and "json_parse E b = None"
  shows "fst (fst (tg_step E h key fs (Fetch t))) = Inl (Uncaught JsonError)"
  using title_file_there [OF assms(3,4)] read_from_file_FileNode [OF assms(4)] assms(5)
  by (simp add: tg_step_target(1) [OF assms(2,1)] get_title_file_def title_path)

lemma text_gen_get_uncaught_witness:
  "fst (fst (tg_step (mem_world\<lparr>json_parse := \<lambda>_. None\<rparr>) tg_demo ''k''
     (tg_files(''d/1_2_3_4'' \<mapsto> DirNode, ''d/1_2_3_4/ab'' \<mapsto> FileNode ''x'')) (Fetch ''ab''))) =
   Inl (Uncaught JsonError)"
proof -
  have "title_ok ''ab''"
    by (simp add: title_ok_def check_title_validity_def title_max_len_def title_char_def is_letter_def)
  then show ?thesis
    by (rule text_gen_get_uncaught [where b = "''x''"])
       (simp_all add: node_at_def mem_world_def is_file_node_def mem_bytes_def max_file_def path_of_def dot2underscore_def)
qed

text \<open>C23: a POST whose title or prompt is not valid, the first of each name in the form, is answered
  with 400 and the message on valid inputs, whatever the service would answer, and leaves the
  files as they are.\<close>

theorem text_gen_post_rejects:
  assumes "map_of (form_pairs E (req_body req)) ''title'' = Some t"
    and "map_of (form_pairs E (req_body req)) ''prompt'' = Some p"
    and "\<not> check_title_validity t \<or> \<not> check_prompts_validity p" and "req_method req = Verb_post"
  shows "\<exists>r'. text_gen_handle (E\<lparr>curl_post := f\<rparr>) h key fs req r = (Inr False, r', fs) \<and>
    status_of r' = Some St_bad_request \<and> body_of r' = valid_input_msg"
proof -
  have "form_pairs (E\<lparr>curl_post := f\<rparr>) b = form_pairs E b" for b by (simp add: form_pairs_def)
  then obtain m where "parse_post_body (E\<lparr>curl_post := f\<rparr>) (req_body req) = Some m"
      "map_find m ''title'' = Some t" "map_find m ''prompt'' = Some p"
    using parse_post_bodyI [of "E\<lparr>curl_post := f\<rparr>" "req_body req" t p] assms(1,2) by auto
  then show ?thesis using assms(3,4)
    by (auto simp: text_gen_handle_def tg_post_def Let_def prepare_defs)
qed

lemma text_gen_post_rejects_witness:
  "\<exists>r'. text_gen_handle (mem_world\<lparr>curl_post := \<lambda>_ _ _. None\<rparr>) tg_demo ''k'' tg_files
     \<lparr>req_method = Verb_post, req_target = ''/text_gen'', req_body = ''title=a/b&prompt=hi'', req_fields = []\<rparr> [] =
       (Inr False, r', tg_files) \<and> status_of r' = Some St_bad_request \<and> body_of r' = valid_input_msg"
proof -
  have "form_pairs mem_world ''title=a/b&prompt=hi'' = [(''title'', ''a/b''), (''prompt'', ''hi'')]"
    by (simp add: form_pairs_def mem_world_def)
  moreover have "\<not> check_title_validity ''a/b''"
    by (simp add: check_title_validity_def title_char_def is_letter_def is_digit_def)
  ultimately show ?thesis by (intro text_gen_post_rejects [where t = "''a/b''" and p = "''hi''"]) simp_all
qed

end
