(* ===== verification/Text_Gen_Clients.thy ===== *)
theory Text_Gen_Clients
  imports Text_Gen_Store
begin

text \<open>
  Several clients of the text generation handler. The folder of a client is named after its
  address, so their requests, in any order, are answered as if each client had a store of its
  own: the locale \<open>refinement_family\<close> on the addresses.
\<close>

section \<open>The folders of two clients\<close>

text \<open>The text of an IPv4 address (the server listens on no other).\<close>

definition client_ok :: "string \<Rightarrow> bool" where
  "client_ok ip \<longleftrightarrow> ip \<noteq> [] \<and> list_all (\<lambda>c. is_digit c \<or> c = CHR ''.'') ip"

abbreviation for_client :: "handler \<Rightarrow> string \<Rightarrow> handler" where
  "for_client h ip \<equiv> set_client_ip ip h"

lemma for_client_sel [simp]:
  "dir (for_client h ip) = dir h" "prefix (for_client h ip) = prefix h" "client_ip (for_client h ip) = ip"
  by (simp_all add: set_client_ip_def)

lemma address_chars:
  assumes "client_ok ip" and "c \<in> set (dot2underscore ip)"
  shows "is_digit c \<or> c = CHR ''_''"
  using assms by (auto simp: client_ok_def dot2underscore_def list_all_iff split: if_splits)

lemma client_folder_name:
  assumes "client_ok ip" shows "valid_name (dot2underscore ip)" and "ascii (dot2underscore ip)"
proof -
  have "CHR ''/'' \<notin> set (dot2underscore ip)" "CHR ''.'' \<notin> set (dot2underscore ip)"
    using address_chars [OF assms, of "CHR ''/''"] address_chars [OF assms, of "CHR ''.''"]
    by (auto simp: is_digit_def)
  moreover have "dot2underscore ip \<noteq> []" using assms by (simp add: client_ok_def dot2underscore_def)
  ultimately show "valid_name (dot2underscore ip)" by (rule valid_nameI [rotated])
  show "ascii (dot2underscore ip)"
    unfolding ascii_def list_all_iff using address_chars [OF assms] by (fastforce simp: is_digit_def)
qed

text \<open>Different clients have different folders.\<close>

lemma client_folder_inject:
  assumes "client_ok ip" and "client_ok jp"
  shows "dot2underscore ip = dot2underscore jp \<longleftrightarrow> ip = jp"
proof -
  have "inj_on (\<lambda>c. if c = CHR ''.'' then CHR ''_'' else c) (set ip \<union> set jp)"
    using assms by (auto simp: inj_on_def client_ok_def list_all_iff is_digit_def)
  then show ?thesis unfolding dot2underscore_def using inj_on_map_eq_map by blast
qed

section \<open>Requests of one client leave the others alone\<close>

lemma same_folder:
  assumes inv: "tg_inv E utf8 clean h fs"
    and same: "\<And>ns. valid_path ns \<Longrightarrow> ns \<in> {[], [client_name h]} \<union> range (\<lambda>n. [client_name h, n]) \<Longrightarrow>
      node_at E fs' (path_of (dir h) ns) = node_at E fs (path_of (dir h) ns)"
  shows "tg_inv E utf8 clean h fs' \<and> tg_folder E h fs' = tg_folder E h fs"
proof -
  note u = tg_invD(4) [OF inv]
  have nodes: "node_at E fs' (dir h) = node_at E fs (dir h)"
    "node_at E fs' (path_of (dir h) [client_name h]) = node_at E fs (path_of (dir h) [client_name h])"
    "\<And>n. valid_name n \<Longrightarrow>
      node_at E fs' (path_of (dir h) [client_name h, n]) = node_at E fs (path_of (dir h) [client_name h, n])"
    using same [of "[]"] same [of "[client_name h]"] same [of "[client_name h, _]"] u by simp_all
  then have names: "names_in E fs' (path_of (dir h) [client_name h]) = names_in E fs (path_of (dir h) [client_name h])"
    by (auto simp: names_in_node)
  have titles: "node_at E fs' (path_of (dir h) [client_name h, t]) = node_at E fs (path_of (dir h) [client_name h, t])"
    if "title_ok t" for t using nodes(3) [OF title_ok_name [OF that]] .
  have "tg_store E h fs' = tg_store E h fs"
    by (rule ext) (simp add: tg_store_def content_at_def titles)
  then show ?thesis using inv unfolding tg_inv_def tg_folder_def nodes(1,2) names by (simp add: titles)
qed

lemma other_client_kept:
  assumes "client_ok ip" and "client_ok jp" and "jp \<noteq> ip"
    and "tg_inv E utf8 clean (for_client h ip) fs" and "tg_inv E utf8 clean (for_client h jp) fs" and "tg_ok E key x"
  shows "tg_inv E utf8 clean (for_client h jp) (snd (tg_step E (for_client h ip) key fs x)) \<and>
    tg_folder E (for_client h jp) (snd (tg_step E (for_client h ip) key fs x)) = tg_folder E (for_client h jp) fs"
proof (rule same_folder [OF assms(5)])
  fix ns assume "valid_path ns"
    "ns \<in> {[], [client_name (for_client h jp)]} \<union> range (\<lambda>n. [client_name (for_client h jp), n])"
  moreover have "dot2underscore jp \<noteq> dot2underscore ip" using client_folder_inject assms(1-3) by blast
  ultimately show "node_at E (snd (tg_step E (for_client h ip) key fs x)) (path_of (dir (for_client h jp)) ns) =
      node_at E fs (path_of (dir (for_client h jp)) ns)"
    using tg_step_elsewhere [OF assms(4,6), of ns] by auto
qed

interpretation tg_clients: refinement_family client_ok "\<lambda>ip. tg_step E (for_client h ip) key"
    "\<lambda>ip. tg_inv E utf8 clean (for_client h ip)" "\<lambda>_. tg_ok E key" "\<lambda>_. tg_spec E key"
    "\<lambda>ip. tg_folder E (for_client h ip)" "\<lambda>ip. tg_answer_ok E (for_client h ip)" None
  for E h key utf8 clean
  by unfold_locales (auto simp: tg_store.preserves tg_store.simulates tg_store.answers other_client_kept)

section \<open>Properties\<close>

text \<open>What the handler of a location needs, whoever its clients are.\<close>

definition libraries_ok :: "('fs, 'j) world \<Rightarrow> (string \<Rightarrow> bool) \<Rightarrow> ('j \<Rightarrow> bool) \<Rightarrow> handler \<Rightarrow> bool" where
  "libraries_ok E utf8 clean h \<longleftrightarrow>
     posix_files E (dir h) \<and> list_works E (dir h) \<and> json_ok E utf8 clean \<and> boost_strings E \<and>
     CHR ''%'' \<notin> set (prefix h)"

lemma clients_setting: "libraries_ok E utf8 clean h \<Longrightarrow> client_ok ip \<Longrightarrow> setting_ok E utf8 clean (for_client h ip)"
  by (simp add: libraries_ok_def setting_ok_def client_folder_name)

text \<open>A request of a client, and the requests of all clients one after the other.\<close>

type_synonym client_op = "string \<times> tg_op"

abbreviation clients_step ::
    "('fs, 'j) world \<Rightarrow> handler \<Rightarrow> string \<Rightarrow> 'fs \<Rightarrow> client_op \<Rightarrow> (bool outcome \<times> response) \<times> 'fs" where
  "clients_step E h key \<equiv> family_step (\<lambda>ip. tg_step E (for_client h ip) key)"

abbreviation clients_spec ::
    "('fs, 'j) world \<Rightarrow> string \<Rightarrow> (string \<Rightarrow> 'j folder) \<Rightarrow> client_op \<Rightarrow> (string \<times> 'j tg_reply) \<times> (string \<Rightarrow> 'j folder)" where
  "clients_spec E key \<equiv> family_spec (\<lambda>_. tg_spec E key)"

abbreviation clients_ok :: "('fs, 'j) world \<Rightarrow> string \<Rightarrow> client_op \<Rightarrow> bool" where
  "clients_ok E key \<equiv> family_ok client_ok (\<lambda>_. tg_ok E key)"

abbreviation clients_answer :: "('fs, 'j) world \<Rightarrow> handler \<Rightarrow> string \<times> 'j tg_reply \<Rightarrow> bool outcome \<times> response \<Rightarrow> bool" where
  "clients_answer E h \<equiv> family_reply_ok (\<lambda>ip. tg_answer_ok E (for_client h ip))"

lemma clients_init:
  assumes "libraries_ok E utf8 clean h" and "node_at E fs (dir h) = Some DirNode"
    and "\<And>ns. valid_path ns \<Longrightarrow> ns \<noteq> [] \<Longrightarrow> node_at E fs (path_of (dir h) ns) = None"
  shows "family_inv client_ok (\<lambda>ip. tg_inv E utf8 clean (for_client h ip)) fs"
    and "family_abs client_ok None (\<lambda>ip. tg_folder E (for_client h ip)) fs = (\<lambda>_. None)"
proof -
  have one: "tg_inv E utf8 clean (for_client h ip) fs \<and> tg_folder E (for_client h ip) fs = None" if "client_ok ip" for ip
    using tg_inv_init [OF clients_setting [OF assms(1) that]] assms(2,3) by simp
  then show "family_inv client_ok (\<lambda>ip. tg_inv E utf8 clean (for_client h ip)) fs" by (simp add: family_inv_def)
  show "family_abs client_ok None (\<lambda>ip. tg_folder E (for_client h ip)) fs = (\<lambda>_. None)"
    using one by (auto simp: family_abs_def)
qed

text \<open>C8: refinement. Below an empty root the text generation handler answers every sequence of
  saving, fetching and deleting entries and asking for the history, by any clients in any
  order, as if each client had a map from titles to entries: a saved text is returned, a fetched
  entry is the one the client saved last under its title, a deleted one is not found, the history
  lists the titles the client holds, and at the end the files hold what the maps hold.\<close>

theorem text_gen_refines_store:
  assumes "libraries_ok E utf8 clean h" and "node_at E fs (dir h) = Some DirNode"
    and "\<And>ns. valid_path ns \<Longrightarrow> ns \<noteq> [] \<Longrightarrow> node_at E fs (path_of (dir h) ns) = None"
    and "list_all (clients_ok E key) qs"
  shows "list_all2 (clients_answer E h) (fst (run_ops (clients_spec E key) (\<lambda>_. None) qs))
      (fst (run_ops (clients_step E h key) fs qs)) \<and>
    (\<forall>ip. client_ok ip \<longrightarrow>
       tg_folder E (for_client h ip) (snd (run_ops (clients_step E h key) fs qs)) =
       snd (run_ops (clients_spec E key) (\<lambda>_. None) qs) ip)"
proof -
  have init: "family_inv client_ok (\<lambda>ip. tg_inv E utf8 clean (for_client h ip)) fs"
    "family_abs client_ok None (\<lambda>ip. tg_folder E (for_client h ip)) fs = (\<lambda>_. None)"
    using clients_init [OF assms(1,2)] assms(3) by simp_all
  note run = tg_clients.family.run_simulates [OF init(1) assms(4), unfolded init(2)]
  have "tg_folder E (for_client h ip) (snd (run_ops (clients_step E h key) fs qs)) =
      snd (run_ops (clients_spec E key) (\<lambda>_. None) qs) ip" if "client_ok ip" for ip
    using fun_cong [OF conjunct1 [OF conjunct2 [OF run]], of ip] that by (simp add: family_abs_def)
  then show ?thesis using conjunct2 [OF conjunct2 [OF run]] by blast
qed

lemma clients_demo: "libraries_ok mem_world (\<lambda>_. True) (\<lambda>_. True) tg_demo"
  by (simp add: libraries_ok_def posix_mem_world list_mem_world json_ok_mem boost_strings_def) (simp add: mem_world_def)

lemma text_gen_refines_store_witness:
  "list_all2 (clients_answer mem_world tg_demo)
     (fst (run_ops (clients_spec mem_world ''k'') (\<lambda>_. None)
        [(''1.2.3.4'', Save ''a b'' ''hi''), (''5.6.7.8'', Fetch ''a b''), (''1.2.3.4'', History)]))
     (fst (run_ops (clients_step mem_world tg_demo ''k'') tg_files
        [(''1.2.3.4'', Save ''a b'' ''hi''), (''5.6.7.8'', Fetch ''a b''), (''1.2.3.4'', History)]))"
proof -
  have "client_ok ''1.2.3.4''" "client_ok ''5.6.7.8''" by (simp_all add: client_ok_def is_digit_def)
  then have "list_all (clients_ok mem_world ''k'')
      [(''1.2.3.4'', Save ''a b'' ''hi''), (''5.6.7.8'', Fetch ''a b''), (''1.2.3.4'', History)]"
    using tg_demo_ok [of "''k''"] by (simp add: family_ok_def del: tg_ok.simps(1,2))
  from text_gen_refines_store [OF clients_demo _ _ this, of tg_files] show ?thesis
    by (simp add: tg_files_root tg_files_below del: run_ops.simps)
qed

text \<open>The requests of one client about valid titles leave the files of every other client as
  they were.\<close>

theorem text_gen_clients_apart:
  assumes "tg_inv E utf8 clean h fs" and "tg_ok E key x" and "valid_name other" and "valid_name t"
    and "other \<noteq> dot2underscore (client_ip h)"
  shows "node_at E (snd (tg_step E h key fs x)) (path_of (dir h) [other, t]) = node_at E fs (path_of (dir h) [other, t])"
  using tg_step_elsewhere [OF assms(1,2), of "[other, t]"] assms(3-5) by simp

lemma text_gen_clients_apart_witness:
  "node_at mem_world (snd (tg_step mem_world tg_demo ''k'' tg_files (Save ''a b'' ''hi''))) (path_of ''d'' [''x'', ''y'']) =
   node_at mem_world tg_files (path_of ''d'' [''x'', ''y''])"
  using text_gen_clients_apart [OF tg_demo_inv tg_demo_ok(1), of "''x''" "''y''" "''k''"]
  by (simp add: valid_name_def dot2underscore_def del: tg_ok.simps)

end
