(* ===== verification/Text_Gen_Service.thy ===== *)
theory Text_Gen_Service
  imports Text_Gen_Clients Server_History
begin

text \<open>
  A text generation location of a server as its clients see it: requests of any clients, as
  bytes, and printed replies, against the stores of \<open>Text_Gen_Clients\<close>.
\<close>

section \<open>Requests and replies\<close>

definition tg_service_ok :: "('fs, 'j) world \<Rightarrow> handler \<Rightarrow> string \<Rightarrow> tg_op service_op \<Rightarrow> bool" where
  "tg_service_ok E h key q \<longleftrightarrow>
     (case q of (ip, bytes, x) \<Rightarrow> clients_ok E key (ip, x) \<and> arrives_as E bytes (tg_request h x))"

definition tg_service_spec ::
    "('fs, 'j) world \<Rightarrow> string \<Rightarrow> (string \<Rightarrow> 'j folder) \<Rightarrow> tg_op service_op \<Rightarrow>
     (string \<times> 'j tg_reply) \<times> (string \<Rightarrow> 'j folder)" where
  "tg_service_spec E key S q = (case q of (ip, bytes, x) \<Rightarrow> clients_spec E key S (ip, x))"

definition tg_service_reply ::
    "('fs, 'j) world \<Rightarrow> handler \<Rightarrow> string \<times> 'j tg_reply \<Rightarrow> string outcome \<Rightarrow> bool" where
  "tg_service_reply E h p a \<longleftrightarrow>
     (\<exists>r. a = Inr (print_response E r) \<and> tg_shows E (for_client h (fst p)) (snd p) r)"

section \<open>The state of the service\<close>

definition text_gen_factory :: "string \<Rightarrow> string \<Rightarrow> string \<Rightarrow> factory \<Rightarrow> bool" where
  "text_gen_factory loc rt key f \<longleftrightarrow>
     fkind f = TextGenHandler \<and> location (farg f) = loc \<and> root (farg f) = rt \<and> api_key (farg f) = key"

definition tg_service_inv ::
    "('fs, 'j) world \<Rightarrow> (string \<Rightarrow> bool) \<Rightarrow> ('j \<Rightarrow> bool) \<Rightarrow> string \<Rightarrow> string \<Rightarrow> string \<Rightarrow> 'fs shared \<Rightarrow> bool" where
  "tg_service_inv E utf8 clean loc rt key s \<longleftrightarrow>
     loc \<noteq> [] \<and> CHR '' '' \<notin> set loc \<and> none_below (snd s) loc \<and>
     (case map_find (snd s) loc of None \<Rightarrow> False | Some f \<Rightarrow> text_gen_factory loc rt key f) \<and>
     family_inv client_ok (\<lambda>ip. tg_inv E utf8 clean (for_client (new_handler loc rt) ip)) (fst s)"

definition tg_service_store ::
    "('fs, 'j) world \<Rightarrow> string \<Rightarrow> string \<Rightarrow> 'fs shared \<Rightarrow> string \<Rightarrow> 'j folder" where
  "tg_service_store E loc rt s =
     family_abs client_ok None (\<lambda>ip. tg_folder E (for_client (new_handler loc rt) ip)) (fst s)"

section \<open>One request\<close>

lemma write_space_append: "write_space (s @ t) = write_space s @ write_space t"
  by (simp add: write_space_def)

lemma write_space_id: "CHR '' '' \<notin> set s \<Longrightarrow> write_space s = s"
  by (induction s) (auto simp: write_space_def)

lemma tg_request_at_location:
  assumes "CHR '' '' \<notin> set loc"
  shows "at_location loc (req_target (tg_request (for_client (new_handler loc rt) ip) x))"
proof -
  have "write_space (loc @ ''/'' @ t) = loc @ ''/'' @ write_space t" for t
    unfolding write_space_append write_space_id [OF assms] by (simp add: write_space_def)
  then show ?thesis by (cases x) (auto simp: at_location_def title_url_def)
qed

lemma tg_request_client: "tg_request (for_client h ip) x = tg_request h x"
  by (cases x) (simp_all add: title_url_def)

lemma text_gen_handle_fields:
  assumes "same_request q p"
  shows "text_gen_handle E h key fs q r = text_gen_handle E h key fs p r"
proof -
  have same: "req_method q = req_method p" "req_target q = req_target p" "req_body q = req_body p"
    using assms by (simp_all add: same_request_def)
  show ?thesis by (simp only: text_gen_handle_def tg_post_def tg_get_def tg_delete_def same)
qed

lemma service_step_text_gen:
  assumes inv: "tg_service_inv E utf8 clean loc rt key (fs, R)" and f: "map_find R loc = Some f"
    and op: "tg_service_ok E (new_handler loc rt) key (ip, bytes, x)"
    and run: "tg_step E (for_client (new_handler loc rt) ip) key fs x = ((Inr b, r), fs')"
  shows "service_step E (fs, R) (ip, bytes, x) = (Inr (print_response E r), fs', map_assign loc f R)"
proof (rule reply_of_arrival [where p = "tg_request (new_handler loc rt) x" and f = f])
  let ?h = "for_client (new_handler loc rt) ip" and ?r = "set_field allow_origin_field ''*'' []"
  have kind: "fkind f = TextGenHandler" "location (farg f) = loc" "root (farg f) = rt" "api_key (farg f) = key"
    and loc: "CHR '' '' \<notin> set loc"
    using inv f by (simp_all add: tg_service_inv_def text_gen_factory_def)
  show "at_location loc (req_target (tg_request (new_handler loc rt) x))"
    using tg_request_at_location [OF loc, where rt = rt] unfolding tg_request_client .
  show "none_below R loc" "loc \<noteq> []" using inv by (simp_all add: tg_service_inv_def)
  have "client_ok ip" using op by (simp add: tg_service_ok_def family_ok_def)
  then have "tg_inv E utf8 clean ?h fs" using inv by (simp add: tg_service_inv_def family_inv_def)
  then have "node_at E fs rt = Some DirNode" using tg_invD(7) by fastforce
  then have make: "make_root E rt fs = (Inr (), fs)" by (simp add: make_root_def node_at_DirNode)
  have "text_gen_handle E ?h key fs (tg_request (new_handler loc rt) x) ?r = (Inr b, r, fs')"
    using run unfolding tg_step_def tg_request_client by (auto split: prod.splits)
  then have "text_gen_handle E ?h key fs q ?r = (Inr b, r, fs')" if "same_request q (tg_request (new_handler loc rt) x)" for q
    unfolding text_gen_handle_fields [OF that] .
  then show "dispatch E ip loc f q ?r (fs, R) = (Inr r, fs', map_assign loc f R)"
    if "same_request q (tg_request (new_handler loc rt) x)" for q
    using that by (simp add: dispatch_def create_handler_def kind handle_request_def with_ids_def make Let_def)
qed (use op f in \<open>simp_all add: tg_service_ok_def\<close>)

lemma tg_service_one:
  assumes inv: "tg_service_inv E utf8 clean loc rt key s" and op: "tg_service_ok E (new_handler loc rt) key q"
  shows "tg_service_inv E utf8 clean loc rt key (snd (service_step E s q)) \<and>
    tg_service_store E loc rt (snd (service_step E s q)) = snd (tg_service_spec E key (tg_service_store E loc rt s) q) \<and>
    tg_service_reply E (new_handler loc rt) (fst (tg_service_spec E key (tg_service_store E loc rt s) q))
      (fst (service_step E s q))"
proof -
  let ?h = "new_handler loc rt"
  obtain fs R where s: "s = (fs, R)" by force
  obtain ip bytes x where q: "q = (ip, bytes, x)" by (metis prod_cases3)
  have ok: "clients_ok E key (ip, x)" using op by (simp add: q tg_service_ok_def)
  have fam: "family_inv client_ok (\<lambda>ip. tg_inv E utf8 clean (for_client ?h ip)) fs"
    using inv by (simp add: s tg_service_inv_def)
  obtain f where f: "map_find R loc = Some f" "text_gen_factory loc rt key f"
    using inv by (auto simp: s tg_service_inv_def split: option.splits)
  obtain a r fs' where run: "clients_step E ?h key fs (ip, x) = ((a, r), fs')" by (metis surj_pair)
  note one = tg_clients.family.preserves [OF fam ok] tg_clients.family.simulates [OF fam ok]
    tg_clients.family.answers [OF fam ok]
  obtain b where a: "a = Inr b"
    using one(3) by (auto simp: run family_reply_ok_def tg_answer_ok_def)
  have "tg_step E (for_client ?h ip) key fs x = ((Inr b, r), fs')" using run a by (simp add: family_step_def)
  from service_step_text_gen [OF inv [unfolded s] f(1) op [unfolded q] this]
  have step: "service_step E (fs, R) (ip, bytes, x) = (Inr (print_response E r), fs', map_assign loc f R)" .
  have "tg_service_inv E utf8 clean loc rt key (fs', map_assign loc f R)"
    using inv one(1) f none_below_assign [of R loc f] by (simp add: s run tg_service_inv_def map_find_assign)
  moreover have "tg_service_reply E ?h (fst (tg_service_spec E key (tg_service_store E loc rt s) q)) (Inr (print_response E r))"
    using one(3) by (auto simp: s q run tg_service_reply_def tg_service_spec_def tg_service_store_def
        family_reply_ok_def tg_answer_ok_def)
  ultimately show ?thesis
    using one(2) by (simp add: s q step run tg_service_spec_def tg_service_store_def)
qed

interpretation tg_service: location_service E "tg_service_inv E utf8 clean loc rt key"
    "tg_service_ok E (new_handler loc rt) key" "tg_service_spec E key" "tg_service_store E loc rt"
    "tg_service_reply E (new_handler loc rt)" loc for E utf8 clean loc rt key
proof unfold_locales
  show "tg_service_inv E utf8 clean loc rt key (fs, R') \<and> tg_service_store E loc rt (fs, R') = tg_service_store E loc rt (fs, R)"
    if "tg_service_inv E utf8 clean loc rt key (fs, R)" "map_find R' loc = map_find R loc" "same_routes R R'" for fs R R'
    using that none_below_same [OF that(3)] by (simp add: tg_service_inv_def tg_service_store_def)
  show "\<exists>reply. a = Inr reply" if "tg_service_reply E (new_handler loc rt) p a" for p a
    using that by (auto simp: tg_service_reply_def)
  show "length bytes \<le> max_length" if "tg_service_ok E (new_handler loc rt) key (ip, bytes, x)" for ip bytes x
    using that by (simp add: tg_service_ok_def arrives_as_def)
qed (simp_all add: tg_service_one)

section \<open>The start\<close>

lemma tg_service_init:
  assumes "map_find R loc = Some f" and "text_gen_factory loc rt key f" and "loc \<noteq> []" and "CHR '' '' \<notin> set loc"
    and "none_below R loc" and "libraries_ok E utf8 clean (new_handler loc rt)" and "node_at E fs rt = Some DirNode"
    and "\<And>ns. valid_path ns \<Longrightarrow> ns \<noteq> [] \<Longrightarrow> node_at E fs (path_of rt ns) = None"
  shows "tg_service_inv E utf8 clean loc rt key (fs, R)" and "tg_service_store E loc rt (fs, R) = (\<lambda>_. None)"
  using clients_init [OF assms(6), of fs] assms by (simp_all add: tg_service_inv_def tg_service_store_def)

end
