(* ===== verification/Server_Live.thy ===== *)
theory Server_Live
  imports Server_Pool
begin

text \<open>
  The liveness of sessions: in a run that is fair to pending writes, every request that was
  read is answered. A run is an infinite sequence of jobs, handled one after the other.
\<close>

section \<open>Runs\<close>

text \<open>An infinite run: state \<open>f t\<close>, and the job \<open>g t\<close> that leads to the next state.\<close>

definition server_run :: "('fs, 'j) world \<Rightarrow> (nat \<Rightarrow> 'fs server) \<Rightarrow> (nat \<Rightarrow> job) \<Rightarrow> bool" where
  "server_run E f g \<longleftrightarrow> (\<forall>t. job_pending (f t) (g t) \<and> perform E (g t) (f t) = Inr (f (Suc t)))"

definition writing :: "'fs server \<Rightarrow> nat \<Rightarrow> bool" where
  "writing s i \<longleftrightarrow> (\<exists>c. sessions s i = Some c \<and> waits_for c = Pending_write)"

definition is_write :: "nat \<Rightarrow> job \<Rightarrow> bool" where
  "is_write i j \<longleftrightarrow> (\<exists>error remote. j = Write_job i error remote)"

text \<open>Weak fairness: a write that stays pending completes, with or without an error.\<close>

definition fair_writes :: "(nat \<Rightarrow> 'fs server) \<Rightarrow> (nat \<Rightarrow> job) \<Rightarrow> bool" where
  "fair_writes f g \<longleftrightarrow> (\<forall>i t. (\<forall>u \<ge> t. writing (f u) i) \<longrightarrow> (\<exists>u \<ge> t. is_write i (g u)))"

lemma writing_job:
  "job_pending s j \<Longrightarrow> writing s i \<Longrightarrow> job_session j = i \<Longrightarrow> is_write i j"
  by (cases j) (auto simp: job_session_def writing_def is_write_def split: option.splits)

lemma reply_waits:
  assumes "server_run E f g" and "t \<le> u" and "sessions (f t) i = Some c" and "waits_for c = Pending_write"
    and "\<And>v. t \<le> v \<Longrightarrow> v < u \<Longrightarrow> \<not> is_write i (g v)"
  shows "sessions (f u) i = Some c"
  using assms(2,5)
proof (induction rule: dec_induct)
  case (step v)
  then have c: "sessions (f v) i = Some c" by simp
  have run: "job_pending (f v) (g v)" "perform E (g v) (f v) = Inr (f (Suc v))"
    using assms(1) by (simp_all add: server_run_def)
  have "\<not> is_write i (g v)" using step by simp
  then have "i \<noteq> job_session (g v)" using writing_job [OF run(1)] c assms(4) by (auto simp: writing_def)
  from perform_others [OF run(2) this] show ?case using c by simp
qed (use assms(3) in simp)

lemma read_reply:
  assumes "perform E (Read_job i False bytes) s = Inr s'"
  shows "\<exists>c r. sessions s' i = Some c \<and> waits_for c = Pending_write \<and> rep c = print_response E r \<and> answer_complete r"
proof -
  obtain c where c: "sessions s i = Some c" using assms by (auto split: option.splits)
  obtain a fs R where h: "handle_read E False (length bytes) (c\<lparr>in_data := fill bytes (in_data c)\<rparr>) (files s, routes s) =
      (a, fs, R)" by (metis prod_cases3)
  have "finish i s (a, fs, R) = Inr s'" using assms c h by simp
  then obtain d where d: "a = Inr d" "sessions s' i = d" by (auto simp: finish_def split: sum.splits)
  have "\<exists>e. d = Some e \<and> waits_for e = Pending_write"
    using h d(1) by (auto simp: handle_read_def split: prod.splits sum.splits)
  then obtain e where e: "d = Some e" "waits_for e = Pending_write" by blast
  have "session_ok E e" by (rule handle_read_ok [OF h [unfolded d(1) e(1)]])
  then show ?thesis using d(2) e by (auto simp: session_ok_def)
qed

lemma write_ends:
  assumes "perform E (Write_job i error remote) s = Inr s'"
  shows "sessions s' i = None \<or> (\<exists>c. sessions s' i = Some c \<and> waits_for c = Pending_read)"
  using assms
  by (auto simp: finish_def handle_write_def start_def split: option.splits sum.splits if_splits)

lemma write_completes:
  assumes run: "server_run E f g" and fair: "fair_writes f g"
    and c: "sessions (f t) i = Some c" "waits_for c = Pending_write"
  shows "\<exists>u \<ge> t. is_write i (g u) \<and> (\<forall>v. t \<le> v \<and> v \<le> u \<longrightarrow> sessions (f v) i = Some c)"
proof -
  have "\<exists>u \<ge> t. is_write i (g u)"
  proof (rule ccontr)
    assume no: "\<not> (\<exists>u \<ge> t. is_write i (g u))"
    then have "sessions (f u) i = Some c" if "t \<le> u" for u
      using reply_waits [OF run that c] by simp
    then have "\<forall>u \<ge> t. writing (f u) i" using c(2) by (auto simp: writing_def)
    then show False using fair no by (auto simp: fair_writes_def)
  qed
  then obtain d where "is_write i (g (t + d))" by (metis le_iff_add)
  define e where "e = (LEAST d. is_write i (g (t + d)))"
  have e: "is_write i (g (t + e))" unfolding e_def using \<open>is_write i (g (t + d))\<close> by (rule LeastI)
  have before: "\<not> is_write i (g v)" if "t \<le> v" "v < t + e" for v
    using not_less_Least [of "v - t" "\<lambda>d. is_write i (g (t + d))"] that by (auto simp: e_def)
  have "sessions (f v) i = Some c" if "t \<le> v" "v \<le> t + e" for v
    using reply_waits [OF run that(1) c] before that(2) by simp
  then show ?thesis using e by (intro exI [of _ "t + e"]) simp
qed

section \<open>Properties\<close>

text \<open>C13: liveness. In an infinite run that is fair to pending writes, every request that was read
  is answered: the print of a complete response waits, untouched by all other sessions,
  until it is written, and then the session is gone or reads again.\<close>

theorem request_answered:
  assumes "server_run E f g" and "fair_writes f g" and "g t = Read_job i False bytes"
  shows "\<exists>u r. t < u \<and> is_write i (g u) \<and> answer_complete r \<and>
    (\<forall>v. t < v \<and> v \<le> u \<longrightarrow> (\<exists>c. sessions (f v) i = Some c \<and> waits_for c = Pending_write \<and> rep c = print_response E r)) \<and>
    (sessions (f (Suc u)) i = None \<or> (\<exists>c. sessions (f (Suc u)) i = Some c \<and> waits_for c = Pending_read))"
proof -
  have "perform E (Read_job i False bytes) (f t) = Inr (f (Suc t))"
    using assms(1,3) unfolding server_run_def by metis
  then obtain c r where c: "sessions (f (Suc t)) i = Some c" "waits_for c = Pending_write"
      "rep c = print_response E r" "answer_complete r" using read_reply by blast
  from write_completes [OF assms(1,2) c(1,2)] obtain u where u: "Suc t \<le> u" "is_write i (g u)"
      "\<And>v. Suc t \<le> v \<Longrightarrow> v \<le> u \<Longrightarrow> sessions (f v) i = Some c" by blast
  from u(2) obtain error remote where "g u = Write_job i error remote" by (auto simp: is_write_def)
  then have "perform E (Write_job i error remote) (f u) = Inr (f (Suc u))"
    using assms(1) unfolding server_run_def by metis
  note write_ends [OF this]
  moreover have "sessions (f v) i = Some c" if "t < v" "v \<le> u" for v using u(3) that by simp
  ultimately show ?thesis using u(1,2) c(2-4) by (intro exI [of _ u] exI [of _ r]) auto
qed

text \<open>A client that sends empty requests, for the witness.\<close>

definition demo_session :: "pending \<Rightarrow> session" where
  "demo_session w = \<lparr>peer_ip = ''1.2.3.4'', in_data = zero_buffer, rep = [], waits_for = w\<rparr>"

definition demo_server :: "pending \<Rightarrow> mem server" where
  "demo_server w = idle_server\<lparr>sessions := [0 \<mapsto> demo_session w]\<rparr>"

lemma demo_read: "perform mem_world (Read_job 0 False []) (demo_server Pending_read) = Inr (demo_server Pending_write)"
proof -
  have "parse_request mem_world zero_buffer 0 = Inr None"
    using parse_request_fill [of "[]" mem_world]
    by (simp add: max_length_def fill_def mem_world_def mem_parse_http_def)
  then have "get_reply mem_world ''1.2.3.4'' zero_buffer 0 (fs, R) = (Inr [], fs, R)" for fs R
    by (simp add: get_reply_def generate_response_def Let_def) (simp add: mem_world_def)
  then show ?thesis
    by (simp add: demo_server_def demo_session_def idle_server_def start_accept_def finish_def handle_read_def fill_def)
qed

lemma demo_write:
  "perform mem_world (Write_job 0 False (Some ''1.2.3.4'')) (demo_server Pending_write) = Inr (demo_server Pending_read)"
  by (simp add: demo_server_def demo_session_def idle_server_def start_accept_def finish_def handle_write_def start_def)

lemma request_answered_witness:
  "\<exists>f g u. server_run mem_world f g \<and> f 0 = demo_server Pending_read \<and> g 0 = Read_job 0 False [] \<and>
     0 < u \<and> is_write 0 (g u) \<and> (\<exists>c. sessions (f u) 0 = Some c \<and> waits_for c = Pending_write)"
proof -
  define f where "f t = demo_server (if even t then Pending_read else Pending_write)" for t :: nat
  define g where "g t = (if even t then Read_job 0 False [] else Write_job 0 False (Some ''1.2.3.4''))" for t :: nat
  have run: "server_run mem_world f g"
    using demo_read demo_write
    by (simp add: server_run_def f_def g_def) (simp add: demo_server_def demo_session_def)
  have "fair_writes f g"
    unfolding fair_writes_def
  proof (intro allI impI)
    fix i t assume "\<forall>u \<ge> t. writing (f u) i"
    then have "writing (f (2 * t)) i" by simp
    then show "\<exists>u \<ge> t. is_write i (g u)"
      by (auto simp: writing_def f_def demo_server_def demo_session_def split: if_splits)
  qed
  from request_answered [OF run this, of 0 0 "[]"] obtain u where "0 < u" "is_write 0 (g u)"
      "\<exists>c. sessions (f u) 0 = Some c \<and> waits_for c = Pending_write"
    by (auto simp: g_def)
  moreover have "f 0 = demo_server Pending_read" "g 0 = Read_job 0 False []" by (simp_all add: f_def g_def)
  ultimately show ?thesis using run by blast
qed

end
