(* ===== verification/Log_Records.thy ===== *)
theory Log_Records
  imports Std_Map
begin

text \<open>
  The logger that \<open>src/log.cc\<close> sets up, the severities of \<open>include/log.h\<close>, and the text a
  sequence of records makes. The records themselves are in the theories of the parts that
  write them: \<open>Config_Log\<close>, \<open>Handler_Log\<close> and \<open>Logging\<close>.
\<close>

section \<open>Severities and the logger\<close>

datatype severity = Sev_trace | Sev_debug | Sev_info | Sev_warning | Sev_error | Sev_fatal

fun severity_rank :: "severity \<Rightarrow> nat" where
  "severity_rank Sev_trace = 0"
| "severity_rank Sev_debug = 1"
| "severity_rank Sev_info = 2"
| "severity_rank Sev_warning = 3"
| "severity_rank Sev_error = 4"
| "severity_rank Sev_fatal = 5"

lemma severity_rank_inject [simp]: "severity_rank a = severity_rank b \<longleftrightarrow> a = b"
  by (cases a; cases b) simp_all

instantiation severity :: linorder
begin

definition less_eq_severity :: "severity \<Rightarrow> severity \<Rightarrow> bool" where
  "less_eq_severity a b \<longleftrightarrow> severity_rank a \<le> severity_rank b"

definition less_severity :: "severity \<Rightarrow> severity \<Rightarrow> bool" where
  "less_severity a b \<longleftrightarrow> severity_rank a < severity_rank b"

instance
  by standard (auto simp: less_eq_severity_def less_severity_def simp flip: severity_rank_inject)

end

type_synonym log_entry = "severity \<times> string"

definition DEBUG :: "string \<Rightarrow> log_entry" where "DEBUG msg = (Sev_debug, msg)"

definition INFO :: "string \<Rightarrow> log_entry" where "INFO msg = (Sev_info, msg)"

definition WARNING :: "string \<Rightarrow> log_entry" where "WARNING msg = (Sev_warning, msg)"

definition ERROR :: "string \<Rightarrow> log_entry" where "ERROR msg = (Sev_error, msg)"

definition FATAL :: "string \<Rightarrow> log_entry" where "FATAL msg = (Sev_fatal, msg)"

text \<open>
  Both sinks, the file and the console, have the same format; the filter belongs to the core,
  so it holds for both.
\<close>

record log_setup =
  file_name :: string
  rotation_size :: nat
  rotation_at :: "nat \<times> nat \<times> nat"
  auto_flush :: bool
  file_format :: string
  console_format :: string
  least_severity :: severity

definition log_format :: string where
  "log_format = ''[%TimeStamp%] [%ThreadID%] <%Severity%> %Message%''"

definition global_logger :: log_setup where
  "global_logger =
     \<lparr>file_name = ''../log/SERVER_LOG_%N.log'', rotation_size = 10 * 1024 * 1024,
      rotation_at = (0, 0, 0), auto_flush = True,
      file_format = log_format, console_format = log_format, least_severity = Sev_info\<rparr>"

definition written :: "log_setup \<Rightarrow> log_entry list \<Rightarrow> log_entry list" where
  "written lg es = filter (\<lambda>(sev, msg). sev \<ge> least_severity lg) es"

lemma written_simps [simp]:
  "written lg [] = []"
  "written lg (es @ fs) = written lg es @ written lg fs"
  "written global_logger (INFO msg # es) = INFO msg # written global_logger es"
  "written global_logger (WARNING msg # es) = WARNING msg # written global_logger es"
  "written global_logger (ERROR msg # es) = ERROR msg # written global_logger es"
  "written global_logger (FATAL msg # es) = FATAL msg # written global_logger es"
  "written global_logger (DEBUG msg # es) = written global_logger es"
  by (simp_all add: written_def global_logger_def less_eq_severity_def INFO_def WARNING_def ERROR_def
      FATAL_def DEBUG_def)

text \<open>The parts of messages that are written with an escape in the source.\<close>

definition tab :: string where "tab = [CHR 0x09]"

definition line_feed :: string where "line_feed = [CHR 0x0A]"

section \<open>The text of the log\<close>

text \<open>
  Both sinks print a record as the line \<open>log_format\<close> describes, and end it with a line feed:
  the message as it is after a stamp (time, thread, severity).
\<close>

definition log_text :: "(log_entry \<Rightarrow> string) \<Rightarrow> log_entry list \<Rightarrow> string" where
  "log_text stamp es = concat (map (\<lambda>e. stamp e @ snd e @ line_feed) (written global_logger es))"

text \<open>What a reader of the file sees: its lines.\<close>

fun lines_of :: "string \<Rightarrow> string list" where
  "lines_of [] = [[]]"
| "lines_of (c # s) = (if c = CHR 0x0A then [] # lines_of s else (c # hd (lines_of s)) # tl (lines_of s))"

lemma lines_of_not_Nil [simp]: "lines_of s \<noteq> []"
  by (cases s) simp_all

lemma lines_of_append: "lines_of (s @ CHR 0x0A # t) = lines_of s @ lines_of t"
  by (induction s) simp_all

lemma lines_of_line: "CHR 0x0A \<notin> set l \<Longrightarrow> lines_of l = [l]"
  by (induction l) auto

text \<open>A message with a line feed in it starts a line of its own.\<close>

lemma message_line:
  assumes "CHR 0x0A \<notin> set l" and "snd e = a @ CHR 0x0A # l @ CHR 0x0A # b"
    and "e \<in> set (written global_logger es)"
  shows "l \<in> set (lines_of (log_text stamp es))"
proof -
  obtain xs ys where es: "written global_logger es = xs @ e # ys" using assms(3) by (meson split_list)
  have "\<exists>p q. log_text stamp es = p @ CHR 0x0A # l @ CHR 0x0A # q"
    by (rule exI [of _ "concat (map (\<lambda>e. stamp e @ snd e @ line_feed) xs) @ stamp e @ a"],
        rule exI [of _ "b @ line_feed @ concat (map (\<lambda>e. stamp e @ snd e @ line_feed) ys)"])
       (simp add: log_text_def es assms(2))
  then obtain p q where "log_text stamp es = p @ CHR 0x0A # l @ CHR 0x0A # q" by blast
  then show ?thesis using lines_of_line [OF assms(1)] by (simp add: lines_of_append)
qed

end
