(* ===== verification/Config_Log.thy ===== *)
theory Config_Log
  imports Log_Records Config_Grammar
begin

text \<open>
  The records \<open>src/config_parser.cc\<close> writes while it parses: about ports that are not valid,
  locations it binds, and the token at which it gives up. The error records tell whether
  \<open>Parse\<close> returned false and at which token, the others which locations are bound. No record
  shows an API key that is written as the configuration format means it to be.
\<close>

section \<open>The records of one token\<close>

definition safeportSTOI_log :: "string \<Rightarrow> log_entry list" where
  "safeportSTOI_log stringnumber =
     (let result = (case stoi stringnumber of Inl _ \<Rightarrow> -1 | Inr n \<Rightarrow> n) in
      (case stoi stringnumber of
         Inl e \<Rightarrow>
           if e = OutOfRange
           then [ERROR (''Config Parser: Port number not valid: number of of int range'' @ line_feed)]
           else [ERROR (''Config Parser: Port number not valid: not convertable'' @ line_feed)]
       | Inr n \<Rightarrow> []) @
      (if result < 0 \<or> result > 65535
       then [ERROR (''Config Parser: Port number not valid: shoud be between 0 - 65535'' @ line_feed)] else []))"

definition mapped_before :: "string \<Rightarrow> string" where
  "mapped_before loc = ''Location: '' @ loc @ '' has already be mapped to a path, ''"

definition map_location :: "string \<Rightarrow> string" where
  "map_location loc = ''Map location: '' @ loc"

definition root_log :: "string \<Rightarrow> string \<Rightarrow> string \<Rightarrow> addrmap \<Rightarrow> log_entry list" where
  "root_log loc config_type token m =
     (if map_find m loc \<noteq> None
      then [INFO (mapped_before loc @ ''update the root to: '' @ token @ '' and handler type to: '' @
              config_type @ line_feed)]
      else [INFO (map_location loc @ '' with root: '' @ token @ '' and type of handler: '' @
              config_type @ line_feed)])"

definition api_key_log :: "string \<Rightarrow> string \<Rightarrow> addrmap \<Rightarrow> log_entry list" where
  "api_key_log loc config_type m =
     (if map_find m loc \<noteq> None
      then [INFO (mapped_before loc @ ''update handler type to: '' @ config_type @ line_feed)]
      else [INFO (map_location loc @ '' with type of handler: '' @ config_type @ line_feed)])"

definition empty_block_log :: "string list \<Rightarrow> addrmap \<Rightarrow> log_entry list" where
  "empty_block_log previous_token m =
     (if 3 \<le> length previous_token \<and> rev previous_token ! 2 = ''location'' then
        (let loc = rev previous_token ! 1; config_type = rev previous_token ! 0 in
         if map_find m loc \<noteq> None
         then [INFO (mapped_before loc @ ''update the handler_type to: '' @ config_type @ line_feed)]
         else [INFO (map_location loc @ '' with empty root and type of handler: '' @ config_type @ line_feed)])
      else [])"

text \<open>The records beside \<open>apply_directive\<close>.\<close>

definition directive_log :: "string list \<Rightarrow> string \<Rightarrow> string \<Rightarrow> addrmap \<Rightarrow> log_entry list" where
  "directive_log parent_token lastoken token m =
     (if lastoken = ''listen'' then safeportSTOI_log token
      else case location_of parent_token of (loc, config_type) \<Rightarrow>
        if loc \<noteq> [] \<and> config_type \<noteq> [] then
          if lastoken = ''root'' \<or> lastoken = ''data_path'' then root_log loc config_type token m
          else if lastoken = ''api-key'' then api_key_log loc config_type m
          else []
        else [])"

text \<open>The records of one round of the loop, beside \<open>parse_token_step\<close>.\<close>

definition normal_log :: "string \<Rightarrow> parse_state \<Rightarrow> log_entry list" where
  "normal_log token st =
     (case config_stack st of
        [] \<Rightarrow> []
      | cur # below \<Rightarrow>
          if last_token_type st = TOKEN_TYPE_NORMAL \<and> statements cur \<noteq> [] \<and>
             tokens (last (statements cur)) \<noteq> [] \<and> (\<forall>p \<in> set (take 1 below). statements p \<noteq> [])
          then directive_log (parent_tokens below) (last (tokens (last (statements cur)))) token (parsed_map st)
          else [])"

definition end_block_log :: "parse_state \<Rightarrow> log_entry list" where
  "end_block_log st =
     (if last_token_type st = TOKEN_TYPE_START_BLOCK then
        (case config_stack (pop_config st) of
           [] \<Rightarrow> []
         | cur # _ \<Rightarrow>
             if statements cur = [] then []
             else empty_block_log (tokens (last (statements cur))) (parsed_map st))
      else [])"

fun token_log :: "token_type \<Rightarrow> string \<Rightarrow> parse_state \<Rightarrow> log_entry list" where
  "token_log TOKEN_TYPE_NORMAL token st = normal_log token st"
| "token_log TOKEN_TYPE_END_BLOCK token st = end_block_log st"
| "token_log _ token st = []"

definition bad_transition :: "token_type \<Rightarrow> token_type \<Rightarrow> log_entry" where
  "bad_transition last_type t =
     ERROR (''Config Parser: Bad transition from '' @ TokenTypeAsString last_type @ '' to '' @
       TokenTypeAsString t @ line_feed)"

section \<open>The records of the loop\<close>

function parse_loop_log :: "istream \<Rightarrow> parse_state \<Rightarrow> log_entry list" where
  "parse_loop_log i st =
     (let (token_type, token, i') = ParseToken i in
      token_log token_type token st @
      (case parse_token_step token_type token st of
         Loop st' \<Rightarrow> parse_loop_log i' st'
       | Break st' \<Rightarrow> [bad_transition (last_token_type st') token_type]
       | Accept st' \<Rightarrow> []
       | Fault st' \<Rightarrow> []))"
  by pat_completeness auto
termination
proof (relation "measure (\<lambda>(i, st). length (rest i))", goal_cases)
  case (2 i st x t y token i' st')
  then have "ParseToken i = (t, token, i')" by simp
  moreover have "t \<noteq> TOKEN_TYPE_EOF" "t \<noteq> TOKEN_TYPE_ERROR"
    using parse_token_step_stops [OF 2(4)] by simp_all
  ultimately show ?case by (simp add: ParseToken_shrinks)
qed simp

declare parse_loop_log.simps [simp del]

definition Parse_log :: "istream \<Rightarrow> nginx_config \<Rightarrow> addrmap \<Rightarrow> log_entry list" where
  "Parse_log config_file config m = parse_loop_log config_file (parse_init config m)"

definition Parse_file_log :: "string \<Rightarrow> string option \<Rightarrow> nginx_config \<Rightarrow> addrmap \<Rightarrow> log_entry list" where
  "Parse_file_log name contents config m =
     (case contents of
        None \<Rightarrow> [ERROR (''Config Parser: Failed to open config file '' @ name @ line_feed)]
      | Some s \<Rightarrow>
          Parse_log (open_stream s) config m @
          (case Parse (open_stream s) config m of
             (Inl e, c, port, m1) \<Rightarrow> []
           | (Inr _, c, port, m1) \<Rightarrow>
               if m1 = []
               then [WARNING (''Static address binding is empty! Please check the config file!'' @ line_feed)]
               else []))"

lemma parse_loop_log_step:
  "ParseToken i = (t, v, i') \<Longrightarrow>
     parse_loop_log i st = token_log t v st @
       (case parse_token_step t v st of
          Loop st' \<Rightarrow> parse_loop_log i' st'
        | Break st' \<Rightarrow> [bad_transition (last_token_type st') t]
        | Accept st' \<Rightarrow> []
        | Fault st' \<Rightarrow> [])"
  by (subst parse_loop_log.simps) simp

section \<open>Errors\<close>

definition informs :: "log_entry list \<Rightarrow> bool" where
  "informs es \<longleftrightarrow> list_all (\<lambda>e. fst e = Sev_info) es"

lemma informs_simps [simp]:
  "informs []" "informs (es @ fs) \<longleftrightarrow> informs es \<and> informs fs"
  "informs (INFO msg # es) \<longleftrightarrow> informs es" "\<not> informs (ERROR msg # es)"
  by (simp_all add: informs_def INFO_def ERROR_def)

lemma informs_bindings [simp]:
  "informs (root_log loc t token m)" "informs (api_key_log loc t m)" "informs (empty_block_log ts m)"
  by (simp_all add: root_log_def api_key_log_def empty_block_log_def Let_def)

lemma informs_directive:
  "informs (directive_log parent lastoken token m) \<longleftrightarrow> apply_directive parent lastoken token (port, m) \<noteq> None"
proof -
  have "informs (safeportSTOI_log token) \<longleftrightarrow> safeportSTOI token \<noteq> -1"
    by (auto simp: safeportSTOI_log_def safeportSTOI_def Let_def split: sum.splits)
  then show ?thesis
    by (simp add: directive_log_def apply_directive_def Let_def split: prod.split)
qed

text \<open>One round: as long as it goes on, only what has been bound is reported.\<close>

lemma informs_token:
  assumes "\<forall>st'. parse_token_step t v st \<noteq> Break st'" shows "informs (token_log t v st)"
proof (cases t)
  case TOKEN_TYPE_NORMAL
  show ?thesis
  proof (cases "config_stack st")
    case (Cons cur below)
    have "informs (directive_log (parent_tokens below) (last (tokens (last (statements cur)))) v (parsed_map st))"
      if "last_token_type st = TOKEN_TYPE_NORMAL" "statements cur \<noteq> []" "tokens (last (statements cur)) \<noteq> []"
        "\<forall>p \<in> set (take 1 below). statements p \<noteq> []"
    proof (cases below)
      case Nil
      show ?thesis
        by (rule iffD2 [OF informs_directive [where port = "parsed_port st"]])
           (use assms that TOKEN_TYPE_NORMAL Cons Nil in
            \<open>simp add: on_normal_def set_last_type_def parent_tokens_def Let_def split: option.splits\<close>)
    next
      case (Cons p ps)
      show ?thesis
        by (rule iffD2 [OF informs_directive [where port = "parsed_port st"]])
           (use assms that TOKEN_TYPE_NORMAL \<open>config_stack st = cur # below\<close> Cons in
            \<open>simp add: on_normal_def set_last_type_def parent_tokens_def Let_def split: option.splits\<close>)
    qed
    then show ?thesis using TOKEN_TYPE_NORMAL Cons by (simp add: normal_log_def)
  qed (simp add: TOKEN_TYPE_NORMAL normal_log_def)
next
  case TOKEN_TYPE_END_BLOCK
  then show ?thesis by (simp add: end_block_log_def split: list.split)
qed simp_all

section \<open>Locations\<close>

lemma length_map_assign:
  "map_ok m \<Longrightarrow> length (map_assign k v m) = (if map_find m k = None then Suc (length m) else length m)"
proof (induction m)
  case (Cons e m)
  then have "k < fst e \<Longrightarrow> map_find m k = None"
    by (force simp: map_ok_Cons map_of_eq_None_iff)
  with Cons show ?case by (cases e) (auto simp: map_ok_Cons)
qed simp

text \<open>A record of a new location.\<close>

definition is_new :: "log_entry \<Rightarrow> bool" where
  "is_new e \<longleftrightarrow> (\<exists>rest. snd e = map_location rest)"

lemma is_new_simps [simp]:
  "is_new (INFO (map_location loc @ msg))" "\<not> is_new (INFO (mapped_before loc @ msg))" "\<not> is_new (ERROR (CHR ''C'' # msg))"
  by (auto simp: is_new_def INFO_def ERROR_def map_location_def mapped_before_def)

text \<open>
  \<open>reports es m m'\<close>: the records \<open>es\<close> tell how \<open>m\<close> grew to \<open>m'\<close>, with one record for
  each new location.
\<close>

definition reports :: "log_entry list \<Rightarrow> addrmap \<Rightarrow> addrmap \<Rightarrow> bool" where
  "reports es m m' \<longleftrightarrow>
     (map_ok m \<longrightarrow>
        map_ok m' \<and> length m' = length m + length (filter is_new es) \<and>
        (\<forall>loc. map_find m loc = None \<longrightarrow> map_find m' loc \<noteq> None \<longrightarrow>
           (\<exists>msg. INFO (map_location loc @ msg) \<in> set es)))"

lemma reports_append:
  assumes es: "reports es m m'" and fs: "reports fs m' m''"
  shows "reports (es @ fs) m m''"
  unfolding reports_def
proof (intro impI conjI allI)
  assume ok: "map_ok m"
  then have ok': "map_ok m'" using es by (simp add: reports_def)
  show "map_ok m''" using fs ok' by (simp add: reports_def)
  show "length m'' = length m + length (filter is_new (es @ fs))"
    using es fs ok ok' by (simp add: reports_def)
  fix loc assume loc: "map_find m loc = None" "map_find m'' loc \<noteq> None"
  have "\<exists>msg. INFO (map_location loc @ msg) \<in> set es \<or> INFO (map_location loc @ msg) \<in> set fs"
  proof (cases "map_find m' loc")
    case None
    then show ?thesis using fs ok' loc(2) unfolding reports_def by blast
  next
    case (Some a)
    then have "map_find m' loc \<noteq> None" by simp
    then show ?thesis using es ok loc(1) unfolding reports_def by blast
  qed
  then show "\<exists>msg. INFO (map_location loc @ msg) \<in> set (es @ fs)" by simp
qed

lemma reports_nothing: "\<forall>e \<in> set es. \<not> is_new e \<Longrightarrow> reports es m m"
  by (simp add: reports_def)

lemma reports_assign:
  "map_find m loc = None \<Longrightarrow> reports [INFO (map_location loc @ msg)] m (map_assign loc a m)"
  "map_find m loc \<noteq> None \<Longrightarrow> reports [INFO (mapped_before loc @ msg)] m (map_assign loc a m)"
  by (auto simp: reports_def map_ok_assign map_find_assign length_map_assign split: if_splits)

lemma reports_bindings:
  "reports (root_log loc t token m) m (bind_root loc t token m)"
  "reports (api_key_log loc t m) m (bind_api_key loc t token m)"
  "reports (empty_block_log ts m) m (bind_empty_block ts m)"
proof -
  show "reports (root_log loc t token m) m (bind_root loc t token m)"
    by (cases "map_find m loc") (simp_all add: root_log_def bind_root_def map_insert_def reports_assign)
  show "reports (api_key_log loc t m) m (bind_api_key loc t token m)"
    by (cases "map_find m loc") (simp_all add: api_key_log_def bind_api_key_def map_insert_def reports_assign)
  show "reports (empty_block_log ts m) m (bind_empty_block ts m)"
    by (cases "map_find m (rev ts ! 1)")
       (simp_all add: empty_block_log_def bind_empty_block_def map_insert_def reports_assign reports_nothing Let_def)
qed

lemma safeport_not_new: "e \<in> set (safeportSTOI_log token) \<Longrightarrow> \<not> is_new e"
  by (auto simp: safeportSTOI_log_def is_new_def ERROR_def map_location_def Let_def split: sum.splits if_splits)

lemma reports_directive:
  "reports (directive_log parent lastoken token m) m
     (case apply_directive parent lastoken token (port, m) of None \<Rightarrow> m | Some (_, m') \<Rightarrow> m')"
proof (cases "lastoken = ''listen''")
  case True
  then have "(case apply_directive parent lastoken token (port, m) of None \<Rightarrow> m | Some (_, m') \<Rightarrow> m') = m"
    by (simp add: apply_directive_def Let_def)
  then show ?thesis using reports_nothing safeport_not_new True by (auto simp: directive_log_def)
next
  case False
  then show ?thesis using reports_bindings(1,2) reports_nothing [of "[]"]
    by (simp add: directive_log_def apply_directive_def split: prod.split)
qed

fun state_after :: "parse_step \<Rightarrow> parse_state" where
  "state_after (Loop st) = st"
| "state_after (Break st) = st"
| "state_after (Accept st) = st"
| "state_after (Fault st) = st"

lemma state_after_set_last [simp]: "parsed_map (state_after (set_last_type t r)) = parsed_map (state_after r)"
  by (cases r) (simp_all add: set_last_type_def)

text \<open>One round.\<close>

lemma normal_map:
  assumes st: "config_stack st = cur # below" "last_token_type st = TOKEN_TYPE_NORMAL" "statements cur \<noteq> []"
      "tokens (last (statements cur)) \<noteq> []" "\<forall>p \<in> set (take 1 below). statements p \<noteq> []"
  shows "parsed_map (state_after (on_normal v st)) =
    (case apply_directive (parent_tokens below) (last (tokens (last (statements cur)))) v
        (parsed_port st, parsed_map st) of None \<Rightarrow> parsed_map st | Some (_, m') \<Rightarrow> m')"
proof (cases below)
  case Nil
  then show ?thesis using st
    by (simp add: on_normal_def parent_tokens_def Let_def split: option.split prod.split)
next
  case (Cons p ps)
  then show ?thesis using st
    by (simp add: on_normal_def parent_tokens_def Let_def split: option.split prod.split)
qed

lemma normal_map_same:
  assumes "\<not> (\<exists>cur below. config_stack st = cur # below \<and> last_token_type st = TOKEN_TYPE_NORMAL \<and>
      statements cur \<noteq> [] \<and> tokens (last (statements cur)) \<noteq> [] \<and> (\<forall>p \<in> set (take 1 below). statements p \<noteq> []))"
  shows "parsed_map (state_after (on_normal v st)) = parsed_map st" and "normal_log v st = []"
  using assms by (auto simp: on_normal_def normal_log_def Let_def split: list.split)

lemma end_block_reports: "reports (end_block_log st) (parsed_map st) (parsed_map (state_after (on_end_block st)))"
proof -
  have pop: "config_stack (pop_config (st\<lparr>remaining_bracket := n\<rparr>)) = config_stack (pop_config st)"
    "parsed_map (pop_config (st\<lparr>remaining_bracket := n\<rparr>)) = parsed_map st" for n
    by (simp_all add: pop_config_def split: list.split)
  have empty: "config_stack (pop_config st) = []" if "config_stack st = []"
    using that by (simp add: pop_config_def)
  show ?thesis using reports_bindings(3) reports_nothing [of "[]"]
    by (simp add: end_block_log_def on_end_block_def Let_def pop empty split: list.split)
qed

lemma reports_token: "reports (token_log t v st) (parsed_map st) (parsed_map (state_after (parse_token_step t v st)))"
proof (cases t)
  case TOKEN_TYPE_NORMAL
  show ?thesis
  proof (cases "\<exists>cur below. config_stack st = cur # below \<and> last_token_type st = TOKEN_TYPE_NORMAL \<and>
      statements cur \<noteq> [] \<and> tokens (last (statements cur)) \<noteq> [] \<and> (\<forall>p \<in> set (take 1 below). statements p \<noteq> [])")
    case True
    then obtain cur below where st: "config_stack st = cur # below" "last_token_type st = TOKEN_TYPE_NORMAL"
        "statements cur \<noteq> []" "tokens (last (statements cur)) \<noteq> []"
        "\<forall>p \<in> set (take 1 below). statements p \<noteq> []" by blast
    then show ?thesis using reports_directive
      by (simp add: TOKEN_TYPE_NORMAL normal_map normal_log_def)
  next
    case False
    from normal_map_same [OF False] show ?thesis
      by (simp add: TOKEN_TYPE_NORMAL reports_nothing)
  qed
next
  case TOKEN_TYPE_END_BLOCK
  then show ?thesis using end_block_reports by simp
qed (simp_all add: on_start_block_def on_eof_def reports_nothing Let_def split: list.split)

lemma bad_transition_not_new: "\<not> is_new (bad_transition t u)"
  by (simp add: bad_transition_def)

lemma loop_reports: "reports (parse_loop_log i st) (parsed_map st) (parsed_map (snd (parse_loop i st)))"
proof (induction i st rule: parse_loop.induct)
  case (1 i st)
  obtain t v i' where tok: "ParseToken i = (t, v, i')" by (metis prod_cases3)
  note step = reports_token [of t v st]
  have bad: "reports [bad_transition a b] m m" for a b m
    by (rule reports_nothing) (simp add: bad_transition_not_new)
  show ?case
  proof (cases "parse_token_step t v st")
    case (Loop st')
    then show ?thesis using reports_append [OF step] "1.IH" [OF tok [symmetric] refl refl Loop]
      by (simp add: parse_loop_step [OF tok] parse_loop_log_step [OF tok])
  next
    case (Break st')
    then show ?thesis using reports_append [OF step bad]
      by (simp add: parse_loop_step [OF tok] parse_loop_log_step [OF tok])
  qed (use step in \<open>simp_all add: parse_loop_step [OF tok] parse_loop_log_step [OF tok]\<close>)
qed

section \<open>The records of a tree\<close>

fun run_log :: "lexeme list \<Rightarrow> parse_state \<Rightarrow> log_entry list" where
  "run_log [] st = []"
| "run_log ((t, v) # ls) st =
     token_log t v st @
     (case parse_token_step t v st of
        Loop st' \<Rightarrow> run_log ls st'
      | Break st' \<Rightarrow> [bad_transition (last_token_type st') t]
      | _ \<Rightarrow> [])"

lemma run_log_append:
  "run_log (ls @ ms) st = run_log ls st @ (case run_lexemes ls st of Loop st' \<Rightarrow> run_log ms st' | _ \<Rightarrow> [])"
  by (induction ls st rule: run_log.induct) (auto split: parse_step.splits)

lemma parse_loop_log_lexemes: "parse_loop_log (stream p s) st = run_log (text_lexemes s) st"
proof (induction s arbitrary: p st rule: text_lexemes.induct)
  case (1 s)
  obtain t v r where tok: "ref_token s = (t, v, r)" by (metis prod_cases3)
  note IH = "1.IH" [OF tok [symmetric] refl]
  show ?case
  proof (cases "t = TOKEN_TYPE_EOF \<or> t = TOKEN_TYPE_ERROR")
    case True
    obtain v' i where run: "ParseToken (stream p s) = (t, v', i)"
      using ParseToken_agrees [of s p] tok by (cases "ParseToken (stream p s)") auto
    show ?thesis using True parse_token_step_last [OF True, of v' st "[]"]
      by (auto simp: parse_loop_log_step [OF run] text_lexemes_step [OF tok] split: parse_step.splits)
  next
    case False
    then obtain p' where "ParseToken (stream p s) = (t, v, stream p' r)"
      using ParseToken_next [OF tok] by metis
    then show ?thesis using False IH
      by (auto simp: parse_loop_log_step text_lexemes_step [OF tok] split: parse_step.splits)
  qed
qed

text \<open>
  The lexeme at which the parser gives up, if it does: it goes on over the ones before, and
  then breaks off. The last of those before that is no comment gives the type it came from.
\<close>

definition gives_up_at :: "lexeme list \<Rightarrow> parse_state \<Rightarrow> lexeme list \<Rightarrow> lexeme \<Rightarrow> bool" where
  "gives_up_at ls st before l \<longleftrightarrow>
     (\<exists>after st1 st'. ls = before @ l # after \<and> run_lexemes before st = Loop st1 \<and>
        parse_token_step (fst l) (snd l) st1 = Break st')"

definition last_type :: "token_type \<Rightarrow> lexeme list \<Rightarrow> token_type" where
  "last_type t0 ls = last (t0 # filter (\<lambda>t. t \<noteq> TOKEN_TYPE_COMMENT) (map fst ls))"

lemma last_type_simps [simp]:
  "last_type t0 [] = t0"
  "last_type t0 ((t, v) # ls) = last_type (if t = TOKEN_TYPE_COMMENT then t0 else t) ls"
  by (simp_all add: last_type_def)

lemma set_last_type_Loop: "set_last_type t r = Loop st \<Longrightarrow> last_token_type st = t"
  by (cases r) (auto simp: set_last_type_def)

lemma set_last_type_Break: "set_last_type t r = Break st \<longleftrightarrow> r = Break st"
  by (cases r) (simp_all add: set_last_type_def)

lemma step_last_type:
  "parse_token_step t v st = Loop st' \<Longrightarrow>
     last_token_type st' = (if t = TOKEN_TYPE_COMMENT then last_token_type st else t)"
  by (cases t) (auto simp: on_eof_def dest: set_last_type_Loop split: if_splits)

lemma break_last_type: "parse_token_step t v st = Break st' \<Longrightarrow> last_token_type st' = last_token_type st"
  by (cases t)
     (auto simp: set_last_type_Break on_normal_def on_start_block_def on_end_block_def on_eof_def Let_def set_last_type_def
        split: if_splits list.splits option.splits prod.splits)

lemma run_log_ends:
  "case run_lexemes ls st of
     Break st' \<Rightarrow> \<exists>es before l. gives_up_at ls st before l \<and>
       run_log ls st = es @ [bad_transition (last_type (last_token_type st) before) (fst l)]
   | _ \<Rightarrow> informs (run_log ls st)"
proof (induction ls st rule: run_log.induct)
  case (2 t v ls st)
  show ?case
  proof (cases "parse_token_step t v st")
    case (Loop st1)
    then have inf: "informs (token_log t v st)" by (intro informs_token) simp
    show ?thesis
    proof (cases "run_lexemes ls st1")
      case (Break st')
      then obtain es before l where IH: "gives_up_at ls st1 before l"
        "run_log ls st1 = es @ [bad_transition (last_type (last_token_type st1) before) (fst l)]"
        using "2.IH" [OF Loop] by auto
      have up: "gives_up_at ((t, v) # ls) st ((t, v) # before) l" using IH(1) Loop by (auto simp: gives_up_at_def)
      have log: "run_log ((t, v) # ls) st =
          (token_log t v st @ es) @ [bad_transition (last_type (last_token_type st) ((t, v) # before)) (fst l)]"
        using IH(2) step_last_type [OF Loop] by (simp add: Loop)
      have "run_lexemes ((t, v) # ls) st = Break st'" by (simp add: Loop Break)
      then show ?thesis using up log by (simp only: parse_step.case) blast
    qed (use "2.IH" [OF Loop] Loop inf in simp_all)
  next
    case (Break st')
    then have "gives_up_at ((t, v) # ls) st [] (t, v)" by (simp add: gives_up_at_def)
    moreover have "run_log ((t, v) # ls) st = token_log t v st @ [bad_transition (last_type (last_token_type st) []) (fst (t, v))]"
      using break_last_type [OF Break] by (simp add: Break)
    moreover have "run_lexemes ((t, v) # ls) st = Break st'" by (simp add: Break)
    ultimately show ?thesis by (simp only: parse_step.case) blast
  next
    case (Accept st')
    then have "informs (token_log t v st)" by (intro informs_token) simp
    then show ?thesis using Accept by simp
  next
    case (Fault st')
    then have "informs (token_log t v st)" by (intro informs_token) simp
    then show ?thesis using Fault by simp
  qed
qed simp

lemma gives_up_Break: "gives_up_at ls st before l \<Longrightarrow> \<exists>st'. run_lexemes ls st = Break st'"
  by (cases l) (auto simp: gives_up_at_def run_lexemes_append)

text \<open>The lexemes of a text end the loop.\<close>

lemma lexemes_stop: "run_lexemes (text_lexemes s) st \<noteq> Loop st'"
proof (induction s arbitrary: st rule: text_lexemes.induct)
  case (1 s)
  obtain t v r where tok: "ref_token s = (t, v, r)" by (metis prod_cases3)
  show ?case
  proof (cases "t = TOKEN_TYPE_EOF \<or> t = TOKEN_TYPE_ERROR")
    case True
    then show ?thesis using parse_token_step_last [OF True, of v st v]
      by (auto simp: text_lexemes_step [OF tok] split: parse_step.split)
  next
    case False
    then show ?thesis using "1.IH" [OF tok [symmetric] refl False]
      by (simp add: text_lexemes_step [OF tok] split: parse_step.split)
  qed
qed

text \<open>
  The records a tree gives, by recursion over it as for its meaning. A port that is not valid
  ends it.
\<close>

fun log_tokens :: "string list \<Rightarrow> string \<Rightarrow> string list \<Rightarrow> int \<times> addrmap \<Rightarrow> log_entry list" where
  "log_tokens parent prev [] e = []"
| "log_tokens parent prev (t # ts) e =
     directive_log parent prev t (snd e) @
     (case apply_directive parent prev t e of
        None \<Rightarrow> [bad_transition TOKEN_TYPE_NORMAL TOKEN_TYPE_NORMAL]
      | Some e' \<Rightarrow> log_tokens parent t ts e')"

fun log_statement :: "string list \<Rightarrow> nginx_statement \<Rightarrow> int \<times> addrmap \<Rightarrow> log_entry list"
  and log_statements :: "string list \<Rightarrow> nginx_statement list \<Rightarrow> int \<times> addrmap \<Rightarrow> log_entry list"
where
  "log_statement parent (Statement ts child) e =
     log_tokens parent (hd ts) (tl ts) e @
     (case sem_tokens parent (hd ts) (tl ts) e of
        None \<Rightarrow> []
      | Some e1 \<Rightarrow>
          (case child of
             None \<Rightarrow> []
           | Some (Config ss) \<Rightarrow>
               if ss = [] then empty_block_log ts (snd e1) else log_statements ts ss e1))"
| "log_statements parent [] e = []"
| "log_statements parent (s # ss) e =
     log_statement parent s e @
     (case sem_statement parent s e of None \<Rightarrow> [] | Some e1 \<Rightarrow> log_statements parent ss e1)"

text \<open>Two runs in a row.\<close>

lemma run_log_bind:
  assumes "runs_to ls st e1 d1 P" and "run_log ls st = es"
    and "\<And>st' e. e1 = Some e \<Longrightarrow> P st' \<Longrightarrow> env_of st' = e \<Longrightarrow> run_log ms st' = g e"
  shows "run_log (ls @ ms) st = es @ (case e1 of None \<Rightarrow> [] | Some e \<Rightarrow> g e)"
  using assms by (auto simp: runs_to_def run_log_append split: option.splits)

lemma first_token_log: "at_block st ss below \<Longrightarrow> run_log [(TOKEN_TYPE_NORMAL, t)] st = []"
  by (auto simp: at_block_def normal_log_def on_normal_def new_statement_def set_last_type_def Let_def)

lemma next_token_log:
  assumes "in_statement st ss ts below"
  shows "run_log [(TOKEN_TYPE_NORMAL, t)] st =
    directive_log (parent_tokens below) (last ts) t (snd (env_of st)) @
    (if apply_directive (parent_tokens below) (last ts) t (env_of st) = None
     then [bad_transition TOKEN_TYPE_NORMAL TOKEN_TYPE_NORMAL] else [])"
  using assms
  by (cases below)
     (auto simp: in_statement_def normal_log_def on_normal_def set_last_type_def env_of_def parent_tokens_def Let_def
       split: option.splits)

lemma run_tokens_log:
  assumes "in_statement st ss ts below"
  shows "run_log (map (Pair TOKEN_TYPE_NORMAL) us) st = log_tokens (parent_tokens below) (last ts) us (env_of st)"
  using assms
proof (induction us arbitrary: st ts)
  case (Cons u us)
  have "run_log ([(TOKEN_TYPE_NORMAL, u)] @ map (Pair TOKEN_TYPE_NORMAL) us) st =
      run_log [(TOKEN_TYPE_NORMAL, u)] st @
      (case apply_directive (parent_tokens below) (last ts) u (env_of st) of
         None \<Rightarrow> [] | Some e \<Rightarrow> log_tokens (parent_tokens below) u us e)"
    by (rule run_log_bind [OF next_token [OF Cons.prems] refl]) (use Cons.IH in fastforce)
  then show ?case by (simp del: run_log.simps add: next_token_log [OF Cons.prems] split: option.split)
qed simp

lemma run_names_log:
  assumes "at_block st ss below" and "ts \<noteq> []"
  shows "run_log (map (Pair TOKEN_TYPE_NORMAL) ts) st = log_tokens (parent_tokens below) (hd ts) (tl ts) (env_of st)"
proof -
  obtain t us where ts: "ts = t # us" using assms(2) by (cases ts) auto
  have "run_log ([(TOKEN_TYPE_NORMAL, t)] @ map (Pair TOKEN_TYPE_NORMAL) us) st =
      [] @ (case Some (env_of st) of None \<Rightarrow> [] | Some e \<Rightarrow> log_tokens (parent_tokens below) t us e)"
    by (rule run_log_bind [OF first_token [OF assms(1)] first_token_log [OF assms(1)]])
       (use run_tokens_log in fastforce)
  then show ?thesis by (simp add: ts)
qed

lemma end_statement_log: "in_statement st ss ts below \<Longrightarrow> run_log [(TOKEN_TYPE_STATEMENT_END, v)] st = []"
  by (auto simp: in_statement_def set_last_type_def)

lemma open_block_log: "in_statement st ss ts below \<Longrightarrow> run_log [(TOKEN_TYPE_START_BLOCK, v)] st = []"
  by (auto simp: in_statement_def on_start_block_def set_last_type_def Let_def)

lemma close_block_log:
  assumes "at_block st cs (Config (ss @ [Statement ts c]) # below)"
    and "last_token_type st = TOKEN_TYPE_START_BLOCK \<longleftrightarrow> cs = []"
    and "last_token_type st \<noteq> TOKEN_TYPE_START"
  shows "run_log [(TOKEN_TYPE_END_BLOCK, v)] st = (if cs = [] then empty_block_log ts (snd (env_of st)) else [])"
  using assms
  by (auto simp: at_block_def set_last_type_def env_of_def on_end_block_def end_block_log_def set_last_child_def
      pop_config_def Let_def)

lemma run_block_log:
  assumes st: "in_statement st ss ts below" and cs: "wf_statements P cs"
    and inner: "\<And>st'. at_block st' [] (Config (ss @ [Statement ts (Some (Config []))]) # below) \<Longrightarrow>
        run_log (statements_lexemes cs) st' = log_statements ts cs (env_of st')"
  shows "run_log ((TOKEN_TYPE_START_BLOCK, v) # statements_lexemes cs @ [(TOKEN_TYPE_END_BLOCK, w)]) st =
    (if cs = [] then empty_block_log ts (snd (env_of st)) else log_statements ts cs (env_of st))"
proof -
  let ?below = "Config (ss @ [Statement ts (Some (Config []))]) # below"
  have parent: "parent_tokens ?below = ts" by (simp add: parent_tokens_def)
  have body: "run_log (statements_lexemes cs @ [(TOKEN_TYPE_END_BLOCK, w)]) st' =
      log_statements ts cs (env_of st') @ (case sem_statements ts cs (env_of st') of
         None \<Rightarrow> [] | Some e \<Rightarrow> if cs = [] then empty_block_log ts (snd e) else [])"
    if st': "at_block st' [] ?below" "last_token_type st' = TOKEN_TYPE_START_BLOCK" for st'
  proof (rule run_log_bind [OF run_tree(2) [OF st'(1) cs, unfolded parent] inner [OF st'(1)]])
    fix st2 e
    assume "block_done [] cs ?below (last_token_type st') st2" and e: "env_of st2 = e"
    then have "at_block st2 cs ?below" "last_token_type st2 = TOKEN_TYPE_START_BLOCK \<longleftrightarrow> cs = []"
        "last_token_type st2 \<noteq> TOKEN_TYPE_START" using st'(2) by (auto simp: block_done_def split: if_splits)
    from close_block_log [OF this] e
    show "run_log [(TOKEN_TYPE_END_BLOCK, w)] st2 = (if cs = [] then empty_block_log ts (snd e) else [])" by simp
  qed
  have "run_log ([(TOKEN_TYPE_START_BLOCK, v)] @ statements_lexemes cs @ [(TOKEN_TYPE_END_BLOCK, w)]) st =
      [] @ (case Some (env_of st) of None \<Rightarrow> [] | Some e \<Rightarrow>
        log_statements ts cs e @ (case sem_statements ts cs e of
         None \<Rightarrow> [] | Some e \<Rightarrow> if cs = [] then empty_block_log ts (snd e) else []))"
  proof (rule run_log_bind [OF open_block [OF st] open_block_log [OF st]])
    fix st' e assume "at_block st' [] ?below \<and> last_token_type st' = TOKEN_TYPE_START_BLOCK" "env_of st' = e"
    then show "run_log (statements_lexemes cs @ [(TOKEN_TYPE_END_BLOCK, w)]) st' =
        log_statements ts cs e @ (case sem_statements ts cs e of
         None \<Rightarrow> [] | Some e \<Rightarrow> if cs = [] then empty_block_log ts (snd e) else [])" using body by blast
  qed
  then show ?thesis by (cases "cs = []"; cases "sem_statements ts cs (env_of st)") simp_all
qed

lemma run_tree_log:
  shows "at_block st ss below \<Longrightarrow> wf_statement P s \<Longrightarrow>
           run_log (statement_lexemes s) st = log_statement (parent_tokens below) s (env_of st)"
    and "at_block st ss below \<Longrightarrow> wf_statements P cs \<Longrightarrow>
           run_log (statements_lexemes cs) st = log_statements (parent_tokens below) cs (env_of st)"
proof (induction s and cs arbitrary: st ss below and st ss below
    rule: statement_lexemes_statements_lexemes.induct)
  case (1 ts child)
  then have ts: "ts \<noteq> []" by simp
  show ?case unfolding statement_lexemes.simps log_statement.simps
  proof (rule run_log_bind [OF run_names [OF "1.prems"(1) ts] run_names_log [OF "1.prems"(1) ts]])
    fix st1 e1 assume st1: "in_statement st1 ss ts below" "env_of st1 = e1"
    show "run_log (case child of None \<Rightarrow> [(TOKEN_TYPE_STATEMENT_END, '';'')]
        | Some (Config ss) \<Rightarrow>
            (TOKEN_TYPE_START_BLOCK, ''{'') # statements_lexemes ss @ [(TOKEN_TYPE_END_BLOCK, ''}'')]) st1 =
      (case child of None \<Rightarrow> []
       | Some (Config ss) \<Rightarrow> if ss = [] then empty_block_log ts (snd e1) else log_statements ts ss e1)"
    proof (cases child)
      case None
      then show ?thesis using end_statement_log [OF st1(1)] by simp
    next
      case (Some c)
      obtain cs where c: "c = Config cs" by (cases c)
      have wf: "wf_statements P cs" using "1.prems"(2) Some c by simp
      have "run_log (statements_lexemes cs) st' = log_statements ts cs (env_of st')"
        if "at_block st' [] (Config (ss @ [Statement ts (Some (Config []))]) # below)" for st'
        using "1.IH" [OF Some c that wf] by (simp add: parent_tokens_def)
      from run_block_log [OF st1(1) wf this] show ?thesis using Some c st1(2) by simp
    qed
  qed
next
  case (3 s cs)
  have wf: "wf_statement P s" "wf_statements P cs" using "3.prems"(2) by simp_all
  show ?case unfolding statements_lexemes.simps log_statements.simps
  proof (rule run_log_bind [OF run_tree(1) [OF "3.prems"(1) wf(1)] "3.IH"(1) [OF "3.prems"(1) wf(1)]])
    fix st' e assume "block_done ss [s] below t st'" and e: "env_of st' = e"
    then have "at_block st' (ss @ [s]) below" by (simp add: block_done_def)
    from "3.IH"(2) [OF this wf(2)] e
    show "run_log (statements_lexemes cs) st' = log_statements (parent_tokens below) cs e" by simp
  qed
qed simp

lemma tree_log:
  assumes "tree_text s c"
  shows "Parse_log (open_stream s) (Config []) m = log_statements [] (statements c) (-1, m)"
proof -
  let ?init = "parse_init (Config []) m" and ?eof = "[(TOKEN_TYPE_EOF, [])] :: lexeme list"
  obtain ss where c: "c = Config ss" by (cases c)
  have ls: "text_lexemes s = statements_lexemes ss @ ?eof" "ss \<noteq> []" "wf_statements (\<lambda>t. t \<noteq> []) ss"
    using assms by (simp_all add: tree_text_def c)
  have env: "env_of ?init = (-1, m)" "parent_tokens [] = []" "remaining_bracket ?init = 0"
    by (simp_all add: env_of_def parse_init_def parent_tokens_def)
  have run: "runs_to (statements_lexemes ss) ?init (sem_statements [] ss (-1, m)) 0
      (block_done [] ss [] (last_token_type ?init))"
    using run_tree(2) [OF at_block_start ls(3), of m] env by simp
  have ended: "run_log ?eof st = []" if "block_done [] ss [] (last_token_type ?init) st" "remaining_bracket st = 0" for st
    using that ls(2) by (auto simp: block_done_def on_eof_def)
  have "run_log (statements_lexemes ss @ ?eof) ?init = log_statements [] ss (-1, m)"
    using run run_tree_log(2) [OF at_block_start ls(3), of m] ended env
    by (auto simp: runs_to_def run_log_append simp del: run_log.simps split: option.splits)
  then show ?thesis by (simp add: Parse_log_def open_stream_def parse_loop_log_lexemes ls(1) c)
qed

section \<open>API keys\<close>

text \<open>
  Two trees that differ in the words after \<open>api-key\<close> only, where these words are no
  directives themselves and do not stand before a block.
\<close>

fun same_words :: "string \<Rightarrow> string list \<Rightarrow> string list \<Rightarrow> bool" where
  "same_words prev [] [] \<longleftrightarrow> True"
| "same_words prev (t # ts) (u # us) \<longleftrightarrow>
     (t = u \<or> prev = ''api-key'' \<and> \<not> is_directive t \<and> \<not> is_directive u) \<and> same_words t ts us"
| "same_words prev _ _ \<longleftrightarrow> False"

fun statement_but_keys :: "nginx_statement \<Rightarrow> nginx_statement \<Rightarrow> bool"
  and statements_but_keys :: "nginx_statement list \<Rightarrow> nginx_statement list \<Rightarrow> bool"
where
  "statement_but_keys (Statement ts c) (Statement us d) \<longleftrightarrow>
     ts \<noteq> [] \<and> us \<noteq> [] \<and> hd ts = hd us \<and> same_words (hd ts) (tl ts) (tl us) \<and>
     (case (c, d) of
        (None, None) \<Rightarrow> True
      | (Some (Config ss), Some (Config rs)) \<Rightarrow> ts = us \<and> statements_but_keys ss rs
      | _ \<Rightarrow> False)"
| "statements_but_keys [] [] \<longleftrightarrow> True"
| "statements_but_keys (s # ss) (r # rs) \<longleftrightarrow> statement_but_keys s r \<and> statements_but_keys ss rs"
| "statements_but_keys _ _ \<longleftrightarrow> False"

definition hide_keys :: "addrmap \<Rightarrow> addrmap" where
  "hide_keys m = map (map_prod id (\<lambda>a. a\<lparr>api_key := []\<rparr>)) m"

definition hide_env :: "int \<times> addrmap \<Rightarrow> int \<times> addrmap" where
  "hide_env = map_prod id hide_keys"

lemma hide_env_Pair [simp]: "hide_env (p, m) = (p, hide_keys m)"
  by (simp add: hide_env_def)

lemma hide_keys_find: "map_find (hide_keys m) l = map_option (\<lambda>a. a\<lparr>api_key := []\<rparr>) (map_find m l)"
  by (induction m) (auto simp: hide_keys_def)

lemma hide_keys_unknown [simp]: "map_find (hide_keys m) l = None \<longleftrightarrow> map_find m l = None"
  by (simp add: hide_keys_find)

lemma hide_keys_assign: "hide_keys (map_assign l a m) = map_assign l (a\<lparr>api_key := []\<rparr>) (hide_keys m)"
  by (induction m) (auto simp: hide_keys_def)

lemma default_arg_hidden [simp]: "default_arg\<lparr>api_key := []\<rparr> = default_arg"
  by (simp add: default_arg_def)

lemma key_updates [simp]:
  "a\<lparr>handler_type := t, location := l, root := r, api_key := k\<rparr> = a\<lparr>api_key := k, handler_type := t, location := l, root := r\<rparr>"
  "a\<lparr>handler_type := t, location := l, api_key := k\<rparr> = a\<lparr>api_key := k, handler_type := t, location := l\<rparr>"
  by (cases a; simp)+

lemma hide_keys_bind:
  "hide_keys (bind_root l t r m) = bind_root l t r (hide_keys m)"
  "hide_keys (bind_api_key l t k m) = bind_api_key l t [] (hide_keys m)"
  "hide_keys (bind_empty_block ts m) = bind_empty_block ts (hide_keys m)"
  by (auto simp: bind_root_def bind_api_key_def bind_empty_block_def map_insert_def hide_keys_assign hide_keys_find
      default_arg_def Let_def split: option.split)

lemma log_hidden:
  "root_log l t r (hide_keys m) = root_log l t r m"
  "api_key_log l t (hide_keys m) = api_key_log l t m"
  "empty_block_log ts (hide_keys m) = empty_block_log ts m"
  by (simp_all add: root_log_def api_key_log_def empty_block_log_def Let_def)

text \<open>The word after \<open>api-key\<close> does not matter, nor do the keys bound before.\<close>

lemma same_directive:
  assumes "hide_env e = hide_env f" and "t = u \<or> prev = ''api-key''"
  shows "directive_log parent prev t (snd e) = directive_log parent prev u (snd f)"
    and "map_option hide_env (apply_directive parent prev t e) = map_option hide_env (apply_directive parent prev u f)"
proof -
  have m: "hide_keys (snd e) = hide_keys (snd f)" "fst e = fst f"
    using assms(1) by (cases e; cases f; simp)+
  have "root_log l ty r (snd e) = root_log l ty r (snd f)" "api_key_log l ty (snd e) = api_key_log l ty (snd f)" for l ty r
    using log_hidden(1) [of l ty r "snd e"] log_hidden(1) [of l ty r "snd f"]
      log_hidden(2) [of l ty "snd e"] log_hidden(2) [of l ty "snd f"] m by simp_all
  then show "directive_log parent prev t (snd e) = directive_log parent prev u (snd f)"
    using assms(2) by (auto simp: directive_log_def split: prod.split)
  have "hide_keys (bind_root l ty r (snd e)) = hide_keys (bind_root l ty r (snd f))"
    "hide_keys (bind_api_key l ty k (snd e)) = hide_keys (bind_api_key l ty k' (snd f))" for l ty r k k'
    by (simp_all add: hide_keys_bind m)
  then show "map_option hide_env (apply_directive parent prev t e) = map_option hide_env (apply_directive parent prev u f)"
    using assms(2) m by (cases e; cases f) (auto simp: apply_directive_def Let_def split: prod.split)
qed

lemma no_directive:
  assumes "\<not> is_directive prev"
  shows "directive_log parent prev t m = []" and "apply_directive parent prev t e = Some e"
  using assms by (cases e, auto simp: directive_log_def apply_directive_def is_directive_def split: prod.split)+

lemma same_tokens:
  assumes "same_words prev ts us" and "prev = prev' \<or> \<not> is_directive prev \<and> \<not> is_directive prev'"
    and "hide_env e = hide_env f"
  shows "log_tokens parent prev ts e = log_tokens parent prev' us f \<and>
    map_option hide_env (sem_tokens parent prev ts e) = map_option hide_env (sem_tokens parent prev' us f)"
  using assms
proof (induction prev ts us arbitrary: prev' e f rule: same_words.induct)
  case (2 prev t ts u us)
  have next_word: "t = u \<or> \<not> is_directive t \<and> \<not> is_directive u" and words: "same_words t ts us"
    using "2.prems"(1) by auto
  have step: "directive_log parent prev t (snd e) = directive_log parent prev' u (snd f)"
    "map_option hide_env (apply_directive parent prev t e) = map_option hide_env (apply_directive parent prev' u f)"
  proof -
    consider (same) "prev = prev'" "t = u \<or> prev = ''api-key''" | (none) "\<not> is_directive prev" "\<not> is_directive prev'"
      using "2.prems"(1,2) by auto
    then have "directive_log parent prev t (snd e) = directive_log parent prev' u (snd f) \<and>
      map_option hide_env (apply_directive parent prev t e) = map_option hide_env (apply_directive parent prev' u f)"
    proof cases
      case same
      then show ?thesis using same_directive [OF "2.prems"(3)] by blast
    next
      case none
      then show ?thesis using "2.prems"(3) by (simp add: no_directive)
    qed
    then show "directive_log parent prev t (snd e) = directive_log parent prev' u (snd f)"
      "map_option hide_env (apply_directive parent prev t e) = map_option hide_env (apply_directive parent prev' u f)"
      by simp_all
  qed
  show ?case
  proof (cases "apply_directive parent prev t e")
    case None
    then show ?thesis using step by simp
  next
    case (Some e1)
    then obtain f1 where f1: "apply_directive parent prev' u f = Some f1" "hide_env e1 = hide_env f1"
      using step(2) by (cases "apply_directive parent prev' u f") simp_all
    from "2.IH" [OF words next_word f1(2)] show ?thesis using Some f1(1) step(1) by simp
  qed
qed simp_all

lemma same_empty_block:
  assumes "hide_env e = hide_env f"
  shows "empty_block_log ts (snd e) = empty_block_log ts (snd f)"
    and "hide_env (fst e, bind_empty_block ts (snd e)) = hide_env (fst f, bind_empty_block ts (snd f))"
  using assms log_hidden(3) [of ts "snd e"] log_hidden(3) [of ts "snd f"]
  by (cases e; cases f; simp add: hide_keys_bind)+

lemma same_result:
  assumes "map_option hide_env x = map_option hide_env y" and "x = Some e"
  obtains f where "y = Some f" and "hide_env e = hide_env f"
  using assms by (cases y) auto

lemma same_child:
  assumes "statement_but_keys (Statement ts c) (Statement us d)"
  obtains "c = None" and "d = None"
  | ss rs where "c = Some (Config ss)" and "d = Some (Config rs)" and "ts = us" and "statements_but_keys ss rs"
      and "ss = [] \<longleftrightarrow> rs = []"
proof -
  have "ss = [] \<longleftrightarrow> rs = []" if "statements_but_keys ss rs" for ss rs
    using that by (cases ss; cases rs) simp_all
  then show thesis using assms that
    by (cases d; cases "the d") (auto split: option.splits nginx_config.splits)
qed

lemma same_tree:
  shows "statement_but_keys s r \<Longrightarrow> hide_env e = hide_env f \<Longrightarrow>
      log_statement parent s e = log_statement parent r f \<and>
      map_option hide_env (sem_statement parent s e) = map_option hide_env (sem_statement parent r f)"
    and "statements_but_keys ss rs \<Longrightarrow> hide_env e = hide_env f \<Longrightarrow>
      log_statements parent ss e = log_statements parent rs f \<and>
      map_option hide_env (sem_statements parent ss e) = map_option hide_env (sem_statements parent rs f)"
proof (induction s r and ss rs arbitrary: parent e f and parent e f
    rule: statement_but_keys_statements_but_keys.induct)
  case (1 ts c us d)
  have words: "hd ts = hd us" and same: "same_words (hd ts) (tl ts) (tl us)"
    using "1.prems"(1) unfolding statement_but_keys.simps by blast+
  note toks = same_tokens [OF same disjI1 [OF refl] "1.prems"(2), of parent]
  show ?case
  proof (cases "sem_tokens parent (hd ts) (tl ts) e")
    case None
    then show ?thesis using toks words by simp
  next
    case (Some e1)
    obtain f1 where f1: "sem_tokens parent (hd us) (tl us) f = Some f1" "hide_env e1 = hide_env f1"
      using same_result [OF conjunct2 [OF toks] Some] words by metis
    show ?thesis
    proof (rule same_child [OF "1.prems"(1)])
      assume "c = None" "d = None"
      then show ?thesis using Some f1 toks words by simp
    next
      fix ss rs assume c: "c = Some (Config ss)" and d: "d = Some (Config rs)"
        and block: "ts = us" "statements_but_keys ss rs" "ss = [] \<longleftrightarrow> rs = []"
      then show ?thesis
        using Some f1 toks same_empty_block [OF f1(2), of us] "1.IH" [OF refl c refl d refl block(2) f1(2), of us] by simp
    qed
  qed
next
  case (3 s ss r rs)
  have one: "log_statement parent s e = log_statement parent r f"
    "map_option hide_env (sem_statement parent s e) = map_option hide_env (sem_statement parent r f)"
    using "3.IH"(1) "3.prems" by simp_all
  show ?case
  proof (cases "sem_statement parent s e")
    case None
    then show ?thesis using one by simp
  next
    case (Some e1)
    from same_result [OF one(2) Some] "3.IH"(2) [of e1] "3.prems"(1) one(1) Some show ?thesis by fastforce
  qed
qed simp_all

section \<open>How the records end\<close>

lemma Parse_log_ends:
  "case fst (Parse (open_stream s) config m) of
     Inr False \<Rightarrow> \<exists>es before l. gives_up_at (text_lexemes s) (parse_init config m) before l \<and>
       Parse_log (open_stream s) config m = es @ [bad_transition (last_type TOKEN_TYPE_START before) (fst l)]
   | _ \<Rightarrow> informs (Parse_log (open_stream s) config m) \<and>
       (\<forall>before l. \<not> gives_up_at (text_lexemes s) (parse_init config m) before l)"
proof -
  let ?run = "run_lexemes (text_lexemes s) (parse_init config m)"
  have start: "last_token_type (parse_init config m) = TOKEN_TYPE_START" by (simp add: parse_init_def)
  have "fst (Parse (open_stream s) config m) = fst (loop_result ?run)"
    by (simp add: Parse_def open_stream_def parse_loop_lexemes case_prod_beta)
  moreover have "Parse_log (open_stream s) config m = run_log (text_lexemes s) (parse_init config m)"
    by (simp add: Parse_log_def open_stream_def parse_loop_log_lexemes)
  moreover have "\<forall>st'. ?run \<noteq> Loop st'" using lexemes_stop by blast
  moreover have "(\<forall>st'. ?run \<noteq> Break st') \<longrightarrow> (\<forall>before l. \<not> gives_up_at (text_lexemes s) (parse_init config m) before l)"
    using gives_up_Break by blast
  ultimately show ?thesis using run_log_ends [of "text_lexemes s" "parse_init config m"]
    by (cases ?run) (simp_all add: start)
qed

section \<open>Properties\<close>

text \<open>C31: \<open>Parse\<close> returns false exactly when one of the lexemes of the text makes it give up; then
  its last record is an error with the type of that lexeme, and before it the type of the last
  lexeme that was no comment (or that of the start, if there was none). When it returns true,
  or runs into undefined behaviour, it has only reported what it bound.\<close>

theorem parse_errors_logged:
  "case fst (Parse (open_stream s) config m) of
     Inr False \<Rightarrow> \<exists>es before l. gives_up_at (text_lexemes s) (parse_init config m) before l \<and>
       Parse_log (open_stream s) config m = es @ [bad_transition (last_type TOKEN_TYPE_START before) (fst l)]
   | _ \<Rightarrow> informs (Parse_log (open_stream s) config m) \<and>
       (\<forall>before l. \<not> gives_up_at (text_lexemes s) (parse_init config m) before l)"
  by (rule Parse_log_ends)

text \<open>Every location that the parser adds to the address map is reported, by exactly one
  record of a new location for each.\<close>

theorem locations_logged:
  assumes "map_ok m" and "Parse config_file config m = (r, c, port, m')"
  shows "length m' = length m + length (filter is_new (Parse_log config_file config m)) \<and>
    (\<forall>loc. map_find m loc = None \<longrightarrow> map_find m' loc \<noteq> None \<longrightarrow>
       (\<exists>msg. INFO (map_location loc @ msg) \<in> set (Parse_log config_file config m)))"
  using loop_reports [of config_file "parse_init config m"] assms
  by (auto simp: Parse_def Parse_log_def case_prod_beta reports_def parse_init_def)

text \<open>C30: where the records of the parser show no API key. Take two configurations written in the
  grammar of trees that differ only in words after \<open>api-key\<close>, where these words are no
  directives themselves and the statements they are in have no block. They give the same
  records, the same result and the same port, and address maps that differ in the keys only.
  (Without these conditions keys are shown, see \<open>key_before_block_logged\<close>.)\<close>

theorem parser_hides_keys:
  assumes "tree_text s c" and "tree_text s' c'" and "statements_but_keys (statements c) (statements c')"
  shows "Parse_log (open_stream s) (Config []) [] = Parse_log (open_stream s') (Config []) [] \<and>
    (case (Parse (open_stream s) (Config []) [], Parse (open_stream s') (Config []) []) of
       ((r, _, port, m), (r', _, port', m')) \<Rightarrow>
         r = r' \<and> (r = Inr True \<longrightarrow> port = port' \<and> hide_keys m = hide_keys m'))"
proof -
  have same: "log_statements [] (statements c) (-1, []) = log_statements [] (statements c') (-1, [])"
    "map_option hide_env (sem_config c (-1, [])) = map_option hide_env (sem_config c' (-1, []))"
    using same_tree(2) [OF assms(3) refl, of "[]" "(-1, [])"] by (simp_all add: sem_config_def)
  show ?thesis
  proof (cases "sem_config c (-1, [])")
    case None
    then show ?thesis using same tree_run [OF assms(1), of "[]"] tree_run [OF assms(2), of "[]"]
      by (auto simp: tree_log [OF assms(1)] tree_log [OF assms(2)] Parse_lexemes)
  next
    case (Some e)
    then obtain f where "sem_config c' (-1, []) = Some f" "hide_env e = hide_env f"
      using same(2) by (cases "sem_config c' (-1, [])") simp_all
    then show ?thesis using Some same(1) tree_run [OF assms(1), of "[]"] tree_run [OF assms(2), of "[]"]
      by (auto simp: tree_log [OF assms(1)] tree_log [OF assms(2)] Parse_lexemes hide_env_def map_prod_def)
  qed
qed

text \<open>The texts of the witnesses: a text generation location with a key.\<close>

definition key_text :: "char \<Rightarrow> string" where
  "key_text k = ''location /t T{api-key '' @ [k] @ '';}''"

definition key_tree :: "char \<Rightarrow> nginx_config" where
  "key_tree k = Config [Statement [''location'', ''/t'', ''T''] (Some (Config [Statement [''api-key'', [k]] None]))]"

lemma key_text_tree: "k \<in> {CHR ''A'', CHR ''B''} \<Longrightarrow> tree_text (key_text k) (key_tree k)"
proof -
  assume k: "k \<in> {CHR ''A'', CHR ''B''}"
  have toks: "ref_token ''location /t T{api-key A;}'' = (TOKEN_TYPE_NORMAL, ''location'', '' /t T{api-key A;}'')"
    "ref_token ''location /t T{api-key B;}'' = (TOKEN_TYPE_NORMAL, ''location'', '' /t T{api-key B;}'')"
    "ref_token '' /t T{api-key A;}'' = (TOKEN_TYPE_NORMAL, ''/t'', '' T{api-key A;}'')"
    "ref_token '' /t T{api-key B;}'' = (TOKEN_TYPE_NORMAL, ''/t'', '' T{api-key B;}'')"
    "ref_token '' T{api-key A;}'' = (TOKEN_TYPE_NORMAL, ''T'', ''{api-key A;}'')"
    "ref_token '' T{api-key B;}'' = (TOKEN_TYPE_NORMAL, ''T'', ''{api-key B;}'')"
    "ref_token ''{api-key A;}'' = (TOKEN_TYPE_START_BLOCK, ''{'', ''api-key A;}'')"
    "ref_token ''{api-key B;}'' = (TOKEN_TYPE_START_BLOCK, ''{'', ''api-key B;}'')"
    "ref_token ''api-key A;}'' = (TOKEN_TYPE_NORMAL, ''api-key'', '' A;}'')"
    "ref_token ''api-key B;}'' = (TOKEN_TYPE_NORMAL, ''api-key'', '' B;}'')"
    "ref_token '' A;}'' = (TOKEN_TYPE_NORMAL, ''A'', '';}'')" "ref_token '' B;}'' = (TOKEN_TYPE_NORMAL, ''B'', '';}'')"
    "ref_token '';}'' = (TOKEN_TYPE_STATEMENT_END, '';'', ''}'')" "ref_token ''}'' = (TOKEN_TYPE_END_BLOCK, ''}'', [])"
    by (simp_all add: ref_token_def ref_run_def ends_token_def blank_def)
  show ?thesis using k
    by (auto simp: tree_text_def key_text_def key_tree_def text_lexemes.simps toks sample_tokens)
qed

lemma parser_hides_keys_witness:
  "Parse_log (open_stream (key_text (CHR ''A''))) (Config []) [] =
     Parse_log (open_stream (key_text (CHR ''B''))) (Config []) []"
proof -
  have "statements_but_keys (statements (key_tree (CHR ''A''))) (statements (key_tree (CHR ''B'')))"
    by (simp add: key_tree_def is_directive_def)
  from parser_hides_keys [OF key_text_tree key_text_tree this] show ?thesis by simp
qed

lemma locations_logged_witness:
  "\<exists>msg. INFO (map_location ''/t'' @ msg) \<in> set (Parse_log (open_stream (key_text (CHR ''A''))) (Config []) [])"
proof -
  have "sem_config (key_tree (CHR ''A'')) (-1, []) =
      Some (-1, [(''/t'', \<lparr>handler_type = ''T'', location = ''/t'', root = [], api_key = ''A''\<rparr>)])"
    by (simp add: sem_config_def key_tree_def apply_directive_def location_of_def bind_api_key_def map_insert_def
        default_arg_def eval_nat_numeral)
  with tree_run [OF key_text_tree, of "CHR ''A''" "[]"]
  obtain c where "Parse (open_stream (key_text (CHR ''A''))) (Config []) [] =
      (Inr True, c, -1, [(''/t'', \<lparr>handler_type = ''T'', location = ''/t'', root = [], api_key = ''A''\<rparr>)])"
    by (auto simp: Parse_lexemes)
  from locations_logged [OF _ this] show ?thesis by simp
qed

text \<open>A key in a statement that starts with \<open>location\<close> and has an empty block is taken for a type of
  handler, too, and is written to the log.\<close>

theorem key_before_block_logged:
  assumes "tree_text s (Config [Statement [''location'', l, t]
      (Some (Config [Statement [''location'', ''api-key'', k] (Some (Config []))]))])" and "\<not> is_directive l"
  shows "INFO (map_location ''api-key'' @ '' with empty root and type of handler: '' @ k @ line_feed) \<in>
      set (Parse_log (open_stream s) (Config []) []) \<and>
    (\<exists>c port m a. Parse (open_stream s) (Config []) [] = (Inr True, c, port, m) \<and> map_find m l = Some a \<and> api_key a = k)"
proof -
  let ?m = "map_assign l \<lparr>handler_type = t, location = l, root = [], api_key = k\<rparr> []"
  let ?m1 = "map_assign ''api-key'' \<lparr>handler_type = k, location = ''api-key'', root = [], api_key = []\<rparr> ?m"
  let ?c = "Config [Statement [''location'', l, t] (Some (Config [Statement [''location'', ''api-key'', k] (Some (Config []))]))]"
  have words: "l \<noteq> []" "t \<noteq> []" using assms(1) by (simp_all add: tree_text_def)
  have other: "''api-key'' \<noteq> l" "l \<noteq> ''api-key''" using assms(2) by (auto simp: is_directive_def)
  have sem: "sem_config ?c (-1, []) = Some (-1, ?m1)" using words other assms(2)
    by (simp add: is_directive_def sem_config_def apply_directive_def location_of_def bind_api_key_def bind_empty_block_def
        map_insert_def default_arg_def eval_nat_numeral Let_def)
  have "INFO (map_location ''api-key'' @ '' with empty root and type of handler: '' @ k @ line_feed) \<in>
      set (log_statements [] (statements ?c) (-1, []))" using words other assms(2)
    by (simp add: is_directive_def apply_directive_def location_of_def bind_api_key_def map_insert_def default_arg_def directive_log_def
        eval_nat_numeral empty_block_log_def Let_def)
  moreover from tree_run [OF assms(1), of "[]"] sem obtain c where
    "Parse (open_stream s) (Config []) [] = (Inr True, c, -1, ?m1)" by (auto simp: Parse_lexemes)
  moreover have "map_find ?m1 l = Some \<lparr>handler_type = t, location = l, root = [], api_key = k\<rparr>"
    using other by (simp add: map_find_assign)
  ultimately show ?thesis unfolding tree_log [OF assms(1)] by fastforce
qed

lemma key_before_block_logged_witness:
  "INFO (map_location ''api-key'' @ '' with empty root and type of handler: '' @ ''KEY'' @ line_feed) \<in>
     set (Parse_log (open_stream ''location /t T{location api-key KEY{}}'') (Config []) [])"
proof -
  have toks: "ref_token ''location /t T{location api-key KEY{}}'' = (TOKEN_TYPE_NORMAL, ''location'', '' /t T{location api-key KEY{}}'')"
    "ref_token '' /t T{location api-key KEY{}}'' = (TOKEN_TYPE_NORMAL, ''/t'', '' T{location api-key KEY{}}'')"
    "ref_token '' T{location api-key KEY{}}'' = (TOKEN_TYPE_NORMAL, ''T'', ''{location api-key KEY{}}'')"
    "ref_token ''{location api-key KEY{}}'' = (TOKEN_TYPE_START_BLOCK, ''{'', ''location api-key KEY{}}'')"
    "ref_token ''location api-key KEY{}}'' = (TOKEN_TYPE_NORMAL, ''location'', '' api-key KEY{}}'')"
    "ref_token '' api-key KEY{}}'' = (TOKEN_TYPE_NORMAL, ''api-key'', '' KEY{}}'')"
    "ref_token '' KEY{}}'' = (TOKEN_TYPE_NORMAL, ''KEY'', ''{}}'')"
    "ref_token ''{}}'' = (TOKEN_TYPE_START_BLOCK, ''{'', ''}}'')"
    "ref_token ''}}'' = (TOKEN_TYPE_END_BLOCK, ''}'', ''}'')" "ref_token ''}'' = (TOKEN_TYPE_END_BLOCK, ''}'', [])"
    by (simp_all add: ref_token_def ref_run_def ends_token_def blank_def)
  have "tree_text ''location /t T{location api-key KEY{}}'' (Config [Statement [''location'', ''/t'', ''T'']
      (Some (Config [Statement [''location'', ''api-key'', ''KEY''] (Some (Config []))]))])"
    by (simp add: tree_text_def text_lexemes.simps toks sample_tokens)
  from key_before_block_logged [OF this] show ?thesis by (simp add: is_directive_def)
qed

end
