(* ===== verification/Handler_Log.thy ===== *)
theory Handler_Log
  imports Log_Records Factory Text_Gen_Store
begin

text \<open>
  The records the handlers and their factories write, beside the definitions of what they do:
  the helpers of the base class (\<open>src/request_handler.cc\<close>), the handlers
  (\<open>src/request_handler_*.cc\<close>) and \<open>src/request_handler_factory.cc\<close>. A call that ends in an
  exception has written what it wrote before.
\<close>

section \<open>The base class\<close>

text \<open>Most messages start with the address of the client.\<close>

definition from_client :: "handler \<Rightarrow> string \<Rightarrow> string" where
  "from_client h msg = client_ip h @ '': '' @ msg"

definition read_from_file_log :: "('fs, 'j) world \<Rightarrow> handler \<Rightarrow> string \<Rightarrow> 'fs \<Rightarrow> log_entry list" where
  "read_from_file_log E h path fs =
     (if fs_opens E fs path
      then [INFO (from_client h (''reading data at path: '' @ path @ '' ...'' @ line_feed))] else [])"

definition create_dir_log :: "('fs, 'j) world \<Rightarrow> handler \<Rightarrow> string \<Rightarrow> 'fs \<Rightarrow> log_entry list" where
  "create_dir_log E h path fs =
     (if fs_exists E fs path \<and> fs_is_directory E fs path then []
      else case fs_create_directory E fs path of
             None \<Rightarrow> [INFO (from_client h (''unable to create directory for '' @ path @ line_feed))]
           | Some fs' \<Rightarrow> [INFO (from_client h (''created directory: '' @ path @ line_feed))])"

definition check_request_url_log :: "handler \<Rightarrow> string \<Rightarrow> log_entry list" where
  "check_request_url_log h url =
     [INFO (from_client h (''prefix is: '' @ (prefix h @ ''/'') @ ''  url is: '' @ url))]"

section \<open>Static files, echo, health, not found and block\<close>

definition static_log :: "('fs, 'j) world \<Rightarrow> handler \<Rightarrow> 'fs \<Rightarrow> request \<Rightarrow> log_entry list" where
  "static_log E h fs req =
     INFO (from_client h (''Using static request handler'' @ line_feed)) #
     (case static_path h (req_target req) of
        None \<Rightarrow> []
      | Some path \<Rightarrow>
          INFO (from_client h (''Static request: trying to find: '' @ path @ line_feed)) #
          (if fs_opens E fs path then
             INFO (from_client h (''Reading data...'' @ line_feed)) #
             (case read_stream E path fs of
                Inl e \<Rightarrow> []
              | Inr content \<Rightarrow> [INFO (from_client h (''Finish Setting Response'' @ line_feed))])
           else [INFO (from_client h (''Static request: cannot find requested file: '' @ path @ line_feed))]))"

definition echo_log :: "handler \<Rightarrow> log_entry list" where
  "echo_log h = [INFO (from_client h (''Using echo request handler'' @ line_feed))]"

definition health_log :: "handler \<Rightarrow> log_entry list" where
  "health_log h = [INFO (from_client h (''Using heath request handler'' @ line_feed))]"

definition not_found_log :: "handler \<Rightarrow> log_entry list" where
  "not_found_log h = [INFO (from_client h (''Using not_found request handler'' @ line_feed))]"

definition block_log :: "handler \<Rightarrow> request \<Rightarrow> log_entry list" where
  "block_log h req =
     [INFO (from_client h (''Using block request handler to block '' @ to_string (block_time (req_target req)) @
        ''s'' @ line_feed))]"

section \<open>CRUD\<close>

definition created_log :: "handler \<Rightarrow> int \<Rightarrow> string \<Rightarrow> log_entry list" where
  "created_log h n entity =
     [INFO (from_client h (''created id '' @ to_string n @ '' for entity '' @ entity @ line_feed))]"

definition unprocessable_entity_log :: "handler \<Rightarrow> string \<Rightarrow> log_entry list" where
  "unprocessable_entity_log h path =
     [INFO (from_client h (''cannot create directory '' @ path @ line_feed))]"

definition internal_server_error_log :: "handler \<Rightarrow> string \<Rightarrow> log_entry list" where
  "internal_server_error_log h path =
     [INFO (from_client h (''cannot perform file operation at '' @ path @ line_feed))]"

definition post_log :: "('fs, 'j) world \<Rightarrow> handler \<Rightarrow> string \<Rightarrow> request \<Rightarrow> 'fs \<times> ids \<Rightarrow> log_entry list" where
  "post_log E h suffix req s =
     (case s of (fs, m) \<Rightarrow>
        let path = dir h @ ''/'' @ suffix;
            (made, fs1) = (if map_find m suffix = None then create_dir E path fs else (True, fs)) in
        (if map_find m suffix = None then create_dir_log E h path fs else []) @
        (if \<not> made then unprocessable_entity_log h path
         else
           let n = fst (get_next_id suffix m);
               written = fst (write_to_file E (path @ ''/'' @ to_string n) (req_body req) fs1) in
           if written then created_log h n suffix
           else internal_server_error_log h (suffix @ ''/'' @ to_string n)))"

definition get_log :: "('fs, 'j) world \<Rightarrow> handler \<Rightarrow> string \<Rightarrow> 'fs \<times> ids \<Rightarrow> log_entry list" where
  "get_log E h suffix s =
     (case s of (fs, m) \<Rightarrow>
        let path = dir h @ ''/'' @ suffix in
        if fs_exists E fs path then
          if fs_is_directory E fs path
          then [INFO (from_client h (''sending list of IDs for GET request at '' @ path))]
          else
            read_from_file_log E h path fs @
            (case read_from_file E path fs of
               Inr (Some content) \<Rightarrow>
                 [INFO (from_client h (''CRUD GET request: Finish Setting Response'' @ line_feed))]
             | _ \<Rightarrow> [])
        else [])"

definition put_log :: "('fs, 'j) world \<Rightarrow> handler \<Rightarrow> string \<Rightarrow> 'fs \<times> ids \<Rightarrow> log_entry list" where
  "put_log E h suffix s =
     (case s of (fs, m) \<Rightarrow>
        let (entity, id_name) = split_suffix suffix in
        if id_name \<noteq> [] \<and> list_all is_digit id_name then
          (case stoi id_name of
             Inl e \<Rightarrow> []
           | Inr n \<Rightarrow>
               if map_find m entity \<noteq> None then
                 if fst (insert_to_map entity n m) then created_log h n entity
                 else [INFO (client_ip h @ ''File updated for id '' @ to_string n @ '' for entity '' @ entity @ line_feed)]
               else
                 create_dir_log E h (dir h @ ''/'' @ entity) fs @
                 (if fst (create_dir E (dir h @ ''/'' @ entity) fs) then created_log h n entity
                  else unprocessable_entity_log h (dir h @ ''/'' @ entity)))
        else [])"

definition delete_log :: "('fs, 'j) world \<Rightarrow> handler \<Rightarrow> string \<Rightarrow> 'fs \<times> ids \<Rightarrow> log_entry list" where
  "delete_log E h suffix s =
     (case s of (fs, m) \<Rightarrow>
        let path = dir h @ ''/'' @ suffix;
            no_id = [WARNING (from_client h ''CRUD DELETE operations must specify a file ID'')] in
        if fs_exists E fs path then
          if fs_is_directory E fs path then no_id
          else
            let (entity, id_name) = split_suffix suffix in
            (case stoi id_name of
               Inl _ \<Rightarrow> no_id
             | Inr n \<Rightarrow>
                 if map_find m entity = None then []
                 else if fs_std_remove E fs path \<noteq> None
                 then [INFO (from_client h (''successfully deleted file at /'' @ entity))]
                 else internal_server_error_log h entity)
        else [])"

definition crud_log :: "('fs, 'j) world \<Rightarrow> handler \<Rightarrow> 'fs \<times> ids \<Rightarrow> request \<Rightarrow> log_entry list" where
  "crud_log E h s req =
     INFO (from_client h (''using CRUD API request handler'' @ line_feed)) #
     check_request_url_log h (req_target req) @
     (case check_request_url h (req_target req) False of
        None \<Rightarrow> []
      | Some suffix \<Rightarrow>
          (case req_method req of
             Verb_post \<Rightarrow> post_log E h suffix req s
           | Verb_get \<Rightarrow> get_log E h suffix s
           | Verb_put \<Rightarrow> put_log E h suffix s
           | Verb_delete \<Rightarrow> delete_log E h suffix s
           | _ \<Rightarrow> []))"

section \<open>Text generation\<close>

text \<open>\<open>parse_post_body\<close> logs in its \<open>catch\<close> only, and nothing in its \<open>try\<close> throws.\<close>

definition parse_raw_output_log :: "('fs, 'j) world \<Rightarrow> handler \<Rightarrow> string \<Rightarrow> log_entry list" where
  "parse_raw_output_log E h raw_output =
     (if parse_raw_output E raw_output = None
      then [WARNING (from_client h (''cannot parse JSON output or bad response from the third-party API, '' @
              ''response from that API: '' @ raw_output @ line_feed))]
      else [])"

definition save_entry_log ::
    "('fs, 'j) world \<Rightarrow> handler \<Rightarrow> string \<Rightarrow> string \<Rightarrow> string \<Rightarrow> 'fs \<Rightarrow> log_entry list" where
  "save_entry_log E h output text_prompt title fs =
     (let folder = client_folder h; (made, fs1) = create_dir E folder fs in
      create_dir_log E h folder fs @
      (if made then
         (case json_dump E (entry_json E output text_prompt title) of
            None \<Rightarrow> []
          | Some entry \<Rightarrow>
              if fst (write_to_file E (folder @ ''/'' @ title) entry fs1) then []
              else [WARNING (from_client h (''cannot store user'' @ [CHR 0x27] @ ''s input with title: '' @ title))])
       else [WARNING (from_client h ''cannot create dir'')]))"

definition tg_post_log :: "('fs, 'j) world \<Rightarrow> handler \<Rightarrow> string \<Rightarrow> 'fs \<Rightarrow> request \<Rightarrow> log_entry list" where
  "tg_post_log E h key fs req =
     (case parse_post_body E (req_body req) of
        None \<Rightarrow> []
      | Some m \<Rightarrow>
          (let title = the (map_find m ''title''); text_prompt = the (map_find m ''prompt'') in
           if \<not> check_prompts_validity text_prompt \<or> \<not> check_title_validity title then []
           else
             (case curl_api E key text_prompt of
                None \<Rightarrow> []
              | Some raw_output \<Rightarrow>
                  parse_raw_output_log E h raw_output @
                  (case parse_raw_output E raw_output of
                     None \<Rightarrow> []
                   | Some output \<Rightarrow> save_entry_log E h output text_prompt title fs))))"

definition folder_missing_log :: "handler \<Rightarrow> string \<Rightarrow> log_entry list" where
  "folder_missing_log h path = [WARNING (from_client h (''cannot find folder for '' @ path @ line_feed))]"

definition file_list_log :: "('fs, 'j) world \<Rightarrow> handler \<Rightarrow> string \<Rightarrow> 'fs \<Rightarrow> log_entry list" where
  "file_list_log E h path fs =
     (if fs_exists E fs path \<and> fs_is_directory E fs path then
        (case get_ip_file_list E h path fs [] of
           (Inl e, _) \<Rightarrow> []
         | (Inr _, _) \<Rightarrow> [INFO (from_client h (''sending list of titles for GET request at '' @ path))])
      else folder_missing_log h path)"

definition title_file_log ::
    "('fs, 'j) world \<Rightarrow> handler \<Rightarrow> string \<Rightarrow> string \<Rightarrow> bool \<Rightarrow> 'fs \<Rightarrow> log_entry list" where
  "title_file_log E h path suffix remove fs =
     (let titlepath = path @ ''/'' @ suffix in
      if fs_exists E fs path \<and> fs_is_directory E fs path then
        if fs_is_regular E fs titlepath then
          if remove then
            (if fs_remove E fs titlepath = None then []
             else [INFO (from_client h (''removing: '' @ titlepath))])
          else
            read_from_file_log E h titlepath fs @
            (case read_from_file E titlepath fs of
               Inl e \<Rightarrow> []
             | Inr None \<Rightarrow> [WARNING (from_client h (''cannot read from file for '' @ titlepath @ line_feed))]
             | Inr (Some filecontent) \<Rightarrow> [INFO (''Read from: '' @ titlepath)])
        else [WARNING (from_client h (''cannot open file for '' @ titlepath @ line_feed))]
      else folder_missing_log h path)"

definition tg_get_log :: "('fs, 'j) world \<Rightarrow> handler \<Rightarrow> 'fs \<Rightarrow> request \<Rightarrow> log_entry list" where
  "tg_get_log E h fs req =
     (let url = replace_space (req_target req) in
      check_request_url_log h url @
      (case check_request_url h url True of
         None \<Rightarrow> []
       | Some suffix \<Rightarrow>
           if suffix = [] then read_from_file_log E h ''../static/static1/text.html'' fs
           else if suffix = ''history?'' then file_list_log E h (client_folder h) fs
           else title_file_log E h (client_folder h) suffix False fs))"

definition tg_delete_log :: "('fs, 'j) world \<Rightarrow> handler \<Rightarrow> 'fs \<Rightarrow> request \<Rightarrow> log_entry list" where
  "tg_delete_log E h fs req =
     (let url = replace_space (req_target req) in
      check_request_url_log h url @
      (case check_request_url h url False of
         None \<Rightarrow> [INFO (from_client h (''URL: '' @ req_target req @ ''not valid''))]
       | Some suffix \<Rightarrow> title_file_log E h (client_folder h) suffix True fs))"

definition text_gen_log :: "('fs, 'j) world \<Rightarrow> handler \<Rightarrow> string \<Rightarrow> 'fs \<Rightarrow> request \<Rightarrow> log_entry list" where
  "text_gen_log E h key fs req =
     INFO (from_client h (''Using text generation request handler'' @ line_feed)) #
     (case req_method req of
        Verb_post \<Rightarrow> tg_post_log E h key fs req
      | Verb_get \<Rightarrow> tg_get_log E h fs req
      | Verb_delete \<Rightarrow> tg_delete_log E h fs req
      | _ \<Rightarrow> [])"

section \<open>Factories\<close>

definition make_root_log :: "('fs, 'j) world \<Rightarrow> string \<Rightarrow> string \<Rightarrow> string \<Rightarrow> 'fs \<Rightarrow> log_entry list" where
  "make_root_log E what handler_name rt fs =
     (if \<not> (fs_exists E fs rt \<and> fs_is_directory E fs rt) then
        INFO (what @ '' root path: '' @ rt @ '' does not exist! Creating'' @ line_feed) #
        (if fs_create_directory E fs rt = None
         then [FATAL (''Bad root in config for '' @ handler_name @ '': '' @ rt @ line_feed)] else [])
      else [])"

definition new_factory_log :: "('fs, 'j) world \<Rightarrow> handler_kind \<Rightarrow> config_arg \<Rightarrow> 'fs \<Rightarrow> log_entry list" where
  "new_factory_log E k arg fs =
     INFO (''Invoke '' @ handler_type arg @ '' and serve at location '' @ location arg @ line_feed) #
     (if k = CrudHandler then make_root_log E ''CURD'' ''CrudHandler'' (root arg) fs else [])"

definition create_handler_log :: "('fs, 'j) world \<Rightarrow> factory \<Rightarrow> 'fs \<Rightarrow> log_entry list" where
  "create_handler_log E f fs =
     (if fkind f = TextGenHandler then make_root_log E ''text_gen'' ''TextGenHandler'' (root (farg f)) fs else [])"

definition handle_request_log ::
    "('fs, 'j) world \<Rightarrow> factory \<Rightarrow> handler \<Rightarrow> 'fs \<times> ids \<Rightarrow> request \<Rightarrow> log_entry list" where
  "handle_request_log E f h s req =
     (case fkind f of
        StaticHandler \<Rightarrow> static_log E h (fst s) req
      | EchoHandler \<Rightarrow> echo_log h
      | NotFoundHandler \<Rightarrow> not_found_log h
      | BlockHandler \<Rightarrow> block_log h req
      | HealthHandler \<Rightarrow> health_log h
      | TextGenHandler \<Rightarrow> text_gen_log E h (api_key (farg f)) (fst s) req
      | CrudHandler \<Rightarrow> crud_log E h s req)"

section \<open>Properties\<close>

text \<open>
  PUT writes the record of a created entry before it writes the file. When the file cannot be
  written, as its path is that of a directory, the client is answered that nothing was found
  and the log says that the entry was created.
\<close>

theorem put_logs_unwritten:
  assumes "split_suffix suffix = (e, i)" and "i \<noteq> []" and "list_all is_digit i" and "stoi i = Inr n"
    and "map_find m e = Some v" and "n \<notin> set v" and "fs_is_directory E fs (dir h @ ''/'' @ suffix)"
  shows "put_log E h suffix (fs, m) = created_log h n e \<and>
    (\<exists>r' s'. handle_put_request E h suffix req r (fs, m) = (Inr False, r', s') \<and> status_of r' = Some St_not_found)"
  using assms by (simp add: put_log_def handle_put_request_def put_write_def write_to_file_def insert_to_map_def)

lemma put_logs_unwritten_witness:
  "put_log mem_world (new_handler ''/api'' ''data'') ''a/2'' ([''data/a/2'' \<mapsto> DirNode], [(''a'', [1])]) =
     [INFO '': created id 2 for entity a\<newline>'']"
proof -
  have num: "stoi ''2'' = Inr 2" by code_simp
  have two: "to_string 2 = ''2''" by code_simp
  have "split_suffix ''a/2'' = (''a'', ''2'')" by (simp add: split_suffix_def)
  moreover have "list_all is_digit ''2''" by (simp add: is_digit_def)
  moreover have "fs_is_directory mem_world [''data/a/2'' \<mapsto> DirNode]
      (dir (new_handler ''/api'' ''data'') @ ''/'' @ ''a/2'')" by (simp add: mem_world_def new_handler_def)
  ultimately have "put_log mem_world (new_handler ''/api'' ''data'') ''a/2'' ([''data/a/2'' \<mapsto> DirNode], [(''a'', [1])]) =
      created_log (new_handler ''/api'' ''data'') 2 ''a''"
    by (intro conjunct1 [OF put_logs_unwritten [where i = "''2''" and v = "[1]"]]) (simp_all add: num)
  then show ?thesis by (simp add: created_log_def from_client_def new_handler_def line_feed_def two)
qed

text \<open>C33: an answer of the text generation service that is not JSON is logged as it is. A line in
  it is a line of the log, wherever the records of the request end up and however a record is
  stamped: the service can write any line into the log, one of response metrics as well.\<close>

theorem api_answer_forges_line:
  assumes "req_method req = Verb_post" and "parse_post_body E (req_body req) = Some m"
    and "map_find m ''title'' = Some t" and "map_find m ''prompt'' = Some p"
    and "check_title_validity t" and "check_prompts_validity p"
    and "curl_api E key p = Some (a @ line_feed @ l @ line_feed @ b)"
    and "parse_raw_output E (a @ line_feed @ l @ line_feed @ b) = None" and "CHR 0x0A \<notin> set l"
    and "set (text_gen_log E h key fs req) \<subseteq> set es"
  shows "l \<in> set (lines_of (log_text stamp es))"
proof -
  let ?raw = "a @ line_feed @ l @ line_feed @ b"
  let ?start = "''cannot parse JSON output or bad response from the third-party API, '' @ ''response from that API: ''"
  let ?msg = "from_client h (?start @ ?raw @ line_feed)"
  have "text_gen_log E h key fs req =
      [INFO (from_client h (''Using text generation request handler'' @ line_feed)), WARNING ?msg]"
    using assms(1-8) by (simp add: text_gen_log_def tg_post_log_def parse_raw_output_log_def Let_def)
  then have "WARNING ?msg \<in> set es" using assms(10) by auto
  then have "WARNING ?msg \<in> set (written global_logger es)"
    by (simp add: written_def WARNING_def global_logger_def less_eq_severity_def)
  then show ?thesis
    by (rule message_line [OF assms(9), rotated, where a = "from_client h (?start @ a)" and b = "b @ line_feed"])
       (simp add: WARNING_def from_client_def line_feed_def)
qed

lemma api_answer_forges_line_witness:
  "''[ResponseMetrics] forged'' \<in> set (lines_of (log_text (\<lambda>_. ''stamp '')
     (text_gen_log (mem_world\<lparr>curl_post := \<lambda>_ _ _. Some [''x'' @ line_feed @ ''[ResponseMetrics] forged'' @ line_feed],
        json_parse := \<lambda>_. None\<rparr>) tg_demo ''key'' tg_files
        \<lparr>req_method = Verb_post, req_target = ''/text_gen'', req_body = ''title=t&prompt=p'', req_fields = []\<rparr>)))"
proof -
  let ?E = "mem_world\<lparr>curl_post := \<lambda>_ _ _. Some [''x'' @ line_feed @ ''[ResponseMetrics] forged'' @ line_feed],
        json_parse := \<lambda>_. None\<rparr>"
  let ?req = "\<lparr>req_method = Verb_post, req_target = ''/text_gen'', req_body = ''title=t&prompt=p'', req_fields = []\<rparr>"
  have "form_pairs ?E ''title=t&prompt=p'' = [(''title'', ''t''), (''prompt'', ''p'')]"
    by (simp add: form_pairs_def mem_world_def)
  then obtain m where m: "parse_post_body ?E (req_body ?req) = Some m" "map_find m ''title'' = Some ''t''"
      "map_find m ''prompt'' = Some ''p''" using parse_post_bodyI [of ?E "''title=t&prompt=p''" "''t''" "''p''"] by auto
  have valid: "check_title_validity ''t''" "check_prompts_validity ''p''"
    by (simp_all add: check_title_validity_def check_prompts_validity_def title_char_def prompt_char_def is_letter_def
        title_max_len_def text_prompt_max_len_def)
  have answer: "curl_api ?E ''key'' ''p'' = Some (''x'' @ line_feed @ ''[ResponseMetrics] forged'' @ line_feed @ [])"
    "parse_raw_output ?E (''x'' @ line_feed @ ''[ResponseMetrics] forged'' @ line_feed @ []) = None"
    by (simp_all add: curl_api_def WriteCallback_def parse_raw_output_def)
  show ?thesis by (rule api_answer_forges_line [OF _ m valid answer _ subset_refl]) simp_all
qed

end
