(* ===== verification/Logging.thy ===== *)
theory Logging
  imports Config_Log Handler_Log Server
begin

text \<open>
  The records of a whole request (\<open>src/session.cc\<close>), with those of the factory and of the
  handler, and of the start and the end of the server (\<open>src/server_main.cc\<close>, \<open>src/server.cc\<close>),
  with those of the parser. The line of response metrics is read by machines; the last record
  of \<open>main\<close> tells how the start ended.
\<close>

section \<open>The metrics of a response\<close>

text \<open>The number and the name of a status, as Beast prints them; 200 is its default.\<close>

fun status_int :: "http_status \<Rightarrow> int" where
  "status_int St_ok = 200"
| "status_int St_created = 201"
| "status_int St_no_content = 204"
| "status_int St_bad_request = 400"
| "status_int St_not_found = 404"
| "status_int St_unprocessable_entity = 422"
| "status_int St_internal_server_error = 500"

fun status_name :: "http_status \<Rightarrow> string" where
  "status_name St_ok = ''OK''"
| "status_name St_created = ''Created''"
| "status_name St_no_content = ''No Content''"
| "status_name St_bad_request = ''Bad Request''"
| "status_name St_not_found = ''Not Found''"
| "status_name St_unprocessable_entity = ''Unprocessable Entity''"
| "status_name St_internal_server_error = ''Internal Server Error''"

definition response_status :: "response \<Rightarrow> http_status" where
  "response_status r = (case status_of r of None \<Rightarrow> St_ok | Some st \<Rightarrow> st)"

definition response_metric :: string where
  "response_metric = ''[ResponseMetrics]''"

definition metrics_start :: "string \<Rightarrow> response \<Rightarrow> string" where
  "metrics_start ip r =
     response_metric @ tab @ ''response code:'' @ to_string (status_int (response_status r)) @ '' '' @
     status_name (response_status r) @ tab @ ''request IP:'' @ ip"

definition metrics_line :: "string \<Rightarrow> request \<Rightarrow> factory \<Rightarrow> response \<Rightarrow> string" where
  "metrics_line ip req f r =
     metrics_start ip r @ tab @ ''request path:'' @ req_target req @ tab @ ''request handler name:'' @
     handler_type (farg f) @ line_feed"

definition handled_line :: "string \<Rightarrow> bool \<Rightarrow> string" where
  "handled_line ip ok =
     (if ok then ''Successfully handled the request, return response to client ''
      else ''Something went wrong when handling the request, return response to client '') @ ip @ line_feed"

section \<open>The records of a request\<close>

text \<open>From the route on: the factory, the handler, and what \<open>generate_response\<close> adds.\<close>

definition dispatch_log ::
    "('fs, 'j) world \<Rightarrow> string \<Rightarrow> factory \<Rightarrow> request \<Rightarrow> response \<Rightarrow> 'fs shared \<Rightarrow> log_entry list" where
  "dispatch_log E ip f req r s =
     create_handler_log E f (fst s) @
     (case create_handler E f (fst s) of
        (Inl e, fs1) \<Rightarrow> []
      | (Inr h, fs1) \<Rightarrow>
          handle_request_log E f (set_client_ip ip h) (fs1, file_to_id f) req @
          (case handle_request E f (set_client_ip ip h) (fs1, file_to_id f) req r of
             (Inl e, r1, _) \<Rightarrow> []
           | (Inr ok, r1, _) \<Rightarrow> [INFO (handled_line ip ok), INFO (metrics_line ip req f r1)]))"

definition response_log ::
    "('fs, 'j) world \<Rightarrow> string \<Rightarrow> string \<Rightarrow> int \<Rightarrow> 'fs shared \<Rightarrow> log_entry list" where
  "response_log E ip request_data data_len s =
     (let r = set_field allow_origin_field ''*'' [];
          refused = [INFO (metrics_start ip (result St_bad_request r))] in
      case parse_request E request_data data_len of
        Inl e \<Rightarrow> []
      | Inr None \<Rightarrow> refused
      | Inr (Some req) \<Rightarrow>
          (case search_addr_binding (snd s) (req_target req @ ''/'') of
             None \<Rightarrow> refused
           | Some loc \<Rightarrow>
               (case map_find (snd s) loc of
                  None \<Rightarrow> []
                | Some f \<Rightarrow> dispatch_log E ip f req r s)))"

text \<open>\<open>session::start\<close> reports the connection before it reads.\<close>

definition start_log :: "string \<Rightarrow> log_entry list" where
  "start_log ip = [INFO (ip @ '': Connection started'' @ line_feed)]"

section \<open>One line of metrics per response\<close>

definition is_metrics :: "log_entry \<Rightarrow> bool" where
  "is_metrics e \<longleftrightarrow> take (length response_metric) (snd e) = response_metric"

lemma metrics_entries [simp]:
  "is_metrics (INFO (metrics_start ip r))" "is_metrics (INFO (metrics_start ip r @ msg))"
  "is_metrics (INFO (metrics_line ip req f r))" "\<not> is_metrics (INFO (handled_line ip ok))"
  by (simp_all add: is_metrics_def INFO_def metrics_start_def metrics_line_def handled_line_def response_metric_def)

definition metrics_of :: "log_entry list \<Rightarrow> log_entry list" where
  "metrics_of es = filter is_metrics (written global_logger es)"

lemma metrics_of_simps [simp]:
  "metrics_of [] = []"
  "metrics_of (INFO msg # es) = (if is_metrics (INFO msg) then [INFO msg] else []) @ metrics_of es"
  by (simp_all add: metrics_of_def)

text \<open>
  The other records do not start as that line does: they start with a fixed word or with the
  address of the client, which is the text of an IP address.
\<close>

definition plain_address :: "string \<Rightarrow> bool" where
  "plain_address ip \<longleftrightarrow> ip \<noteq> [] \<and> hd ip \<noteq> CHR ''[''"

definition quiet :: "log_entry list \<Rightarrow> bool" where
  "quiet es \<longleftrightarrow> list_all (\<lambda>e. \<not> is_metrics e) es"

lemma quiet_simps [simp]:
  "quiet []" "quiet (es @ fs) \<longleftrightarrow> quiet es \<and> quiet fs"
  "c \<noteq> CHR ''['' \<Longrightarrow> quiet (INFO (c # msg) # es) \<longleftrightarrow> quiet es"
  "c \<noteq> CHR ''['' \<Longrightarrow> quiet (WARNING (c # msg) # es) \<longleftrightarrow> quiet es"
  "c \<noteq> CHR ''['' \<Longrightarrow> quiet (ERROR (c # msg) # es) \<longleftrightarrow> quiet es"
  "c \<noteq> CHR ''['' \<Longrightarrow> quiet (FATAL (c # msg) # es) \<longleftrightarrow> quiet es"
  by (simp_all add: quiet_def is_metrics_def INFO_def WARNING_def ERROR_def FATAL_def response_metric_def)

lemma quiet_from_client [simp]:
  assumes "plain_address (client_ip h)"
  shows "quiet (INFO (from_client h msg) # es) \<longleftrightarrow> quiet es"
    and "quiet (WARNING (from_client h msg) # es) \<longleftrightarrow> quiet es"
    and "quiet (INFO (client_ip h @ msg) # es) \<longleftrightarrow> quiet es"
  using assms by (cases "client_ip h"; simp add: plain_address_def from_client_def)+

lemma quiet_metrics: "quiet es \<Longrightarrow> metrics_of (es @ fs) = metrics_of fs"
  by (auto simp: quiet_def metrics_of_def written_def list_all_iff filter_empty_conv)

lemmas crud_records = created_log_def unprocessable_entity_log_def internal_server_error_log_def
  create_dir_log_def read_from_file_log_def check_request_url_log_def

lemma quiet_crud:
  assumes "plain_address (client_ip h)"
  shows "quiet (post_log E h e req s)" and "quiet (get_log E h e s)" and "quiet (put_log E h e s)"
    and "quiet (delete_log E h e s)"
  using assms
  by (simp_all add: post_log_def get_log_def put_log_def delete_log_def crud_records Let_def
      split: prod.split option.split sum.split)

lemma quiet_text_gen:
  assumes "plain_address (client_ip h)"
  shows "quiet (tg_post_log E h key fs req)" and "quiet (title_file_log E h path suffix rm fs)"
    and "quiet (file_list_log E h path fs)"
  using assms
  by (simp_all add: tg_post_log_def parse_raw_output_log_def save_entry_log_def title_file_log_def file_list_log_def
      folder_missing_log_def crud_records Let_def split: prod.split option.split sum.split)

lemma quiet_handler:
  assumes "plain_address (client_ip h)"
  shows "quiet (handle_request_log E f h s req)"
proof (cases "fkind f")
  case CrudHandler
  then show ?thesis using assms
    by (simp add: quiet_crud handle_request_log_def crud_log_def crud_records split: option.split verb.split)
next
  case TextGenHandler
  then show ?thesis using assms
    by (simp add: quiet_text_gen handle_request_log_def text_gen_log_def tg_get_log_def tg_delete_log_def crud_records Let_def
        split: option.split verb.split)
qed (use assms in \<open>simp_all add: handle_request_log_def static_log_def echo_log_def health_log_def not_found_log_def
      block_log_def split: option.split sum.split\<close>)

lemma quiet_create: "quiet (create_handler_log E f fs)"
  by (simp add: create_handler_log_def make_root_log_def)

lemma dispatch_metrics:
  assumes "plain_address ip"
  shows "fst (dispatch E ip loc f req r s) = Inl e \<Longrightarrow> metrics_of (dispatch_log E ip f req r s) = []"
    and "fst (dispatch E ip loc f req r s) = Inr r1 \<Longrightarrow>
      metrics_of (dispatch_log E ip f req r s) = [INFO (metrics_line ip req f r1)]"
proof -
  have quiet: "metrics_of (create_handler_log E f (fst s) @ handle_request_log E f (set_client_ip ip h) t req @ es) =
      metrics_of es" for h t es
    using assms by (simp add: quiet_metrics quiet_create quiet_handler set_client_ip_def)
  show "fst (dispatch E ip loc f req r s) = Inl e \<Longrightarrow> metrics_of (dispatch_log E ip f req r s) = []"
    using quiet_metrics [OF quiet_create, where fs = "[]"] quiet
    by (cases s) (auto simp: dispatch_def dispatch_log_def split: prod.splits sum.splits)
  show "fst (dispatch E ip loc f req r s) = Inr r1 \<Longrightarrow>
      metrics_of (dispatch_log E ip f req r s) = [INFO (metrics_line ip req f r1)]"
    using quiet by (cases s) (auto simp: dispatch_def dispatch_log_def split: prod.splits sum.splits)
qed

text \<open>The rest of the line after its start, for a request and the factory of its route.\<close>

definition metrics_end :: "request \<Rightarrow> factory \<Rightarrow> string" where
  "metrics_end req f =
     tab @ ''request path:'' @ req_target req @ tab @ ''request handler name:'' @ handler_type (farg f) @ line_feed"

lemma metrics_line_end: "metrics_line ip req f r = metrics_start ip r @ metrics_end req f"
  by (simp add: metrics_line_def metrics_end_def)

lemma response_metrics:
  assumes "plain_address ip"
  shows "case fst (generate_response E ip data n s) of
     Inl e \<Rightarrow> metrics_of (response_log E ip data n s) = []
   | Inr r \<Rightarrow>
       metrics_of (response_log E ip data n s) =
         [INFO (metrics_start ip r @
            (case parse_request E data n of
               Inr (Some req) \<Rightarrow>
                 (case search_addr_binding (snd s) (req_target req @ ''/'') of
                    Some loc \<Rightarrow> metrics_end req (the (map_find (snd s) loc))
                  | None \<Rightarrow> [])
             | _ \<Rightarrow> []))]"
  by (auto simp: generate_response_def response_log_def Let_def metrics_line_end split: sum.split option.split
      dest: dispatch_metrics [OF assms])

section \<open>The records of the start and of the end\<close>

text \<open>The types of the handlers: what \<open>main\<close> says about those that are not valid.\<close>

fun invalid_types :: "addrmap \<Rightarrow> string" where
  "invalid_types [] = []"
| "invalid_types ((loc, arg) # m) =
     (if handler_type arg \<notin> set valid_handler_types
      then ''handler type '' @ handler_type arg @ '' invalid; '' else []) @ invalid_types m"

text \<open>The set of valid types is a \<open>std::set\<close>: the loop over it goes in the order of strings.\<close>

definition valid_types_text :: string where
  "valid_types_text = concat (map (\<lambda>t. t @ '' '') (sort valid_handler_types))"

text \<open>The constructor of the server: a record for each factory, and the last one.\<close>

fun create_dispatcher_log :: "('fs, 'j) world \<Rightarrow> (string \<times> config_arg) list \<Rightarrow> 'fs \<Rightarrow> log_entry list" where
  "create_dispatcher_log E [] fs = []"
| "create_dispatcher_log E ((loc, arg) # m) fs =
     new_factory_log E (kind_of (handler_type arg)) arg fs @
     (case new_factory E (kind_of (handler_type arg)) arg fs of
        (Inl e, fs1) \<Rightarrow> []
      | (Inr f, fs1) \<Rightarrow> create_dispatcher_log E m fs1)"

text \<open>The port is printed as the \<open>short\<close> it is passed as.\<close>

definition serving_message :: "nat \<Rightarrow> int \<Rightarrow> string" where
  "serving_message cores port =
     ''Start the server with concurrency '' @ to_string (int cores) @ '' on port '' @
     to_string (sint (word_of_int port :: 16 word)) @ line_feed"

definition new_server_log :: "('fs, 'j) world \<Rightarrow> nat \<Rightarrow> int \<Rightarrow> addrmap \<Rightarrow> 'fs \<Rightarrow> log_entry list" where
  "new_server_log E cores port m fs =
     create_dispatcher_log E m fs @
     (case create_dispatcher E m (fs, []) of
        (Inl e, _) \<Rightarrow> []
      | (Inr _, _) \<Rightarrow> [INFO (serving_message cores port)])"

text \<open>\<open>what\<close> is the text of the exception the acceptor throws when it cannot be bound.\<close>

definition main_log ::
    "('fs, 'j) world \<Rightarrow> (int \<Rightarrow> bool) \<Rightarrow> string \<Rightarrow> nat \<Rightarrow> string list \<Rightarrow> 'fs \<Rightarrow> log_entry list" where
  "main_log E binds what cores argv fs =
     INFO (''Server Startup'' @ line_feed) #
     (if length argv \<noteq> 2 then [FATAL (''Usage: webserver <config_file>'' @ line_feed)]
      else
        (let file = argv ! 1;
             contents = (if fs_opens E fs file then Some (fs_bytes E fs file) else None) in
         INFO (''Preparing to parse the config file'' @ line_feed) #
         Parse_file_log file contents (Config []) [] @
         (case Parse_file contents (Config []) (-1) [] of
            (Inl e, config, port, m) \<Rightarrow> []
          | (Inr _, config, port, m) \<Rightarrow>
              if \<not> valid_handlers m
              then [FATAL (invalid_types m @ ''Server only accepts the handler types: '' @ valid_types_text @ line_feed)]
              else
                INFO (''Finish parsing, prepare to start the server'' @ line_feed) #
                (if \<not> binds (endpoint_port port) then [ERROR (''Exception: '' @ what @ line_feed)]
                 else new_server_log E cores port m fs))))"

definition destructor_log :: "log_entry list" where
  "destructor_log = [INFO (''Server shuts down'' @ line_feed)]"

definition shutdown_log :: "string \<Rightarrow> log_entry list" where
  "shutdown_log signal_name =
     [INFO (''Interrupt signal '' @ [CHR 0x22] @ signal_name @ [CHR 0x22] @
        '' received. Shutting Down server. '' @ line_feed)]"

section \<open>How the start ends\<close>

text \<open>A constructor of a factory that ends the process says so last.\<close>

lemma new_factory_stop:
  assumes "new_factory E k arg fs = (Inl e, fs1)"
  shows "e = Exit 1" and "fst (last (new_factory_log E k arg fs)) = Sev_fatal"
  using assms
  by (auto simp: new_factory_def make_root_def new_factory_log_def make_root_log_def FATAL_def Let_def
      split: if_splits option.splits)

lemma create_dispatcher_stop:
  assumes "create_dispatcher E m (fs, R) = (Inl e, s')"
  shows "e = Exit 1 \<and> create_dispatcher_log E m fs \<noteq> [] \<and> fst (last (create_dispatcher_log E m fs)) = Sev_fatal"
  using assms
proof (induction m arbitrary: fs R)
  case (Cons x m)
  obtain loc arg where x: "x = (loc, arg)" by force
  let ?k = "kind_of (handler_type arg)"
  obtain o1 fs1 where made: "new_factory E ?k arg fs = (o1, fs1)" by force
  have first: "new_factory_log E ?k arg fs \<noteq> []" by (simp add: new_factory_log_def)
  show ?case
  proof (cases o1)
    case (Inl e1)
    then show ?thesis using made Cons.prems new_factory_stop [of E ?k arg fs e1 fs1] first by (simp add: x)
  next
    case (Inr f)
    then show ?thesis using made Cons.prems Cons.IH [of fs1 "map_assign loc f R"] by (simp add: x)
  qed
qed simp

text \<open>The parser stops only where the code is undefined, and has then written no error.\<close>

lemma parse_loop_stop: "fst (parse_loop i st) = Inl e \<Longrightarrow> e = Undefined"
proof (induction i st rule: parse_loop.induct)
  case (1 i st)
  obtain t v i' where tok: "ParseToken i = (t, v, i')" by (metis prod_cases3)
  show ?case using "1.prems" "1.IH" [OF tok [symmetric] refl refl]
    by (cases "parse_token_step t v st") (simp_all add: parse_loop_step [OF tok])
qed

lemma parse_stop:
  assumes "Parse_file contents config p m = (Inl e, c, port, m')"
  shows "e = Undefined" and "informs (Parse_file_log name contents config m)"
proof -
  obtain s where s: "contents = Some s" and run: "Parse (open_stream s) config m = (Inl e, c, port, m')"
    using assms by (cases contents) (simp_all add: Parse_file_def)
  then have loop: "fst (parse_loop (open_stream s) (parse_init config m)) = Inl e"
    by (simp add: Parse_def split: prod.splits)
  then show "e = Undefined" by (rule parse_loop_stop)
  show "informs (Parse_file_log name contents config m)"
    using Parse_log_ends [of s config m] by (simp add: s run Parse_file_log_def)
qed

lemma new_server_end:
  "case fst (new_server E m fs) of
     Inl e \<Rightarrow> e = Exit 1 \<and> new_server_log E cores port m fs \<noteq> [] \<and>
       fst (last (new_server_log E cores port m fs)) = Sev_fatal
   | Inr s \<Rightarrow> new_server_log E cores port m fs \<noteq> [] \<and>
       last (new_server_log E cores port m fs) = INFO (serving_message cores port)"
  using create_dispatcher_stop [of E m fs "[]"]
  by (auto simp: new_server_def new_server_log_def split: prod.split sum.split)

section \<open>Properties\<close>

text \<open>C29: monitoring. A request that gets a response leaves exactly one record of response metrics,
  with the status of that response and the address of the client; the record of a
  request that was parsed and routed has its path and the type of its handler as well. A
  request that stops the process leaves none.\<close>

theorem metrics_logged:
  assumes "plain_address ip"
  shows "case fst (generate_response E ip data n s) of
     Inl e \<Rightarrow> metrics_of (response_log E ip data n s) = []
   | Inr r \<Rightarrow>
       metrics_of (response_log E ip data n s) =
         [INFO (metrics_start ip r @
            (case parse_request E data n of
               Inr (Some req) \<Rightarrow>
                 (case search_addr_binding (snd s) (req_target req @ ''/'') of
                    Some loc \<Rightarrow> metrics_end req (the (map_find (snd s) loc))
                  | None \<Rightarrow> [])
             | _ \<Rightarrow> []))]"
  using assms by (rule response_metrics)

text \<open>A request for the witness, on a server with one route.\<close>

definition health_factory :: factory where
  "health_factory = \<lparr>fkind = HealthHandler, farg = default_arg\<lparr>handler_type := ''HealthHandler''\<rparr>, file_to_id = []\<rparr>"

lemma metrics_logged_witness:
  "\<exists>r. metrics_of (response_log mem_world ''1.2.3.4'' (fill (''GET /h'' @ [CHR 0x0A]) zero_buffer) 7
      (\<lambda>_. None, [(''/'', health_factory)])) =
    [INFO (metrics_start ''1.2.3.4'' r @ tab @ ''request path:/h'' @ tab @ ''request handler name:HealthHandler'' @ line_feed)]"
proof -
  let ?data = "fill (''GET /h'' @ [CHR 0x0A]) zero_buffer" and ?s = "(\<lambda>_. None, [(''/'', health_factory)]) :: mem shared"
  define req where "req = \<lparr>req_method = Verb_get, req_target = ''/h'', req_body = [], req_fields = []\<rparr>"
  have "parse_request mem_world ?data (int (length (''GET /h'' @ [CHR 0x0A]))) =
      Inr (parse_http mem_world (takeWhile (\<lambda>c. c \<noteq> CHR 0x00) (''GET /h'' @ [CHR 0x0A])))"
    by (rule parse_request_fill) (simp_all add: max_length_def)
  then have parsed: "parse_request mem_world ?data 7 = Inr (Some req)"
    by (simp add: mem_world_def mem_parse_http_def req_def)
  have found: "search_addr_binding [(''/'', health_factory)] ''/h/'' = Some ''/''"
    by (subst search_addr_binding.simps, simp, subst search_addr_binding.simps) simp
  have "\<exists>r s'. generate_response mem_world ''1.2.3.4'' ?data 7 ?s = (Inr r, s')"
    using parsed found
    by (simp add: generate_response_def req_def dispatch_def create_handler_def handle_request_def
        health_factory_def health_handle_def with_ids_def Let_def)
  then obtain r s' where "generate_response mem_world ''1.2.3.4'' ?data 7 ?s = (Inr r, s')" by blast
  moreover have "plain_address ''1.2.3.4''" by (simp add: plain_address_def)
  ultimately have "metrics_of (response_log mem_world ''1.2.3.4'' ?data 7 ?s) =
      [INFO (metrics_start ''1.2.3.4'' r @ metrics_end req health_factory)]"
    using metrics_logged [of "''1.2.3.4''" mem_world ?data 7 ?s] parsed found by (simp add: req_def)
  then show ?thesis by (auto simp: metrics_end_def req_def health_factory_def)
qed

text \<open>C32: the last record of \<open>main\<close> tells how the start ended: with the concurrency and the port
  when the server serves, fatal when \<open>main\<close> returns 1 or a handler's root ends the process with
  status 1, an error when the port cannot be bound (and \<open>main\<close> then returns 0). A configuration
  on which the parser is undefined leaves no complaint.\<close>

theorem main_end_logged:
  "case fst (main E binds argv fs) of
     Inr (Serving p s) \<Rightarrow>
       \<exists>port. endpoint_port port = p \<and> last (main_log E binds what cores argv fs) = INFO (serving_message cores port)
   | Inr (Returned n) \<Rightarrow>
       fst (last (main_log E binds what cores argv fs)) = (if n = 1 then Sev_fatal else Sev_error) \<and> n \<in> {0, 1}
   | Inl (Exit n) \<Rightarrow> fst (last (main_log E binds what cores argv fs)) = Sev_fatal \<and> n = 1
   | Inl Undefined \<Rightarrow> informs (main_log E binds what cores argv fs)
   | Inl (Uncaught x) \<Rightarrow> False"
proof (cases "length argv = 2")
  case True
  define contents where
    "contents = (if fs_opens E fs (argv ! Suc 0) then Some (fs_bytes E fs (argv ! Suc 0)) else None)"
  obtain r config port m where parse: "Parse_file contents (Config []) (-1) [] = (r, config, port, m)"
    by (metis prod_cases4)
  note sides = True parse contents_def [symmetric]
  show ?thesis
  proof (cases r)
    case (Inl e)
    then show ?thesis
      using parse_stop(1) [of contents "Config []" "-1" "[]" e config port m]
        parse_stop(2) [of contents "Config []" "-1" "[]" e config port m "argv ! Suc 0"] sides
      by (simp add: main_def main_log_def Let_def)
  next
    case (Inr ok)
    then show ?thesis
      using new_server_end [of E cores port m fs] sides
      by (auto simp: main_def main_log_def FATAL_def ERROR_def Let_def split: prod.splits sum.splits)
  qed
qed (simp add: main_def main_log_def FATAL_def)

text \<open>The port is logged as a \<open>short\<close>: a port above 32767, which the parser accepts and the
  server serves, is logged as a negative number.\<close>

theorem high_port_logged_negative:
  assumes "32768 \<le> port" and "port \<le> 65535"
  shows "endpoint_port port = port \<and>
    serving_message cores port =
      ''Start the server with concurrency '' @ to_string (int cores) @ '' on port '' @
      to_string (port - 65536) @ line_feed"
proof -
  have "sint (word_of_int port :: 16 word) = port - 65536"
    using assms mod_pos_geq [of 65536 "port + 32768"] by (simp add: int_word_sint)
  then show ?thesis using assms by (simp add: serving_message_def endpoint_port_mod)
qed

end
