(* ===== verification/Server_Log.thy ===== *)
theory Server_Log
  imports Server_History Logging
begin

text \<open>
  The log of a running server: the records of every job of a run (\<open>src/session.cc\<close>,
  \<open>src/server.cc\<close>), after those of the start. The records of response metrics among them
  are the responses that are sent, one record for each and in their order, as long as no two
  handlers of requests overlap. (These are records. What lines they make in the log files is
  another matter, see \<open>Log_Records\<close> and \<open>Handler_Log\<close>.)
\<close>

section \<open>The records of a job\<close>

text \<open>
  \<open>session::start\<close> is called for a new connection and again after every reply, and reports a
  new connection both times.
\<close>

definition job_log :: "('fs, 'j) world \<Rightarrow> job \<Rightarrow> 'fs server \<Rightarrow> log_entry list" where
  "job_log E j s =
     (case j of
        Accept_job i error remote \<Rightarrow>
          (if error then [] else case remote of None \<Rightarrow> [] | Some ip \<Rightarrow> start_log ip)
      | Write_job i error remote \<Rightarrow>
          (if error then [] else case remote of None \<Rightarrow> [] | Some ip \<Rightarrow> start_log ip)
      | Read_job i error bytes \<Rightarrow>
          (if error then []
           else case sessions s i of
                  None \<Rightarrow> []
                | Some c \<Rightarrow>
                    response_log E (peer_ip c) (fill bytes (in_data c)) (int (length bytes)) (files s, routes s)))"

text \<open>The records of a run, job by job.\<close>

definition records :: "('fs, 'j) world \<Rightarrow> 'fs event list \<Rightarrow> log_entry list" where
  "records E tr = concat (map (\<lambda>(j, s, s'). job_log E j s) tr)"

lemma records_simps [simp]: "records E [] = []" "records E (tr @ [(j, s, s')]) = records E tr @ job_log E j s"
  by (simp_all add: records_def)

text \<open>The addresses the operating system gives for the peers are texts of IP addresses.\<close>

fun job_remote :: "job \<Rightarrow> string option" where
  "job_remote (Accept_job i error remote) = remote"
| "job_remote (Read_job i error bytes) = None"
| "job_remote (Write_job i error remote) = remote"

definition plain_job :: "job \<Rightarrow> bool" where
  "plain_job j \<longleftrightarrow> (case job_remote j of None \<Rightarrow> True | Some ip \<Rightarrow> plain_address ip)"

definition plain_peers :: "'fs server \<Rightarrow> bool" where
  "plain_peers s \<longleftrightarrow> (\<forall>i c. sessions s i = Some c \<longrightarrow> plain_address (peer_ip c))"

lemma perform_plain:
  assumes "plain_peers s" and "plain_job j" and "perform E j s = Inr s'"
  shows "plain_peers s'"
  using assms
  by (cases j)
     (auto simp: plain_peers_def plain_job_def handle_accept_def start_accept_def accept_completed_def
        start_def finish_def handle_read_def handle_write_def split: if_splits option.splits sum.splits prod.splits)

section \<open>The metrics of a run\<close>

text \<open>An exchange and its record of metrics.\<close>

definition measured :: "('fs, 'j) world \<Rightarrow> exchange \<Rightarrow> log_entry \<Rightarrow> bool" where
  "measured E x e \<longleftrightarrow>
     (case x of (ip, bytes, reply) \<Rightarrow>
        \<exists>r more. reply = print_response E r \<and> answer_complete r \<and> e = INFO (metrics_start ip r @ more))"

lemma metrics_of_append [simp]: "metrics_of (es @ fs) = metrics_of es @ metrics_of fs"
  by (simp add: metrics_of_def)

lemma metrics_of_start: "plain_address ip \<Longrightarrow> metrics_of (start_log ip) = []"
  using quiet_metrics [of "start_log ip" "[]"] by (cases ip) (simp_all add: start_log_def plain_address_def)

lemma job_metrics:
  assumes inv: "server_inv E R0 s" and plain: "plain_peers s" "plain_job j" and run: "perform E j s = Inr s'"
  shows "list_all2 (measured E) (exchange_of j s') (metrics_of (job_log E j s))"
proof (cases j)
  case (Accept_job i error remote)
  then show ?thesis using plain(2)
    by (auto simp: exchange_of_def job_log_def plain_job_def metrics_of_start split: option.splits)
next
  case (Write_job i error remote)
  then show ?thesis using plain(2)
    by (auto simp: exchange_of_def job_log_def plain_job_def metrics_of_start split: option.splits)
next
  case (Read_job i error bytes)
  obtain c where c: "sessions s i = Some c" using run Read_job by (auto split: option.splits)
  then have ip: "plain_address (peer_ip c)" using plain(1) by (simp add: plain_peers_def)
  show ?thesis
  proof (cases error)
    case False
    let ?data = "fill bytes (in_data c)"
    obtain a fs R where gen: "generate_response E (peer_ip c) ?data (int (length bytes)) (files s, routes s) = (a, fs, R)"
      by (metis prod_cases3)
    obtain r where r: "a = Inr r" and s': "exchange_of j s' = [(peer_ip c, bytes, print_response E r)]"
      using run Read_job c False gen
      by (cases a) (auto simp: handle_read_def get_reply_def finish_def exchange_of_def)
    have "answer_complete r" using generate_response_complete gen by (simp add: r)
    moreover have "\<exists>more. metrics_of (job_log E j s) = [INFO (metrics_start (peer_ip c) r @ more)]"
      using response_metrics [OF ip, of E ?data "int (length bytes)" "(files s, routes s)"] gen
      by (simp add: r job_log_def Read_job c False) (rule exI, rule refl)
    ultimately show ?thesis unfolding s' measured_def by auto blast
  qed (simp add: Read_job exchange_of_def job_log_def)
qed

lemma run_metrics:
  assumes "traced E s0 tr s" and "server_inv E R0 s0" and "plain_peers s0" and "list_all plain_job (map fst tr)"
  shows "plain_peers s \<and> list_all2 (measured E) (exchanges tr) (metrics_of (records E tr))"
  using assms(1,4)
proof (induction rule: traced.induct)
  case traced_start
  then show ?case using assms(3) by simp
next
  case (traced_job tr s j s')
  then have plain: "plain_peers s" "plain_job j" "list_all2 (measured E) (exchanges tr) (metrics_of (records E tr))"
    by simp_all
  have "server_inv E R0 s" by (rule served_inv [OF traced_served [OF traced_job.hyps(1)] assms(2)])
  from job_metrics [OF this plain(1,2) traced_job.hyps(3)] plain(3) perform_plain [OF plain(1,2) traced_job.hyps(3)]
  show ?case by (simp add: list_all2_appendI)
qed

section \<open>The start leaves no metrics\<close>

lemma quiet_parse: "quiet (parse_loop_log i st)"
proof (induction i st rule: parse_loop_log.induct)
  case (1 i st)
  obtain t v i' where tok: "ParseToken i = (t, v, i')" by (metis prod_cases3)
  have "quiet (token_log t v st)"
    by (cases t)
       (simp_all add: normal_log_def directive_log_def safeportSTOI_log_def root_log_def api_key_log_def
          end_block_log_def empty_block_log_def mapped_before_def map_location_def Let_def
          split: list.split prod.split sum.split)
  then show ?case using "1.IH" [OF tok [symmetric] refl refl]
    by (cases "parse_token_step t v st") (simp_all add: parse_loop_log_step [OF tok] bad_transition_def)
qed

lemma quiet_dispatcher: "quiet (create_dispatcher_log E m fs)"
  by (induction m arbitrary: fs)
     (auto simp: new_factory_log_def make_root_log_def split: prod.split sum.split)

lemma quiet_serving_start:
  assumes "fst (main E binds argv fs) = Inr (Serving port s)"
  shows "quiet (main_log E binds what cores argv fs)"
  using assms
  by (auto simp: main_def main_log_def Parse_file_log_def Parse_log_def quiet_parse new_server_log_def quiet_dispatcher
      serving_message_def Let_def split: if_splits option.splits prod.splits sum.splits)

end
