(* ===== verification/Spec2Isabelle.thy ===== *)
theory Spec2Isabelle
  imports Config_Grammar Crud_Service Crud_Races Crud_Data_Race Text_Gen_Service Server_Live Server_Log
begin

text \<open>
  A verification library for the Googolplex web server, a C++ HTTP server on Boost.Asio and
  Boost.Beast. \<open>main\<close> parses a configuration file into a port and a map from locations to
  handler arguments, and starts a server. The server makes a factory per location; a session
  per connection reads a request into a buffer of 1024 bytes, finds the longest location
  that fits the target, lets the factory of that location make a handler, and writes the
  handler's response back. Seven handlers exist: static files, echo, health, not found,
  block, CRUD and text generation. File names below are relative to \<open>src/\<close> and \<open>include/\<close>
  of the repository.

  Theories, in the order of their imports:

  \<^item> \<open>Prelude\<close>: how a call ends (it returns, or an exception, an \<open>exit\<close> or undefined
    behaviour stops it), the collections of rules.
  \<^item> \<open>Refinement\<close>: sequences of operations; the locales \<open>invariant\<close> and \<open>refinement\<close>, which
    lift a step by step simulation to sequences, and \<open>refinement_family\<close>, for components that
    serve several clients.
  \<^item> \<open>Cpp_Std\<close>, \<open>Std_Map\<close>: the parts of the standard library the program computes with:
    searches in strings, \<open>std::to_string\<close>, \<open>std::stoi\<close>, the characters of a stream, and
    \<open>std::map\<close> (the locale \<open>std_map\<close>, interpreted on sorted sequences of entries).
  \<^item> \<open>Config_Lexer\<close>: \<open>ParseToken\<close> of \<open>config_parser.cc\<close>, a character automaton, and its
    equivalence with a reference tokenizer on whole runs of characters.
  \<^item> \<open>Config_Parser\<close>: \<open>Parse\<close>, \<open>ToString\<close>, \<open>safeportSTOI\<close> of \<open>config_parser.cc\<close>; the body
    of the loop of \<open>Parse\<close> is one function per kind of token. The stack of pointers into the
    tree is a list of the blocks they point to.
  \<^item> \<open>Config_Semantics\<close>: what a configuration means (port and address map), and that \<open>Parse\<close>
    computes it on the printed form of a tree.
  \<^item> \<open>Config_Safety\<close>: the invariant of \<open>Parse\<close> on every input, and the inputs on which it has
    undefined behaviour or drops text.
  \<^item> \<open>Config_Braces\<close>: a scan of the braces of a text that excludes undefined behaviour.
  \<^item> \<open>Config_Grammar\<close>: the texts \<open>Parse\<close> accepts are those whose lexemes are a tree's, and
    what it makes of a block that follows no word; a quote inside a word is not printed back.
  \<^item> \<open>Http\<close>: requests, responses as the sequence of the calls made on them, and the record
    \<open>world\<close> of the functions of the operating system and of the libraries.
  \<^item> \<open>Request_Handler\<close>: the base class in \<open>request_handler.cc\<close>.
  \<^item> \<open>Files\<close>, \<open>Mem_World\<close>: the hypotheses \<open>posix_files\<close> and \<open>list_works\<close> on the files below a
    directory, what the file helpers do under them, and a concrete world that satisfies them.
  \<^item> \<open>Simple_Handlers\<close>: static, echo, health, not-found and block handlers; the locale
    \<open>handler_contract\<close> of what a session relies on, interpreted on every handler.
  \<^item> \<open>Crud\<close>, \<open>Crud_Store\<close>: \<open>request_handler_crud.cc\<close>, and its refinement of a store of entities,
    each a finite map from ids to contents.
  \<^item> \<open>Interleaving\<close>: threads on a shared state whose steps a schedule orders.
  \<^item> \<open>Crud_Threads\<close>: the operations of \<open>request_handler_crud.cc\<close> cut into their accesses to the
    shared map and the files, for several threads; undisturbed they give what \<open>Crud\<close> gives.
  \<^item> \<open>Crud_Data_Race\<close>: which of these accesses C++ leaves undefined when they meet, and that they do.
  \<^item> \<open>Crud_Races\<close>: what two requests to one entity do to each other even if no access is torn.
  \<^item> \<open>Text_Gen\<close>, \<open>Text_Gen_Store\<close>, \<open>Text_Gen_Clients\<close>: \<open>request_handler_text_gen.cc\<close>, its
    refinement, for one client, of a map from titles to entries, and for any number of
    clients, of a map each (the locale \<open>refinement_family\<close>).
  \<^item> \<open>Factory\<close>: \<open>request_handler_factory.cc\<close> and the virtual call of \<open>handle_request\<close>.
  \<^item> \<open>Session\<close>: \<open>session.cc\<close>: routing, parsing, the response, the completion handlers of a
    connection.
  \<^item> \<open>Server\<close>: \<open>server.cc\<close> and \<open>server_main.cc\<close>: dispatcher, accepts, the step relation of the
    completions and its reachable states, \<open>main\<close>.
  \<^item> \<open>Server_Pool\<close>: the threads of \<open>server::start\<close>, \<open>stop\<close>, the destructor, \<open>signalHandler\<close> and
    the ways in which the process ends. As long as no two handlers of requests overlap, the pool
    does what the relation of \<open>Server\<close> does; once they have, it may do anything to the files, the
    routes and the sessions of these requests.
  \<^item> \<open>Server_Live\<close>: the liveness of sessions.
  \<^item> \<open>Service\<close>, \<open>Server_History\<close>: a location among others, from the bytes of a request to the
    printed reply (the locale \<open>location_service\<close>), and the runs of a pool with their jobs and the
    exchanges of requests and replies on all connections: a run without overlapping handlers
    handles its requests one after the other, and every such sequence is a run.
  \<^item> \<open>Crud_Service\<close>, \<open>Text_Gen_Service\<close>: the refinement of the stores by a CRUD location and by
    a text generation location (interpretations of \<open>location_service\<close>).
  \<^item> \<open>Log_Records\<close>: \<open>log.cc\<close> and \<open>log.h\<close>: severities, the set-up of the logger and its filter,
    and the text a sequence of records makes.
  \<^item> \<open>Config_Log\<close>, \<open>Handler_Log\<close>: the records of \<open>Parse\<close>, and of the handlers and their
    factories. Each function of the code that logs has a definition of its records beside the
    definition of what it does (\<open>put_log\<close> beside \<open>handle_put_request\<close>), with the same arguments.
  \<^item> \<open>Logging\<close>: the records of a session and of \<open>main\<close> with those of the calls they make, the
    line of response metrics, and the records at the start and the end of the server.
  \<^item> \<open>Server_Log\<close>: the records of a run of the server, job by job, beside its exchanges.
  \<^item> This theory: the properties that take \<open>main\<close>, a session and a handler together.

  Groups of properties: the tokenizer agrees with its reference and every string can be
  quoted; \<open>Parse\<close> inverts \<open>ToString\<close> on trees whose words can be written, accepts the lexemes of
  trees and keeps its invariant; the CRUD and text generation handlers refine their stores for
  all sequences of valid operations; routing finds the longest location; what is complete about a
  response; the invariant of the server over all orders of completions, that it keeps accepting,
  how it ends, and the liveness of its sessions; a CRUD and a text generation location from the
  configuration file to the exchanges of any run of the pool in which handlers of requests do
  not overlap; what goes wrong when CRUD requests do overlap; what is logged (one record of
  metrics per reply, an error record that names the token when \<open>Parse\<close> fails, the last record
  of \<open>main\<close>, no API keys where they are written as meant) and where it can be misled; and the
  inputs that end the process, lose data or reach undefined behaviour.

  Loops and recursions are total functions with a measure (the length of the remaining input
  or of the url), so no fuel is used. Runs of threads are lists of steps, and runs of the
  server are reachability, finite runs with the jobs they handle, or infinite sequences with a
  fairness hypothesis: a write that stays pending completes. Machine integers are integers with the ranges written
  out: \<open>stoi\<close> fails outside \<open>int\<close>, an id given out by \<open>get_next_id\<close> is at most one more than
  the number of ids, the argument of \<open>sleep\<close> and the port of the endpoint are words of 32 and
  16 bits; the port is printed as a signed word of 16 bits.

  Parameters and hypotheses: parsing and printing of HTTP messages, JSON, libcurl,
  \<open>boost::split\<close> and \<open>join\<close>, and the files are functions of the record \<open>world\<close>. Where a
  property needs something of them it says so: \<open>posix_files\<close> (below a directory the server
  owns, without links, writing, creating and removing change the named entry only),
  \<open>list_works\<close> (iterating over such a directory gives each entry once), \<open>json_ok\<close> (a value
  with UTF-8 strings can be written and is read back) and \<open>boost_strings\<close>.

  Threads: the handlers of the pool share the files and the id maps, and nothing in the code
  locks them. Statements that something always holds are made of runs in which no two handlers
  of requests overlap (on one thread they never do), or, where they say nothing about files,
  id maps and replies, of all runs, with the overlapping handlers free to do anything. The
  accesses of overlapping CRUD requests are modelled one by one for the opposite purpose: to
  show what can go wrong. That each access is one step is then the best case, as for C++ these
  accesses are a data race and undefined.

  Not modelled: how Boost.Log makes the stamp of a record and rotates its files, the record of
  the \<open>catch\<close> in \<open>parse_post_body\<close> (nothing in its \<open>try\<close> throws), how the records of threads
  that run at the same time interleave, what handlers other than CRUD do to each other when
  they overlap, the boolean results of \<open>handle_accept\<close>, \<open>handle_read\<close> and \<open>handle_write\<close>
  (nothing reads them), the passing of time in \<open>sleep\<close>, running out of memory, and the errors
  \<open>boost::filesystem\<close> throws when a path cannot be inspected. The text generation service is a
  function of its url, the key and the prompt: asked again, it answers the same.
\<close>

section \<open>From a configuration to a running server\<close>

lemma addrmap_ok_empty: "addrmap_ok []"
  by (simp add: addrmap_ok_def)

lemma Parse_file_ok:
  assumes "Parse_file contents (Config []) (-1) [] = (r, c, port, m)"
  shows "-1 \<le> port" and "port \<le> 65535" and "addrmap_ok m"
proof -
  have "-1 \<le> port \<and> port \<le> 65535 \<and> addrmap_ok m"
  proof (cases contents)
    case None
    then show ?thesis using assms by (auto simp: Parse_file_def addrmap_ok_empty)
  next
    case (Some s)
    then have "Parse (open_stream s) (Config []) [] = (r, c, port, m)" using assms by (simp add: Parse_file_def)
    from Parse_inv [OF addrmap_ok_empty this] show ?thesis by simp
  qed
  then show "-1 \<le> port" "port \<le> 65535" "addrmap_ok m" by simp_all
qed

lemma main_Serving:
  assumes "main E binds argv fs = (Inr (Serving port s), fs')"
  obtains contents r c p m where "Parse_file contents (Config []) (-1) [] = (r, c, p, m)"
    "valid_handlers m" "port = endpoint_port p" "new_server E m fs = (Inr s, fs')"
  using assms
  by (auto simp: main_def Let_def split: if_splits prod.splits sum.splits)

text \<open>A factory can be made without a change of the files: a CRUD factory needs its root for that.\<close>

definition root_ready :: "('fs, 'j) world \<Rightarrow> 'fs \<Rightarrow> string \<Rightarrow> string \<Rightarrow> bool" where
  "root_ready E fs t rt \<longleftrightarrow> (t = ''CrudHandler'' \<longrightarrow> fs_exists E fs rt \<and> fs_is_directory E fs rt)"

lemma kind_of_Crud: "kind_of t = CrudHandler \<longleftrightarrow> t = ''CrudHandler''"
  by (auto simp: kind_of_def)

lemma new_factory_pure:
  "root_ready E fs t (root arg) \<Longrightarrow>
     new_factory E (kind_of t) arg fs = (Inr \<lparr>fkind = kind_of t, farg = arg, file_to_id = []\<rparr>, fs)"
  by (auto simp: new_factory_def root_ready_def kind_of_Crud make_root_def Let_def)

lemma create_dispatcher_pure:
  "\<forall>e \<in> set m. root_ready E fs (handler_type (snd e)) (root (snd e)) \<Longrightarrow>
     \<exists>R'. create_dispatcher E m (fs, R) = (Inr (), fs, R')"
proof (induction m arbitrary: R)
  case (Cons e m)
  then show ?case by (cases e) (simp add: new_factory_pure)
qed simp

lemma new_server_pure:
  assumes "\<forall>e \<in> set m. root_ready E fs (handler_type (snd e)) (root (snd e))"
  shows "\<exists>s. new_server E m fs = (Inr s, fs)"
proof -
  obtain R where "create_dispatcher E m (fs, []) = (Inr (), fs, R)"
    using create_dispatcher_pure [OF assms, where R = "[]"] by blast
  then show ?thesis by (simp add: new_server_def)
qed

text \<open>
  A server started on the printed form of a configuration tree: it has the port and, for each
  binding of the address map the tree means, a factory of its own.
\<close>

lemma main_of_tree:
  assumes tree: "wf_config c" "sem_config c (-1, []) = Some (port, m)" and port: "0 \<le> port"
    and valid: "valid_handlers m" "\<forall>e \<in> set m. root_ready E fs (handler_type (snd e)) (root (snd e))"
    and conf: "fs_opens E fs file" "fs_bytes E fs file = config_to_string 0 c"
    and binds: "binds port"
  shows "addrmap_ok m"
    and "\<exists>s. main E binds [program, file] fs = (Inr (Serving port s), fs) \<and> files s = fs \<and>
      (\<forall>loc. map_find (routes s) loc =
         map_option (\<lambda>a. \<lparr>fkind = kind_of (handler_type a), farg = a, file_to_id = []\<rparr>) (map_find m loc)) \<and>
      server_inv E (routes s) s \<and> sessions s = (\<lambda>_. None)"
proof -
  have run: "Parse (open_stream (config_to_string 0 c)) (Config []) [] = (Inr True, c, port, m)"
    using Parse_config_to_string [OF tree(1), where m = "[]" and d = 0] by (simp add: tree(2))
  from Parse_inv [OF addrmap_ok_empty this] have ok: "addrmap_ok m" "port \<le> 65535" by simp_all
  then show "addrmap_ok m" by simp
  have mok: "map_ok m" using ok by (simp add: addrmap_ok_def)
  obtain s where new: "new_server E m fs = (Inr s, fs)"
    using new_server_pure [OF valid(2)] by blast
  have ep: "endpoint_port port = port" using port ok(2) by (simp add: endpoint_port_mod)
  have main: "main E binds [program, file] fs = (Inr (Serving port s), fs)"
    using conf binds valid(1) new by (simp add: main_def Parse_file_def run ep)
  then show "\<exists>s. main E binds [program, file] fs = (Inr (Serving port s), fs) \<and> files s = fs \<and>
      (\<forall>loc. map_find (routes s) loc =
         map_option (\<lambda>a. \<lparr>fkind = kind_of (handler_type a), farg = a, file_to_id = []\<rparr>) (map_find m loc)) \<and>
      server_inv E (routes s) s \<and> sessions s = (\<lambda>_. None)"
    using new_server_inv [OF new mok] by (auto simp: new_server_routes [OF new mok])
qed

text \<open>What a server is configured with: a port, and routes of known types whose roots are ready.\<close>

definition served_routes :: "('fs, 'j) world \<Rightarrow> 'fs \<Rightarrow> (string \<times> string \<times> string) list \<Rightarrow> bool" where
  "served_routes E fs rts \<longleftrightarrow>
     list_all route_ok rts \<and> distinct (map fst rts) \<and>
     (\<forall>loc t rt. (loc, t, rt) \<in> set rts \<longrightarrow> t \<in> set valid_handler_types \<and> root_ready E fs t rt)"

lemma server_config_meaning:
  assumes "0 \<le> port" and "port \<le> 65535" and "served_routes E fs rts"
  defines "m \<equiv> fold bind_route rts []"
  shows "wf_config (server_config port rts)" and "sem_config (server_config port rts) (-1, []) = Some (port, m)"
    and "(loc, t, rt) \<in> set rts \<Longrightarrow> map_find m loc = Some \<lparr>handler_type = t, location = loc, root = rt, api_key = []\<rparr>"
    and "loc \<notin> fst ` set rts \<Longrightarrow> map_find m loc = None"
proof -
  have rts: "list_all route_ok rts" "distinct (map fst rts)" using assms(3) by (simp_all add: served_routes_def)
  show "wf_config (server_config port rts)" by (rule wf_server_config [OF assms(1) rts(1)])
  show "sem_config (server_config port rts) (-1, []) = Some (port, m)"
    unfolding m_def by (rule sem_server_config [OF assms(1,2) rts(1)])
  show "map_find m loc = Some \<lparr>handler_type = t, location = loc, root = rt, api_key = []\<rparr>"
    if "(loc, t, rt) \<in> set rts"
    unfolding m_def using find_bind_route [OF rts(2) that] by simp
  show "map_find m loc = None" if "loc \<notin> fst ` set rts"
    unfolding m_def using find_bind_route_notin [OF that] by simp
qed

text \<open>A server that is configured so serves, with the files as they were and these routes.\<close>

lemma main_configured:
  assumes port: "0 \<le> port" "port \<le> 65535" and rts: "served_routes E fs rts"
    and conf: "fs_opens E fs file" "fs_bytes E fs file = config_to_string 0 (server_config port rts)"
    and binds: "binds port"
  shows "\<exists>s. main E binds [program, file] fs = (Inr (Serving port s), fs) \<and> files s = fs \<and>
    (\<forall>loc t rt. (loc, t, rt) \<in> set rts \<longrightarrow> map_find (routes s) loc =
       Some \<lparr>fkind = kind_of t, farg = \<lparr>handler_type = t, location = loc, root = rt, api_key = []\<rparr>,
             file_to_id = []\<rparr>) \<and>
    (\<forall>loc. loc \<notin> fst ` set rts \<longrightarrow> map_find (routes s) loc = None)"
proof -
  let ?m = "fold bind_route rts []"
  note conf_means = server_config_meaning [OF port rts]
  have run: "Parse (open_stream (config_to_string 0 (server_config port rts))) (Config []) [] =
      (Inr True, server_config port rts, port, ?m)"
    using Parse_config_to_string [OF conf_means(1), where m = "[]" and d = 0] by (simp add: conf_means(2))
  have "map_ok ?m" using Parse_inv(3) [OF addrmap_ok_empty run] by (simp add: addrmap_ok_def)
  have types: "handler_type a \<in> set valid_handler_types \<and> root_ready E fs (handler_type a) (root a)"
    if "(loc, a) \<in> set ?m" for loc a
  proof -
    have find: "map_find ?m loc = Some a" using that map_ok_distinct [OF \<open>map_ok ?m\<close>] by simp
    then have "loc \<in> fst ` set rts" using conf_means(4) by fastforce
    then obtain t rt where "(loc, t, rt) \<in> set rts" by force
    then show ?thesis using conf_means(3) find rts by (fastforce simp: served_routes_def)
  qed
  then have valid: "valid_handlers ?m" "\<forall>e \<in> set ?m. root_ready E fs (handler_type (snd e)) (root (snd e))"
    by (auto simp: valid_handlers_def list_all_iff)
  obtain s where "main E binds [program, file] fs = (Inr (Serving port s), fs)" "files s = fs"
      "\<forall>loc. map_find (routes s) loc =
         map_option (\<lambda>a. \<lparr>fkind = kind_of (handler_type a), farg = a, file_to_id = []\<rparr>) (map_find ?m loc)"
    using main_of_tree(2) [where binds = binds and program = program,
      OF conf_means(1,2) port(1) valid conf binds] by blast
  then show ?thesis using conf_means(3,4) by auto
qed

text \<open>
  A location is the only one that keeps a state when no other has a CRUD or a text generation
  handler, and none is below it.
\<close>

definition sole_service :: "addrmap \<Rightarrow> string \<Rightarrow> bool" where
  "sole_service m loc \<longleftrightarrow>
     (\<forall>l a. map_find m l = Some a \<longrightarrow> take (length loc + 1) l \<noteq> loc @ ''/'' \<and>
        (l \<noteq> loc \<longrightarrow> handler_type a \<noteq> ''CrudHandler'' \<and> handler_type a \<noteq> ''TextGenHandler''))"

lemma kind_of_stateful:
  "kind_of t = CrudHandler \<longleftrightarrow> t = ''CrudHandler''" "kind_of t = TextGenHandler \<longleftrightarrow> t = ''TextGenHandler''"
  by (auto simp: kind_of_def)

lemma main_location:
  assumes tree: "wf_config c" "sem_config c (-1, []) = Some (port, m)" "0 \<le> port" "valid_handlers m"
      "\<forall>e \<in> set m. root_ready E fs (handler_type (snd e)) (root (snd e))"
      "fs_opens E fs file" "fs_bytes E fs file = config_to_string 0 c" "binds port"
    and loc: "map_find m loc = Some a" "sole_service m loc"
  obtains s where "main E binds [program, file] fs = (Inr (Serving port s), fs)" "files s = fs"
    "map_find (routes s) loc = Some \<lparr>fkind = kind_of (handler_type a), farg = a, file_to_id = []\<rparr>"
    "location a = loc" "loc \<noteq> []" "none_below (routes s) loc" "quiet_elsewhere (routes s) loc"
    "server_inv E (routes s) s" "sessions s = (\<lambda>_. None)"
proof -
  obtain s where s: "main E binds [program, file] fs = (Inr (Serving port s), fs)" "files s = fs"
    "\<And>l. map_find (routes s) l =
       map_option (\<lambda>a. \<lparr>fkind = kind_of (handler_type a), farg = a, file_to_id = []\<rparr>) (map_find m l)"
    "server_inv E (routes s) s" "sessions s = (\<lambda>_. None)"
    using main_of_tree(2) [where binds = binds and program = program, OF tree] by blast
  have arg: "location a = loc" "loc \<noteq> []"
    using addrmap_ok_find [OF main_of_tree(1) [where binds = binds, OF tree] loc(1)] by (simp_all add: arg_ok_def)
  have "none_below (routes s) loc" "quiet_elsewhere (routes s) loc"
    using loc(2) by (auto simp: none_below_def quiet_elsewhere_def sole_service_def s(3) kind_of_stateful)
  with s(1,2) s(3) [of loc] s(4,5) loc(1) arg show thesis by (intro that) simp_all
qed

section \<open>From a request to its reply\<close>

lemma dispatch_static:
  assumes "fkind f = StaticHandler" and "req_target req = location (farg f) @ ''/'' @ x"
    and "x \<noteq> []" and "last x \<noteq> CHR ''/''" and "node_at E fs (root (farg f) @ ''/'' @ x) = Some (FileNode b)"
  shows "\<exists>r'. dispatch E ip loc f req r (fs, R) = (Inr r', fs, map_assign loc f R) \<and>
    status_of r' = Some St_ok \<and> body_of r' = b"
proof -
  let ?h = "set_client_ip ip (new_handler (location (farg f)) (root (farg f)))"
  have "static_path ?h (req_target req) = Some (dir ?h @ ''/'' @ x)"
    using static_path_suffix [OF assms(3,4), of ?h] assms(2) by (simp add: set_client_ip_def new_handler_def)
  moreover have "node_at E fs (dir ?h @ ''/'' @ x) = Some (FileNode b)"
    using assms(5) by (simp add: set_client_ip_def new_handler_def)
  ultimately obtain r' where "static_handle E ?h fs req r = (Inr True, r', fs)"
      "status_of r' = Some St_ok" "body_of r' = b"
    using static_serves [of ?h req _ E fs b r] by blast
  then show ?thesis
    by (simp add: dispatch_def create_handler_def assms(1) handle_request_def with_ids_def)
qed

lemma dispatch_put_overflow:
  assumes "fkind f = CrudHandler" and "req_method req = Verb_put"
    and "req_target req = location (farg f) @ ''/'' @ e @ ''/'' @ ds"
    and "e \<noteq> []" and "ds \<noteq> []" and "list_all is_digit ds" and "int_max < digits_value ds"
  shows "\<exists>s'. dispatch E ip loc f req r (fs, R) = (Inl (Uncaught OutOfRange), s')"
proof -
  let ?h = "set_client_ip ip (new_handler (location (farg f)) (root (farg f)))"
  have "req_target req = prefix ?h @ ''/'' @ e @ ''/'' @ ds"
    using assms(3) by (simp add: set_client_ip_def new_handler_def)
  from put_overflow [OF assms(2) this assms(4-7), where E = E and s = "(fs, file_to_id f)" and r = r]
  show ?thesis by (simp add: dispatch_def create_handler_def assms(1) handle_request_def)
qed

section \<open>Properties\<close>

text \<open>C25: a server that \<open>main\<close> starts has a valid port, and each of its routes is a location that
  is not empty with a known handler type, its factory and its own arguments.\<close>

theorem main_serves_valid_routes:
  assumes "main E binds argv fs = (Inr (Serving port s), fs')" and "map_find (routes s) loc = Some f"
  shows "0 \<le> port \<and> port \<le> 65535 \<and> loc \<noteq> [] \<and> location (farg f) = loc \<and>
    handler_type (farg f) \<in> set valid_handler_types \<and> fkind f = kind_of (handler_type (farg f))"
proof -
  obtain contents r c p m where m: "Parse_file contents (Config []) (-1) [] = (r, c, p, m)"
    "valid_handlers m" "port = endpoint_port p" "new_server E m fs = (Inr s, fs')"
    using main_Serving [OF assms(1)] .
  note ok = Parse_file_ok [OF m(1)]
  have mok: "map_ok m" using ok(3) by (simp add: addrmap_ok_def)
  obtain a where a: "map_find m loc = Some a" "f = \<lparr>fkind = kind_of (handler_type a), farg = a, file_to_id = []\<rparr>"
    using assms(2) new_server_routes(1) [OF m(4) mok, of loc] by (cases "map_find m loc") auto
  have "handler_type a \<in> set valid_handler_types"
    using m(2) map_of_SomeD [OF a(1)] by (auto simp: valid_handlers_def list_all_iff)
  then show ?thesis
    using a addrmap_ok_find [OF ok(3) a(1)] by (simp add: arg_ok_def m(3) endpoint_port_mod)
qed

text \<open>A world with a configuration file, for the witnesses.\<close>

definition site_routes :: "(string \<times> string \<times> string) list" where
  "site_routes = [(''/s'', ''StaticHandler'', ''d'')]"

definition site_files :: mem where
  "site_files = [''conf'' \<mapsto> FileNode (config_to_string 0 (server_config 80 site_routes)),
                 ''d/a'' \<mapsto> FileNode ''hello'']"

lemma site_plain: "served_routes mem_world site_files site_routes"
  by (simp add: root_ready_def served_routes_def site_routes_def route_ok_def is_directive_def token_ok_def bare_token_def
      ends_token_def valid_handler_types_def)

lemma site_main:
  obtains s where "main mem_world (\<lambda>_. True) [''server'', ''conf''] site_files = (Inr (Serving 80 s), site_files)"
    "map_find (routes s) ''/s'' = Some \<lparr>fkind = StaticHandler,
       farg = \<lparr>handler_type = ''StaticHandler'', location = ''/s'', root = ''d'', api_key = []\<rparr>, file_to_id = []\<rparr>"
proof -
  have "fs_opens mem_world site_files ''conf''"
    "fs_bytes mem_world site_files ''conf'' = config_to_string 0 (server_config 80 site_routes)"
    by (simp_all add: mem_world_def site_files_def is_file_node_def mem_bytes_def)
  from main_configured [where port = 80 and binds = "\<lambda>_. True" and program = "''server''", OF _ _ site_plain this]
  obtain s where "main mem_world (\<lambda>_. True) [''server'', ''conf''] site_files = (Inr (Serving 80 s), site_files)"
    "\<forall>loc t rt. (loc, t, rt) \<in> set site_routes \<longrightarrow> map_find (routes s) loc =
       Some \<lparr>fkind = kind_of t, farg = \<lparr>handler_type = t, location = loc, root = rt, api_key = []\<rparr>,
             file_to_id = []\<rparr>" by auto
  then show thesis using that by (simp add: site_routes_def kind_of_def)
qed

lemma main_serves_valid_routes_witness:
  "\<exists>s f. main mem_world (\<lambda>_. True) [''server'', ''conf''] site_files = (Inr (Serving 80 s), site_files) \<and>
     map_find (routes s) ''/s'' = Some f \<and> handler_type (farg f) \<in> set valid_handler_types"
proof -
  obtain s where s: "main mem_world (\<lambda>_. True) [''server'', ''conf''] site_files = (Inr (Serving 80 s), site_files)"
    "map_find (routes s) ''/s'' = Some \<lparr>fkind = StaticHandler,
       farg = \<lparr>handler_type = ''StaticHandler'', location = ''/s'', root = ''d'', api_key = []\<rparr>, file_to_id = []\<rparr>"
    by (rule site_main)
  from main_serves_valid_routes [OF s] s show ?thesis by auto
qed

text \<open>C9: end to end. A server started on the text of a configuration with a static location
  answers a request for a file below that location, where no longer location fits, with
  status 200 and the bytes of the file below the location's root.\<close>

theorem configured_static_file_served:
  assumes "0 \<le> port" and "port \<le> 65535" and "served_routes E fs rts"
    and "fs_opens E fs file" and "fs_bytes E fs file = config_to_string 0 (server_config port rts)"
    and "binds port" and "(loc, ''StaticHandler'', rt) \<in> set rts"
    and "length bytes < max_length" and "CHR 0x00 \<notin> set bytes" and "parse_http E bytes = Some req"
    and "req_target req = loc @ ''/'' @ x" and "x \<noteq> []" and "last x \<noteq> CHR ''/''"
    and "\<And>l. l \<in> candidates (req_target req @ ''/'') \<Longrightarrow> l \<in> fst ` set rts \<Longrightarrow> length l \<le> length loc"
    and "node_at E fs (rt @ ''/'' @ x) = Some (FileNode b)"
  shows "\<exists>s r s'. main E binds [program, file] fs = (Inr (Serving port s), fs) \<and>
    get_reply E ip (fill bytes zero_buffer) (int (length bytes)) (files s, routes s) = (Inr (print_response E r), s') \<and>
    status_of r = Some St_ok \<and> body_of r = b"
proof -
  obtain s where s: "main E binds [program, file] fs = (Inr (Serving port s), fs)" "files s = fs"
    "\<And>loc t rt. (loc, t, rt) \<in> set rts \<Longrightarrow> map_find (routes s) loc =
       Some \<lparr>fkind = kind_of t, farg = \<lparr>handler_type = t, location = loc, root = rt, api_key = []\<rparr>,
             file_to_id = []\<rparr>"
    "\<And>loc. loc \<notin> fst ` set rts \<Longrightarrow> map_find (routes s) loc = None"
    using main_configured [where binds = binds and program = program, OF assms(1-6)] by blast
  let ?f = "\<lparr>fkind = StaticHandler, farg = \<lparr>handler_type = ''StaticHandler'', location = loc, root = rt, api_key = []\<rparr>,
             file_to_id = []\<rparr>"
  have f: "map_find (routes s) loc = Some ?f" using s(3) [OF assms(7)] by (simp add: kind_of_def)
  have "loc \<noteq> []"
    using assms(3,7) token_ok_not_Nil by (fastforce simp: served_routes_def list_all_iff route_ok_def)
  then have "loc \<in> candidates (req_target req @ ''/'')" unfolding assms(11) by (rule candidates_below)
  moreover have "length l \<le> length loc"
    if "l \<in> candidates (req_target req @ ''/'')" "map_find (routes s) l \<noteq> None" for l
    using assms(14) [OF that(1)] s(4) [of l] that(2) by blast
  ultimately have longest: "longest_route (routes s) (req_target req @ ''/'') loc"
    using f by (simp add: longest_route_def)
  have "node_at E fs (root (farg ?f) @ ''/'' @ x) = Some (FileNode b)"
    "req_target req = location (farg ?f) @ ''/'' @ x" using assms(11,15) by simp_all
  from dispatch_static [OF _ this(2) assms(12,13) this(1), of ip loc "set_field allow_origin_field ''*'' []" "routes s"]
  obtain r where r: "dispatch E ip loc ?f req (set_field allow_origin_field ''*'' []) (fs, routes s) =
      (Inr r, fs, map_assign loc ?f (routes s))" "status_of r = Some St_ok" "body_of r = b" by auto
  from reply_of_request [OF assms(8-10) longest f r(1)] r(2,3) s(1,2) show ?thesis by auto
qed

lemma configured_static_file_served_witness:
  "\<exists>s r s'. main mem_world (\<lambda>_. True) [''server'', ''conf''] site_files = (Inr (Serving 80 s), site_files) \<and>
    get_reply mem_world ''1.2.3.4'' (fill (''GET /s/a'' @ [CHR 0x0A]) zero_buffer)
      (int (length (''GET /s/a'' @ [CHR 0x0A]))) (files s, routes s) = (Inr (print_response mem_world r), s') \<and>
    status_of r = Some St_ok \<and> body_of r = ''hello''"
proof (rule configured_static_file_served [where rts = site_routes and loc = "''/s''" and rt = "''d''" and x = "''a''"
      and req = "\<lparr>req_method = Verb_get, req_target = ''/s/a'', req_body = [], req_fields = []\<rparr>"])
  show "node_at mem_world site_files (''d'' @ ''/'' @ ''a'') = Some (FileNode ''hello'')"
    by (simp add: node_at_mem site_files_def max_file_def)
  show "parse_http mem_world (''GET /s/a'' @ [CHR 0x0A]) =
      Some \<lparr>req_method = Verb_get, req_target = ''/s/a'', req_body = [], req_fields = []\<rparr>"
    by (simp add: mem_world_def mem_parse_http_def)
qed (simp_all add: site_plain, simp_all add: mem_world_def site_files_def is_file_node_def mem_bytes_def site_routes_def max_length_def)

text \<open>C1: end to end, for requests handled one at a time. A server started on a configuration with a
  CRUD location over an empty directory of its own, where no other location is below it or keeps
  a state, is a store of entities. Take any run of its pool of threads in which no two handlers
  of requests overlap, as none do on one thread: accepts, reads, writes and errors of any number
  of connections complete in any order. If every request of the run is either for another
  location or a valid operation (one-component entity, id that fits an \<open>int\<close>, body that fits a
  file), each reply to an operation is the print of a response with the status and the body that
  the abstract store gives when it handles the operations in the order of the replies, and the
  store the server holds is the abstract one. Every sequence of valid operations is the history
  of such a run, on any number of threads.\<close>

theorem configured_crud_service:
  assumes "wf_config c" and "sem_config c (-1, []) = Some (port, m)" and "0 \<le> port" and "valid_handlers m"
    and "\<forall>e \<in> set m. root_ready E fs (handler_type (snd e)) (root (snd e))"
    and "fs_opens E fs file" and "fs_bytes E fs file = config_to_string 0 c" and "binds port"
    and "map_find m loc = Some a" and "handler_type a = ''CrudHandler''" and "sole_service m loc"
    and "posix_files E (root a)" and "node_at E fs (root a) = Some DirNode"
    and "\<And>ns. valid_path ns \<Longrightarrow> ns \<noteq> [] \<Longrightarrow> node_at E fs (path_of (root a) ns) = None"
  shows "\<exists>s0. main E binds [program, file] fs = (Inr (Serving port s0), fs) \<and>
    (\<forall>n tr p qs. pool_run E (start_pool n s0) tr p \<and> (pool_size n \<le> 1 \<or> \<not> overlapped p) \<and>
         requests_of (exchanges tr) qs \<and> list_all (mixed_ok E loc (service_op_ok E (new_handler loc (root a)))) qs \<longrightarrow>
       list_all2 (mixed_reply (service_reply E)) (fst (run_ops (mixed_spec service_spec) (\<lambda>_. None) qs))
         (replies_of (exchanges tr)) \<and>
       service_store E loc (root a) (files (srv p), routes (srv p)) =
         snd (run_ops (mixed_spec service_spec) (\<lambda>_. None) qs)) \<and>
    (\<forall>n qs. 0 < pool_size n \<and> list_all (service_op_ok E (new_handler loc (root a))) qs \<longrightarrow>
       (\<exists>tr p. pool_run E (start_pool n s0) tr p \<and> \<not> overlapped p \<and> requests_of (exchanges tr) qs))"
proof -
  obtain s0 where s0: "main E binds [program, file] fs = (Inr (Serving port s0), fs)" "files s0 = fs"
    "map_find (routes s0) loc = Some \<lparr>fkind = kind_of (handler_type a), farg = a, file_to_id = []\<rparr>"
    "location a = loc" "loc \<noteq> []" "none_below (routes s0) loc" "quiet_elsewhere (routes s0) loc"
    "server_inv E (routes s0) s0" "sessions s0 = (\<lambda>_. None)"
    by (rule main_location [where binds = binds and program = program, OF assms(1-9,11)])
  have "crud_factory loc (root a) \<lparr>fkind = kind_of (handler_type a), farg = a, file_to_id = []\<rparr>"
    using assms(10) s0(4) by (simp add: crud_factory_def kind_of_def)
  from service_inv_init [OF s0(3) this _ s0(5,6) assms(12,13,14)]
  have init: "service_inv E loc (root a) (files s0, routes s0)"
      "service_store E loc (root a) (files s0, routes s0) = (\<lambda>_. None)" by (simp_all add: s0(2))
  then have "mixed_inv loc (service_inv E loc (root a)) (files s0, routes s0)"
    using s0(7,8) by (simp add: mixed_inv_def server_inv_def)
  from crud_service.pool_location [OF _ _ fresh_ready [OF s0(8,9)] s0(8) _ this]
    crud_service.own_pool_run [OF s0(8,9) init(1)]
  show ?thesis unfolding init(2) using s0(1) by blast
qed

text \<open>A world with such a configuration, and two requests.\<close>

definition store_routes :: "(string \<times> string \<times> string) list" where
  "store_routes = [(''/api'', ''CrudHandler'', ''d'')]"

definition store_files :: mem where
  "store_files = [''conf'' \<mapsto> FileNode (config_to_string 0 (server_config 80 store_routes)), ''d'' \<mapsto> DirNode]"

definition store_requests :: "store_op service_op list" where
  "store_requests =
     [(''1.2.3.4'', ''POST /api/S'' @ [CHR 0x0A] @ ''a'', Create ''S'' ''a''),
      (''5.6.7.8'', ''GET /api/S/1'' @ [CHR 0x0A], Read ''S'' 1)]"

lemma to_string_1: "to_string 1 = ''1''"
  by (simp add: to_string_def nat_str.simps digit_char_def char_of_eq_iff)

lemma store_requests_ok: "list_all (service_op_ok mem_world (new_handler ''/api'' ''d'')) store_requests"
  by (simp add: store_requests_def service_op_ok_def arrives_as_def request_to_def valid_name_def max_file_def
      max_length_def to_string_1) (simp add: mem_world_def mem_parse_http_def request_to_def to_string_1 same_request_def)

lemma configured_crud_service_witness:
  "\<exists>s0 tr p. main mem_world (\<lambda>_. True) [''server'', ''conf''] store_files = (Inr (Serving 80 s0), store_files) \<and>
    pool_run mem_world (start_pool 4 s0) tr p \<and> \<not> overlapped p \<and> requests_of (exchanges tr) store_requests \<and>
    list_all2 (mixed_reply (service_reply mem_world))
      (fst (run_ops (mixed_spec service_spec) (\<lambda>_. None) (map own_op store_requests))) (replies_of (exchanges tr))"
proof -
  let ?arg = "\<lparr>handler_type = ''CrudHandler'', location = ''/api'', root = ''d'', api_key = []\<rparr>"
  have rts: "served_routes mem_world store_files store_routes"
    by (simp add: served_routes_def store_routes_def root_ready_def route_ok_def is_directive_def token_ok_def
        bare_token_def ends_token_def valid_handler_types_def) (simp add: mem_world_def store_files_def)
  have m: "fold bind_route store_routes [] = [(''/api'', ?arg)]"
    by (simp add: store_routes_def bind_root_def map_insert_def default_arg_def)
  note tree = server_config_meaning(1,2) [OF _ _ rts, of 80, unfolded m, simplified]
  have valid: "valid_handlers [(''/api'', ?arg)]" by (simp add: valid_handlers_def valid_handler_types_def)
  have conf: "fs_opens mem_world store_files ''conf''"
      "fs_bytes mem_world store_files ''conf'' = config_to_string 0 (server_config 80 store_routes)"
    by (simp_all add: mem_world_def store_files_def is_file_node_def mem_bytes_def)
  have dir: "node_at mem_world store_files (root ?arg) = Some DirNode"
      "\<And>ns. valid_path ns \<Longrightarrow> ns \<noteq> [] \<Longrightarrow> node_at mem_world store_files (path_of (root ?arg) ns) = None"
    by (auto simp: store_files_def path_of_def neq_Nil_conv)
  have ready: "\<forall>e \<in> set [(''/api'', ?arg)]. root_ready mem_world store_files (handler_type (snd e)) (root (snd e))"
    by (simp add: root_ready_def) (simp add: mem_world_def store_files_def)
  have loc: "map_find [(''/api'', ?arg)] ''/api'' = Some ?arg" "handler_type ?arg = ''CrudHandler''"
      "sole_service [(''/api'', ?arg)] ''/api''" by (simp_all add: sole_service_def)
  from configured_crud_service [where binds = "\<lambda>_. True" and program = "''server''",
      OF tree _ valid ready conf _ loc posix_mem_world dir, simplified]
  obtain s0 where s0: "main mem_world (\<lambda>_. True) [''server'', ''conf''] store_files = (Inr (Serving 80 s0), store_files)"
    "\<And>n tr p qs. pool_run mem_world (start_pool n s0) tr p \<Longrightarrow> \<not> overlapped p \<Longrightarrow> requests_of (exchanges tr) qs \<Longrightarrow>
       list_all (mixed_ok mem_world ''/api'' (service_op_ok mem_world (new_handler ''/api'' ''d''))) qs \<Longrightarrow>
       list_all2 (mixed_reply (service_reply mem_world)) (fst (run_ops (mixed_spec service_spec) (\<lambda>_. None) qs))
         (replies_of (exchanges tr))"
    "\<And>n qs. 0 < pool_size n \<Longrightarrow> list_all (service_op_ok mem_world (new_handler ''/api'' ''d'')) qs \<Longrightarrow>
       \<exists>tr p. pool_run mem_world (start_pool n s0) tr p \<and> \<not> overlapped p \<and> requests_of (exchanges tr) qs"
    by blast
  have "0 < pool_size 4" by (simp add: pool_size_nonneg)
  from s0(3) [OF this store_requests_ok] obtain tr p where
    run: "pool_run mem_world (start_pool 4 s0) tr p" "\<not> overlapped p" "requests_of (exchanges tr) store_requests" by blast
  have "requests_of (exchanges tr) (map own_op store_requests)" using run(3) by simp
  from s0(2) [OF run(1,2) this] show ?thesis using s0(1) run store_requests_ok by (auto simp: list.pred_map comp_def)
qed

text \<open>C2: end to end, for requests handled one at a time. A server started on a configuration that
  binds a text generation location, with its key, to an empty directory of its own, where no
  other location is below it or keeps a state, keeps a map from titles to entries for each
  client. Take any run of its pool of threads in which no two handlers of requests overlap, as
  none do on one thread, and in which every request is either for another location or a valid
  operation: a title and a prompt that pass the checks, and a service that answers the prompt,
  always in the same way, with text that can be stored. Then each reply to an operation is the
  print of a response that shows what the client's map gives, whatever other clients ask in
  between, and the folders hold what the maps hold. Every sequence of valid operations is the
  history of such a run, on any number of threads.\<close>

theorem configured_text_gen_service:
  assumes "wf_config c" and "sem_config c (-1, []) = Some (port, m)" and "0 \<le> port" and "valid_handlers m"
    and "\<forall>e \<in> set m. root_ready E fs (handler_type (snd e)) (root (snd e))"
    and "fs_opens E fs file" and "fs_bytes E fs file = config_to_string 0 c" and "binds port"
    and "map_find m loc = Some a" and "handler_type a = ''TextGenHandler''" and "sole_service m loc"
    and "CHR '' '' \<notin> set loc" and "libraries_ok E utf8 clean (new_handler loc (root a))"
    and "node_at E fs (root a) = Some DirNode"
    and "\<And>ns. valid_path ns \<Longrightarrow> ns \<noteq> [] \<Longrightarrow> node_at E fs (path_of (root a) ns) = None"
  shows "\<exists>s0. main E binds [program, file] fs = (Inr (Serving port s0), fs) \<and>
    (\<forall>n tr p qs. pool_run E (start_pool n s0) tr p \<and> (pool_size n \<le> 1 \<or> \<not> overlapped p) \<and>
         requests_of (exchanges tr) qs \<and>
         list_all (mixed_ok E loc (tg_service_ok E (new_handler loc (root a)) (api_key a))) qs \<longrightarrow>
       list_all2 (mixed_reply (tg_service_reply E (new_handler loc (root a))))
         (fst (run_ops (mixed_spec (tg_service_spec E (api_key a))) (\<lambda>_. None) qs)) (replies_of (exchanges tr)) \<and>
       tg_service_store E loc (root a) (files (srv p), routes (srv p)) =
         snd (run_ops (mixed_spec (tg_service_spec E (api_key a))) (\<lambda>_. None) qs)) \<and>
    (\<forall>n qs. 0 < pool_size n \<and> list_all (tg_service_ok E (new_handler loc (root a)) (api_key a)) qs \<longrightarrow>
       (\<exists>tr p. pool_run E (start_pool n s0) tr p \<and> \<not> overlapped p \<and> requests_of (exchanges tr) qs))"
proof -
  obtain s0 where s0: "main E binds [program, file] fs = (Inr (Serving port s0), fs)" "files s0 = fs"
    "map_find (routes s0) loc = Some \<lparr>fkind = kind_of (handler_type a), farg = a, file_to_id = []\<rparr>"
    "location a = loc" "loc \<noteq> []" "none_below (routes s0) loc" "quiet_elsewhere (routes s0) loc"
    "server_inv E (routes s0) s0" "sessions s0 = (\<lambda>_. None)"
    by (rule main_location [where binds = binds and program = program, OF assms(1-9,11)])
  have "text_gen_factory loc (root a) (api_key a) \<lparr>fkind = kind_of (handler_type a), farg = a, file_to_id = []\<rparr>"
    using assms(10) s0(4) by (simp add: text_gen_factory_def kind_of_def)
  from tg_service_init [OF s0(3) this s0(5) assms(12) s0(6) assms(13,14,15)]
  have init: "tg_service_inv E utf8 clean loc (root a) (api_key a) (files s0, routes s0)"
      "tg_service_store E loc (root a) (files s0, routes s0) = (\<lambda>_. None)" by (simp_all add: s0(2))
  then have "mixed_inv loc (tg_service_inv E utf8 clean loc (root a) (api_key a)) (files s0, routes s0)"
    using s0(7,8) by (simp add: mixed_inv_def server_inv_def)
  from tg_service.pool_location [OF _ _ fresh_ready [OF s0(8,9)] s0(8) _ this]
    tg_service.own_pool_run [OF s0(8,9) init(1)]
  show ?thesis unfolding init(2) using s0(1) by blast
qed

text \<open>A world with such a configuration, and the requests of two clients.\<close>

definition text_config :: nginx_config where
  "text_config = Config
     [Statement [''listen'', ''80''] None,
      Statement [''location'', ''/tg'', ''TextGenHandler'']
        (Some (Config [Statement [''root'', ''d''] None, Statement [''api-key'', ''k''] None]))]"

definition text_files :: mem where
  "text_files = [''conf'' \<mapsto> FileNode (config_to_string 0 text_config), ''d'' \<mapsto> DirNode]"

definition text_requests :: "tg_op service_op list" where
  "text_requests =
     [(''1.2.3.4'', ''POST /tg'' @ [CHR 0x0A] @ ''title=ab&prompt=hi'', Save ''ab'' ''hi''),
      (''5.6.7.8'', ''GET /tg/ab'' @ [CHR 0x0A], Fetch ''ab''),
      (''1.2.3.4'', ''GET /tg/history?'' @ [CHR 0x0A], History)]"

lemma text_requests_ok: "list_all (tg_service_ok mem_world (new_handler ''/tg'' ''d'') ''k'') text_requests"
proof -
  have "client_ok ''1.2.3.4''" "client_ok ''5.6.7.8''" by (simp_all add: client_ok_def is_digit_def)
  moreover have "title_ok ''ab''" "check_prompts_validity ''hi''"
    by (simp_all add: title_ok_def check_title_validity_def title_max_len_def title_char_def is_letter_def
        check_prompts_validity_def text_prompt_max_len_def prompt_char_def)
  moreover have "tg_ok mem_world ''k'' (Save ''ab'' ''hi'')" using calculation(3,4)
    by (simp add: mem_world_def service_def curl_api_pieces parse_raw_output_def new_entry_def entry_json_def max_file_def)
  moreover have "parse_http mem_world (''POST /tg'' @ [CHR 0x0A] @ ''title=ab&prompt=hi'') =
      Some (tg_request (new_handler ''/tg'' ''d'') (Save ''ab'' ''hi''))"
    "parse_http mem_world (''GET /tg/ab'' @ [CHR 0x0A]) = Some (tg_request (new_handler ''/tg'' ''d'') (Fetch ''ab''))"
    "parse_http mem_world (''GET /tg/history?'' @ [CHR 0x0A]) = Some (tg_request (new_handler ''/tg'' ''d'') History)"
    by (simp_all add: mem_world_def mem_parse_http_def form_text_def title_url_def write_space_def)
  ultimately show ?thesis
    by (simp add: text_requests_def tg_service_ok_def family_ok_def arrives_as_def same_request_def max_length_def
        del: tg_ok.simps(1) tg_request.simps)
qed

lemma configured_text_gen_service_witness:
  "\<exists>s0 tr p. main mem_world (\<lambda>_. True) [''server'', ''conf''] text_files = (Inr (Serving 80 s0), text_files) \<and>
    pool_run mem_world (start_pool 4 s0) tr p \<and> \<not> overlapped p \<and> requests_of (exchanges tr) text_requests \<and>
    list_all2 (mixed_reply (tg_service_reply mem_world (new_handler ''/tg'' ''d'')))
      (fst (run_ops (mixed_spec (tg_service_spec mem_world ''k'')) (\<lambda>_. None) (map own_op text_requests)))
      (replies_of (exchanges tr))"
proof -
  let ?arg = "\<lparr>handler_type = ''TextGenHandler'', location = ''/tg'', root = ''d'', api_key = ''k''\<rparr>"
  have tree: "wf_config text_config" "sem_config text_config (-1, []) = Some (80, [(''/tg'', ?arg)])"
  proof -
    show "wf_config text_config"
      by (simp add: wf_config_def text_config_def token_ok_def bare_token_def ends_token_def)
    have "to_string 80 = ''80''"
      by (simp add: to_string_def nat_str.simps digit_char_def char_of_eq_iff)
    then have "safeportSTOI ''80'' = 80" using safeportSTOI_to_string [of 80] by simp
    then show "sem_config text_config (-1, []) = Some (80, [(''/tg'', ?arg)])"
      by (simp add: sem_config_def text_config_def apply_directive_def location_of_def eval_nat_numeral
          bind_root_def bind_api_key_def map_insert_def default_arg_def)
  qed
  have valid: "valid_handlers [(''/tg'', ?arg)]" by (simp add: valid_handlers_def valid_handler_types_def)
  have ready: "\<forall>e \<in> set [(''/tg'', ?arg)]. root_ready mem_world text_files (handler_type (snd e)) (root (snd e))"
    by (simp add: root_ready_def)
  have conf: "fs_opens mem_world text_files ''conf''"
      "fs_bytes mem_world text_files ''conf'' = config_to_string 0 text_config"
    by (simp_all add: mem_world_def text_files_def is_file_node_def mem_bytes_def)
  have lib: "libraries_ok mem_world (\<lambda>_. True) (\<lambda>_. True) (new_handler ''/tg'' (root ?arg))"
    by (simp add: libraries_ok_def posix_mem_world list_mem_world json_ok_mem boost_strings_def) (simp add: mem_world_def)
  have dir: "node_at mem_world text_files (root ?arg) = Some DirNode"
      "\<And>ns. valid_path ns \<Longrightarrow> ns \<noteq> [] \<Longrightarrow> node_at mem_world text_files (path_of (root ?arg) ns) = None"
    by (auto simp: text_files_def path_of_def neq_Nil_conv)
  have loc: "map_find [(''/tg'', ?arg)] ''/tg'' = Some ?arg" "handler_type ?arg = ''TextGenHandler''"
      "sole_service [(''/tg'', ?arg)] ''/tg''" "CHR '' '' \<notin> set ''/tg''" by (simp_all add: sole_service_def)
  from configured_text_gen_service [where binds = "\<lambda>_. True" and program = "''server''",
      OF tree _ valid ready conf _ loc lib dir, simplified]
  obtain s0 where s0: "main mem_world (\<lambda>_. True) [''server'', ''conf''] text_files = (Inr (Serving 80 s0), text_files)"
    "\<And>n tr p qs. pool_run mem_world (start_pool n s0) tr p \<Longrightarrow> \<not> overlapped p \<Longrightarrow> requests_of (exchanges tr) qs \<Longrightarrow>
       list_all (mixed_ok mem_world ''/tg'' (tg_service_ok mem_world (new_handler ''/tg'' ''d'') ''k'')) qs \<Longrightarrow>
       list_all2 (mixed_reply (tg_service_reply mem_world (new_handler ''/tg'' ''d'')))
         (fst (run_ops (mixed_spec (tg_service_spec mem_world ''k'')) (\<lambda>_. None) qs)) (replies_of (exchanges tr))"
    "\<And>n qs. 0 < pool_size n \<Longrightarrow> list_all (tg_service_ok mem_world (new_handler ''/tg'' ''d'') ''k'') qs \<Longrightarrow>
       \<exists>tr p. pool_run mem_world (start_pool n s0) tr p \<and> \<not> overlapped p \<and> requests_of (exchanges tr) qs"
    by blast
  have "0 < pool_size 4" by (simp add: pool_size_nonneg)
  from s0(3) [OF this text_requests_ok] obtain tr p where
    run: "pool_run mem_world (start_pool 4 s0) tr p" "\<not> overlapped p" "requests_of (exchanges tr) text_requests" by blast
  have "requests_of (exchanges tr) (map own_op text_requests)" using run(3) by simp
  from s0(2) [OF run(1,2) this] show ?thesis using s0(1) run text_requests_ok by (auto simp: list.pred_map comp_def)
qed

text \<open>C26: one request stops the server. When a session of a server with a CRUD location reads a
  PUT whose id does not fit an \<open>int\<close>, the process ends with an uncaught exception.\<close>

theorem put_overflow_stops_server:
  assumes "sessions s i = Some c" and "waits_for c = Pending_read" and "in_data c = zero_buffer"
    and "length bytes < max_length" and "CHR 0x00 \<notin> set bytes" and "parse_http E bytes = Some req"
    and "longest_route (routes s) (req_target req @ ''/'') loc" and "map_find (routes s) loc = Some f"
    and "fkind f = CrudHandler" and "req_method req = Verb_put"
    and "req_target req = location (farg f) @ ''/'' @ e @ ''/'' @ ds"
    and "e \<noteq> []" and "ds \<noteq> []" and "list_all is_digit ds" and "int_max < digits_value ds"
  shows "server_step E s (Inl (Uncaught OutOfRange))"
proof -
  obtain s' where "dispatch E (peer_ip c) loc f req (set_field allow_origin_field ''*'' []) (files s, routes s) =
      (Inl (Uncaught OutOfRange), s')"
    using dispatch_put_overflow [OF assms(9-15), where E = E and ip = "peer_ip c" and loc = loc and
        r = "set_field allow_origin_field ''*'' []" and fs = "files s" and R = "routes s"] by blast
  from reply_of_request [OF assms(4-8) this]
  have "finish i s (handle_read E False (length bytes) (c\<lparr>in_data := fill bytes (in_data c)\<rparr>) (files s, routes s)) =
      Inl (Uncaught OutOfRange)"
    by (cases s') (simp add: handle_read_def assms(3) finish_def)
  then show ?thesis
    using read_done [where s = s and i = i and c = c and bytes = bytes and error = False and E = E] assms(1,2,4)
    by simp
qed

definition crud_route :: factory where
  "crud_route = \<lparr>fkind = CrudHandler,
     farg = \<lparr>handler_type = ''CrudHandler'', location = ''/api'', root = ''d'', api_key = []\<rparr>, file_to_id = []\<rparr>"

definition crud_site :: "mem server" where
  "crud_site = \<lparr>files = demo_files, routes = [(''/api'', crud_route)],
     sessions = (\<lambda>_. None)(0 \<mapsto> new_session), next_session = new_session, accepting = True\<rparr>"

lemma put_overflow_stops_server_witness:
  "server_step mem_world crud_site (Inl (Uncaught OutOfRange))"
proof (rule put_overflow_stops_server [where i = 0 and c = new_session and loc = "''/api''" and f = crud_route
      and bytes = "''PUT /api/S/2147483648'' @ [CHR 0x0A]" and e = "''S''" and ds = "''2147483648''"
      and req = "\<lparr>req_method = Verb_put, req_target = ''/api/S/2147483648'', req_body = [], req_fields = []\<rparr>"])
  let ?R = "[(''/api'', crud_route)]" and ?url = "''/api/S/2147483648/''"
  have "search_addr_binding ?R ?url = Some ''/api''"
    by (subst search_addr_binding.simps, simp, subst search_addr_binding.simps, simp,
        subst search_addr_binding.simps) simp
  then have "longest_route ?R ?url ''/api''" using search_longest [where R = ?R and url = ?url] by simp
  then show "longest_route (routes crud_site) (req_target \<lparr>req_method = Verb_put,
      req_target = ''/api/S/2147483648'', req_body = [], req_fields = []\<rparr> @ ''/'') ''/api''"
    by (simp add: crud_site_def)
  show "parse_http mem_world (''PUT /api/S/2147483648'' @ [CHR 0x0A]) =
      Some \<lparr>req_method = Verb_put, req_target = ''/api/S/2147483648'', req_body = [], req_fields = []\<rparr>"
    by (simp add: mem_world_def mem_parse_http_def)
qed (simp_all add: crud_site_def crud_route_def new_session_def max_length_def is_digit_def digits_value_def
      digit_val_def int_max_def)

section \<open>The log of a server\<close>

text \<open>C10: monitoring. Take a run of the pool of threads of a server in which no two handlers of
  requests overlap, as none do on one thread, and the records logged from the first one of
  \<open>main\<close> on. The records of response metrics among them are exactly the replies that were made:
  one record for each, in their order, with the address of the client and the status of the
  response whose text was sent. (They are the records the logger is given, not the lines of its
  files, to which other records can add text that looks the same.)\<close>

theorem log_measures_replies:
  assumes "main E binds argv fs = (Inr (Serving port s0), fs1)" and "pool_run E (start_pool n s0) tr p"
    and "pool_size n \<le> 1 \<or> \<not> overlapped p" and "list_all plain_job (map fst tr)"
  shows "list_all2 (\<lambda>(ip, bytes, reply) e. \<exists>r more.
        reply = print_response E r \<and> answer_complete r \<and> e = INFO (metrics_start ip r @ more))
    (exchanges tr) (metrics_of (main_log E binds what cores argv fs @ records E tr))"
proof -
  obtain contents r c p' m where m: "Parse_file contents (Config []) (-1) [] = (r, c, p', m)"
    "new_server E m fs = (Inr s0, fs1)" using main_Serving [OF assms(1)] .
  have mok: "map_ok m" using Parse_file_ok(3) [OF m(1)] by (simp add: addrmap_ok_def)
  have "plain_peers s0" by (simp add: plain_peers_def new_server_routes(2) [OF m(2) mok])
  moreover have "\<not> overlapped p" using assms(3) pool_run_alone [OF assms(2)] by blast
  note pool_run_traced [OF assms(2) new_server_ready [OF m(2)] this]
  ultimately have "list_all2 (measured E) (exchanges tr) (metrics_of (records E tr))"
    using run_metrics [OF _ new_server_inv [OF m(2) mok] _ assms(4)] by blast
  moreover have "metrics_of (main_log E binds what cores argv fs) = []"
    using quiet_metrics [OF quiet_serving_start, of E binds argv fs port s0 what cores "[]"] assms(1) by simp
  moreover have "measured E = (\<lambda>(ip, bytes, reply) e. \<exists>r more.
      reply = print_response E r \<and> answer_complete r \<and> e = INFO (metrics_start ip r @ more))"
    by (simp add: fun_eq_iff measured_def)
  ultimately show ?thesis by simp
qed

text \<open>A run for the witness: a connection sends bytes that are no request.\<close>

lemma refused_run:
  assumes "sessions s = (\<lambda>_. None)" and "next_session s = new_session" and "accepting s"
  shows "\<exists>tr r s'. traced mem_world s tr s' \<and> exchanges tr = [(''1.2.3.4'', ''x'', print_response mem_world r)] \<and>
    list_all plain_job (map fst tr)"
proof -
  let ?ip = "''1.2.3.4''"
  let ?c = "new_session\<lparr>peer_ip := ?ip, waits_for := Pending_read\<rparr>"
  let ?s1 = "start_accept (s\<lparr>sessions := (sessions s)(0 \<mapsto> ?c)\<rparr>)"
  let ?r = "result St_bad_request (set_field allow_origin_field ''*'' [])"
  have "perform mem_world (Accept_job 0 False (Some ?ip)) s = Inr ?s1"
    by (simp add: handle_accept_def start_def assms(2) accept_completed_def start_accept_def)
  from traced_job [OF traced_start _ this] assms(1,3)
  have one: "traced mem_world s ([] @ [(Accept_job 0 False (Some ?ip), s, ?s1)]) ?s1" by simp
  have "get_reply mem_world ?ip (fill ''x'' zero_buffer) (int (length ''x'')) t = (Inr (print_response mem_world ?r), t)" for t
    by (rule refused_reply) (simp_all add: mem_world_def mem_parse_http_def max_length_def)
  then have "\<exists>s2. perform mem_world (Read_job 0 False ''x'') ?s1 = Inr s2 \<and>
      exchange_of (Read_job 0 False ''x'') s2 = [(?ip, ''x'', print_response mem_world ?r)]"
    by (simp add: start_accept_def new_session_def handle_read_def finish_def exchange_of_def)
  then obtain s2 where s2: "perform mem_world (Read_job 0 False ''x'') ?s1 = Inr s2"
    "exchange_of (Read_job 0 False ''x'') s2 = [(?ip, ''x'', print_response mem_world ?r)]" by blast
  have "job_pending ?s1 (Read_job 0 False ''x'')" by (simp add: start_accept_def max_length_def)
  from traced_job [OF one this s2(1)] s2(2) show ?thesis
    by (intro exI [of _ "([] @ [(Accept_job 0 False (Some ?ip), s, ?s1)]) @ [(Read_job 0 False ''x'', ?s1, s2)]"]
        exI [of _ ?r] exI [of _ s2])
       (simp add: exchanges_def exchange_of_def plain_job_def plain_address_def)
qed

lemma log_measures_replies_witness:
  "\<exists>s tr r p. main mem_world (\<lambda>_. True) [''server'', ''conf''] (\<lambda>_. None) = (Inr (Serving 65535 s), \<lambda>_. None) \<and>
     pool_run mem_world (start_pool 4 s) tr p \<and> exchanges tr = [(''1.2.3.4'', ''x'', print_response mem_world r)] \<and>
     length (metrics_of (main_log mem_world (\<lambda>_. True) [] 4 [''server'', ''conf''] (\<lambda>_. None) @ records mem_world tr)) = 1"
proof -
  have "\<exists>s. main mem_world (\<lambda>_. True) [''server'', ''conf''] (\<lambda>_. None) = (Inr (Serving 65535 s), \<lambda>_. None) \<and>
      sessions s = (\<lambda>_. None) \<and> next_session s = new_session \<and> accepting s"
    by (simp add: main_def Parse_file_def valid_handlers_def endpoint_port_mod new_server_def start_accept_def
        mem_world_def is_file_node_def)
  then obtain s where s: "main mem_world (\<lambda>_. True) [''server'', ''conf''] (\<lambda>_. None) = (Inr (Serving 65535 s), \<lambda>_. None)"
    "sessions s = (\<lambda>_. None)" "next_session s = new_session" "accepting s" by blast
  obtain tr r s' where run: "traced mem_world s tr s'"
    "exchanges tr = [(''1.2.3.4'', ''x'', print_response mem_world r)]" "list_all plain_job (map fst tr)"
    using refused_run [OF s(2-4)] by blast
  have "0 < pool_size 4" by (simp add: pool_size_nonneg)
  note pool = traced_pool_run [OF run(1) this]
  have "pool_size 4 \<le> 1 \<or> \<not> overlapped ((start_pool 4 s)\<lparr>srv := s'\<rparr>)" by (simp add: start_pool_def)
  from list_all2_lengthD [OF log_measures_replies [OF s(1) pool this run(3), of "[]" 4]] run(2)
  have "length (metrics_of (main_log mem_world (\<lambda>_. True) [] 4 [''server'', ''conf''] (\<lambda>_. None) @ records mem_world tr)) = 1"
    by simp
  then show ?thesis using s(1) pool run(2) by blast
qed

end
